(* ===== verification/Prelude.thy ===== *)
theory Prelude
  imports
    Main
    "HOL-Library.Word"
    "HOL-Library.Char_ord"
    "HOL-Library.List_Lexorder"
    "HOL-Library.AList"
begin

text \<open>
  The vocabulary shared by the component theories.

  \<^item> Go's \<open>string\<close> and \<open>[]byte\<close> are both \<^typ>\<open>string\<close> (a list of 8-bit characters): the
    conversions \<open>[]byte(s)\<close> and \<open>string(b)\<close> copy the bytes and change nothing else. A slice that the
    code distinguishes from \<open>nil\<close> is an option, \<^const>\<open>None\<close> being \<open>nil\<close>. Strings are compared
    byte by byte (\<open>List_Lexorder\<close> over \<open>Char_ord\<close>), as \<open>strings.Compare\<close>, \<open>sort.Strings\<close> and
    \<open>bytes.Compare\<close> do.
  \<^item> An operation that may return an error or panic has a sum type with \<open>fault\<close> on the left.
  \<^item> A Go map is an association list with distinct keys, read by \<^const>\<open>map_of\<close>. The order of the list
    is the order in which a \<open>range\<close> loop visits the map; theorems about such loops hold for every order.
\<close>

section \<open>Bytes, errors, results\<close>

type_synonym byte = char
type_synonym bytes = "char list"
type_synonym gostring = "char list"

type_synonym u8 = "8 word"
type_synonym u32 = "32 word"
type_synonym u64 = "64 word"

text \<open>An error value returned to the caller, or a panic (explicit, a nil dereference, an index out of
  range) that unwinds the goroutine.\<close>

datatype fault = Err string | Panic string

type_synonym 'a result = "fault + 'a"

definition bindR :: "'e + 'a \<Rightarrow> ('a \<Rightarrow> 'e + 'b) \<Rightarrow> 'e + 'b" where
  "bindR r f = (case r of Inl e \<Rightarrow> Inl e | Inr a \<Rightarrow> f a)"

lemma bindR_simps [simp]:
  "bindR (Inl e) f = Inl e"
  "bindR (Inr a) f = f a"
  by (simp_all add: bindR_def)

lemma bindR_Inr_iff: "bindR r f = Inr b \<longleftrightarrow> (\<exists>a. r = Inr a \<and> f a = Inr b)"
  by (cases r) simp_all

lemma bindR_Inl_iff: "bindR r f = Inl e \<longleftrightarrow> r = Inl e \<or> (\<exists>a. r = Inr a \<and> f a = Inl e)"
  by (cases r) auto

lemma bindR_assoc: "bindR (bindR r f) g = bindR r (\<lambda>a. bindR (f a) g)"
  by (cases r) simp_all

lemma bindR_cong [fundef_cong]:
  "r = r' \<Longrightarrow> (\<And>a. r' = Inr a \<Longrightarrow> f a = f' a) \<Longrightarrow> bindR r f = bindR r' f'"
  by (cases r') simp_all

text \<open>A \<open>for ... range\<close> loop over a state whose body may return early with an error.\<close>

fun foldR :: "('a \<Rightarrow> 's \<Rightarrow> 'e + 's) \<Rightarrow> 'a list \<Rightarrow> 's \<Rightarrow> 'e + 's" where
  "foldR f [] s = Inr s"
| "foldR f (x # xs) s = bindR (f x s) (foldR f xs)"

lemma foldR_append: "foldR f (xs @ ys) s = bindR (foldR f xs s) (foldR f ys)"
  by (induction xs arbitrary: s) (simp_all add: bindR_assoc cong: bindR_cong)

lemma foldR_cong [fundef_cong]:
  "xs = ys \<Longrightarrow> s = t \<Longrightarrow> (\<And>x u. x \<in> set ys \<Longrightarrow> f x u = g x u) \<Longrightarrow> foldR f xs s = foldR g ys t"
proof (induction ys arbitrary: xs s t)
  case Nil
  then show ?case by simp
next
  case (Cons y ys)
  have "foldR f ys u = foldR g ys u" for u
    by (rule Cons.IH) (simp_all add: Cons.prems)
  with Cons.prems show ?case by (simp cong: bindR_cong)
qed

text \<open>An invariant of the body that every successful step keeps holds after the loop.\<close>

lemma foldR_invariant:
  assumes "foldR f xs s = Inr t" and "I s"
    and "\<And>x u v. x \<in> set xs \<Longrightarrow> I u \<Longrightarrow> f x u = Inr v \<Longrightarrow> I v"
  shows "I t"
  using assms
proof (induction xs arbitrary: s)
  case Nil
  then show ?case by simp
next
  case (Cons x xs)
  then obtain u where u: "f x s = Inr u" and rest: "foldR f xs u = Inr t"
    by (auto simp: bindR_Inr_iff)
  from Cons.prems(2,3) u have "I u" by auto
  with rest show ?case by (rule Cons.IH) (use Cons.prems(3) in auto)
qed

text \<open>Loops whose body cannot fail.\<close>

lemma foldR_total: "(\<And>x s. f x s = Inr (g x s)) \<Longrightarrow> foldR f xs s = Inr (fold g xs s)"
  by (induction xs arbitrary: s) simp_all

fun mapR :: "('a \<Rightarrow> 'e + 'b) \<Rightarrow> 'a list \<Rightarrow> 'e + 'b list" where
  "mapR f [] = Inr []"
| "mapR f (x # xs) = bindR (f x) (\<lambda>y. bindR (mapR f xs) (\<lambda>ys. Inr (y # ys)))"

lemma mapR_Inr_iff: "mapR f xs = Inr ys \<longleftrightarrow> list_all2 (\<lambda>x y. f x = Inr y) xs ys"
  by (induction xs arbitrary: ys) (auto simp: bindR_Inr_iff list_all2_Cons1)

lemma mapR_total: "(\<And>x. x \<in> set xs \<Longrightarrow> f x = Inr (g x)) \<Longrightarrow> mapR f xs = Inr (map g xs)"
  by (induction xs) simp_all

section \<open>Byte strings\<close>

lemma append_less_append_iff:
  fixes xs ys :: "'a :: linorder list"
  shows "length xs = length ys \<Longrightarrow> xs @ us < ys @ vs \<longleftrightarrow> xs < ys \<or> xs = ys \<and> us < vs"
  by (induction xs ys rule: list_induct2) auto

lemma append_less_cancel [simp]:
  fixes xs us vs :: "'a :: linorder list"
  shows "xs @ us < xs @ vs \<longleftrightarrow> us < vs"
  by (induction xs) auto

lemma append_le_cancel [simp]:
  fixes xs us vs :: "'a :: linorder list"
  shows "xs @ us \<le> xs @ vs \<longleftrightarrow> us \<le> vs"
  by (induction xs) auto

text \<open>A byte string without a zero byte, which key-value stores use as a separator.\<close>

definition nz :: "gostring \<Rightarrow> bool" where
  "nz ns \<longleftrightarrow> CHR 0x00 \<notin> set ns"

text \<open>A string between two strings with a common prefix has this prefix.\<close>

lemma prefix_range:
  fixes p x k y :: "'a :: linorder list"
  assumes "p @ x \<le> k" and "k < p @ y"
  shows "\<exists>z. k = p @ z"
  using assms
proof (induction p arbitrary: k)
  case (Cons a p)
  then obtain b k' where k: "k = b # k'" by (cases k) auto
  with Cons.prems have "b = a" by auto
  with Cons k show ?case by auto
qed simp

section \<open>Go maps\<close>

type_synonym ('k, 'v) gomap = "('k \<times> 'v) list"

abbreviation wf_map :: "('k, 'v) gomap \<Rightarrow> bool" where
  "wf_map m \<equiv> distinct (map fst m)"

abbreviation mput :: "'k \<Rightarrow> 'v \<Rightarrow> ('k, 'v) gomap \<Rightarrow> ('k, 'v) gomap" where
  "mput \<equiv> AList.update"

abbreviation mdel :: "'k \<Rightarrow> ('k, 'v) gomap \<Rightarrow> ('k, 'v) gomap" where
  "mdel \<equiv> AList.delete"

text \<open>\<open>GetSortedKeys\<close> and \<open>GetValuesBySortedKeys\<close> of \<open>core/ledger/util/util.go\<close>.\<close>

definition GetSortedKeys :: "(gostring, 'v) gomap \<Rightarrow> gostring list" where
  "GetSortedKeys m = sort (map fst m)"

definition GetValuesBySortedKeys :: "(gostring, 'v) gomap \<Rightarrow> 'v list" where
  "GetValuesBySortedKeys m = map (\<lambda>k. the (map_of m k)) (GetSortedKeys m)"

named_theorems gomap_simps "rewriting lookups and updates of Go maps"

declare update_conv' [gomap_simps] delete_conv' [gomap_simps]

lemma wf_map_mput [simp, intro]: "wf_map m \<Longrightarrow> wf_map (mput k v m)"
  by (rule distinct_update)

lemma wf_map_mdel [simp, intro]: "wf_map m \<Longrightarrow> wf_map (mdel k m)"
  by (rule distinct_delete)

lemma map_of_Some_mem: "wf_map m \<Longrightarrow> map_of m k = Some v \<longleftrightarrow> (k, v) \<in> set m"
  by (rule map_of_eq_Some_iff)

lemma dom_map_of_keys: "dom (map_of m) = set (map fst m)"
  by (simp add: dom_map_of_conv_image_fst)

lemma set_GetSortedKeys [simp]: "set (GetSortedKeys m) = dom (map_of m)"
  by (simp add: GetSortedKeys_def dom_map_of_conv_image_fst)

lemma sorted_GetSortedKeys [simp]: "sorted (GetSortedKeys m)"
  by (simp add: GetSortedKeys_def)

lemma distinct_GetSortedKeys [simp]: "wf_map m \<Longrightarrow> distinct (GetSortedKeys m)"
  by (simp add: GetSortedKeys_def)

text \<open>Two well-formed representations of the same map, whatever the order of their entries, have the
  same sorted keys.\<close>

lemma GetSortedKeys_order_independent:
  assumes "wf_map m" and "wf_map m'" and "map_of m = map_of m'"
  shows "GetSortedKeys m = GetSortedKeys m'"
proof (rule sorted_distinct_set_unique)
  show "set (GetSortedKeys m) = set (GetSortedKeys m')"
    using assms(3) by simp
qed (use assms in simp_all)

lemma GetValuesBySortedKeys_order_independent:
  assumes "wf_map m" and "wf_map m'" and "map_of m = map_of m'"
  shows "GetValuesBySortedKeys m = GetValuesBySortedKeys m'"
  using GetSortedKeys_order_independent [OF assms] assms(3)
  by (simp add: GetValuesBySortedKeys_def)

lemma set_GetValuesBySortedKeys: "set (GetValuesBySortedKeys m) = ran (map_of m)"
  by (force simp: GetValuesBySortedKeys_def ran_def image_iff)

end
