(* ===== verification/Ledger_Util.thy ===== *)
theory Ledger_Util
  imports Prelude
begin

text \<open>
  The order-preserving variable-length encoding of \<open>uint64\<close> (\<open>common/ledger/util/util.go\<close>) that every
  height, savepoint and composite database key is built from, with the base-128 varint of the protobuf
  library that it uses for its length byte.
\<close>

section \<open>Big-endian bytes\<close>

text \<open>\<open>binary.BigEndian.PutUint64\<close> and \<open>Uint64\<close>, over any number of bytes.\<close>

fun put_be :: "nat \<Rightarrow> nat \<Rightarrow> bytes" where
  "put_be 0 n = []"
| "put_be (Suc k) n = char_of (n div 256 ^ k) # put_be k n"

definition get_be :: "bytes \<Rightarrow> nat" where
  "get_be bs = foldl (\<lambda>a b. a * 256 + of_char b) 0 bs"

definition PutUint64 :: "u64 \<Rightarrow> bytes" where
  "PutUint64 n = put_be 8 (unat n)"

definition Uint64 :: "bytes \<Rightarrow> u64" where
  "Uint64 bs = word_of_nat (get_be (take 8 bs))"

section \<open>The protobuf varint\<close>

text \<open>\<open>protowire.AppendVarint\<close>: seven bits a byte, low bits first, the top bit set on all but the last.\<close>

fun AppendVarint :: "bytes \<Rightarrow> nat \<Rightarrow> bytes" where
  "AppendVarint b v =
     (if v < 128 then b @ [char_of v] else AppendVarint (b @ [char_of (v mod 128 + 128)]) (v div 128))"

declare AppendVarint.simps [simp del]

definition EncodeVarint :: "u64 \<Rightarrow> bytes" where
  "EncodeVarint v = AppendVarint [] (unat v)"

text \<open>\<open>protowire.ConsumeVarint\<close> from byte \<open>i\<close> on, with \<open>v\<close> accumulated so far: \<^const>\<open>None\<close> is a truncated or
  overflowing encoding (a negative length in the code).\<close>

fun ConsumeVarint_from :: "nat \<Rightarrow> u64 \<Rightarrow> bytes \<Rightarrow> (u64 \<times> nat) option" where
  "ConsumeVarint_from i v [] = None"
| "ConsumeVarint_from i v (b # bs) =
     (let y = word_of_nat (of_char b); v' = v + push_bit (7 * i) y
      in if i = 9 then (if y < 2 then Some (v', 10) else None)
         else if y < 128 then Some (v', Suc i)
         else ConsumeVarint_from (Suc i) (v' - push_bit (7 * i) 128) bs)"

definition DecodeVarint :: "bytes \<Rightarrow> u64 \<times> nat" where
  "DecodeVarint b = (case ConsumeVarint_from 0 0 b of None \<Rightarrow> (0, 0) | Some r \<Rightarrow> r)"

section \<open>The order-preserving encoding\<close>

text \<open>The loop that looks for the first non-zero byte and records its index and the number of bytes left.\<close>

fun first_nonzero :: "nat \<Rightarrow> bytes \<Rightarrow> nat \<times> nat" where
  "first_nonzero i [] = (0, 0)"
| "first_nonzero i (b # bs) = (if b \<noteq> CHR 0x00 then (i, 8 - i) else first_nonzero (Suc i) bs)"

definition EncodeOrderPreservingVarUint64 :: "u64 \<Rightarrow> bytes result" where
  "EncodeOrderPreservingVarUint64 number =
     (let bs = PutUint64 number;
          (startingIndex, size) = first_nonzero 0 bs;
          sizeBytes = EncodeVarint (word_of_nat size)
      in if length sizeBytes > 1 then Inl (Panic ''[]sizeBytes should not be more than one byte'')
         else Inr (hd sizeBytes # take size (drop startingIndex bs)))"

definition DecodeOrderPreservingVarUint64 :: "bytes \<Rightarrow> (u64 \<times> nat) result" where
  "DecodeOrderPreservingVarUint64 bs =
     (let (s, numBytes) = DecodeVarint bs
      in if numBytes \<noteq> 1 then Inl (Err ''number of consumed bytes from DecodeVarint is invalid'')
         else if s > 8 then Inl (Err ''decoded size from DecodeVarint is invalid'')
         else if int (unat s) > int (length bs) - 1
         then Inl (Err ''decoded size from DecodeVarint is more than available bytes'')
         else let size = unat s;
                  decodedBytes = replicate (8 - size) (CHR 0x00) @ take size (drop 1 bs)
              in Inr (Uint64 decodedBytes, size + 1))"

section \<open>Lemmas on big-endian bytes\<close>

lemma length_put_be [simp]: "length (put_be k n) = k"
  by (induction k) simp_all

lemma of_char_less_256 [simp]: "of_char c < (256 :: nat)"
  by (metis of_char_mod_256 mod_less_divisor zero_less_numeral)

lemma mod_power_div_mod:
  fixes n :: nat
  assumes "k < m"
  shows "n mod 256 ^ m div 256 ^ k mod 256 = n div 256 ^ k mod 256"
proof -
  have "(256::nat) ^ m = 256 ^ k * 256 ^ (m - k)"
    using assms by (simp flip: power_add)
  then have "n mod 256 ^ m = 256 ^ k * (n div 256 ^ k mod 256 ^ (m - k)) + n mod 256 ^ k"
    by (simp add: mod_mult2_eq)
  then have "n mod 256 ^ m div 256 ^ k = n div 256 ^ k mod 256 ^ (m - k)"
    by simp
  moreover have "(256::nat) dvd 256 ^ (m - k)"
    using assms by simp
  ultimately show ?thesis by (simp add: mod_mod_cancel)
qed

lemma put_be_mod: "k \<le> m \<Longrightarrow> put_be k (n mod 256 ^ m) = put_be k n"
proof (induction k)
  case (Suc k)
  then show ?case
    using mod_power_div_mod [of k m n] by simp
qed simp

lemma get_be_Nil [simp]: "get_be [] = 0"
  by (simp add: get_be_def)

lemma foldl_be: "foldl (\<lambda>a b. a * 256 + of_char b) x bs = x * 256 ^ length bs + get_be bs"
proof (induction bs arbitrary: x)
  case (Cons b bs)
  show ?case
    using Cons [of "x * 256 + of_char b"] Cons [of "of_char b"]
    by (simp add: get_be_def algebra_simps)
qed simp

lemma get_be_Cons: "get_be (b # bs) = of_char b * 256 ^ length bs + get_be bs"
  using foldl_be [of "of_char b" bs] by (simp add: get_be_def)

lemma get_be_less: "get_be bs < 256 ^ length bs"
proof (induction bs)
  case (Cons b bs)
  have "of_char b * 256 ^ length bs \<le> (255 :: nat) * 256 ^ length bs"
    using of_char_less_256 [of b] by (intro mult_right_mono) linarith+
  with Cons show ?case
    by (simp only: get_be_Cons length_Cons power_Suc)
qed simp

lemma get_put_be: "get_be (put_be k n) = n mod 256 ^ k"
proof (induction k)
  case (Suc k)
  have "n mod 256 ^ Suc k = (n div 256 ^ k mod 256) * 256 ^ k + n mod 256 ^ k"
    by (metis mod_mult2_eq mult.commute power_Suc2)
  with Suc show ?case by (simp add: get_be_Cons)
qed simp

lemma put_get_be: "put_be (length bs) (get_be bs) = bs"
proof (induction bs)
  case (Cons b bs)
  have "get_be (b # bs) div 256 ^ length bs = of_char b"
    using get_be_less [of bs] by (simp add: get_be_Cons)
  moreover have "put_be (length bs) (get_be (b # bs)) = put_be (length bs) (get_be bs)"
    by (metis put_be_mod [OF order_refl] get_be_Cons mod_mult_self3)
  ultimately show ?case using Cons by simp
qed simp

lemma get_be_zeros [simp]: "get_be (replicate k (CHR 0x00) @ bs) = get_be bs"
  by (induction k) (simp_all add: get_be_Cons)

text \<open>Byte-wise comparison of equally long big-endian encodings is numeric comparison.\<close>

lemma be_less_iff:
  "length xs = length ys \<Longrightarrow> xs < ys \<longleftrightarrow> get_be xs < get_be ys"
proof (induction xs ys rule: list_induct2)
  case (Cons x xs y ys)
  let ?k = "(256::nat) ^ length ys"
  have lx: "get_be xs < ?k" and ly: "get_be ys < ?k"
    using get_be_less [of xs] get_be_less [of ys] Cons.hyps by simp_all
  have eq: "x = y \<longleftrightarrow> of_char x = (of_char y :: nat)"
    by simp
  consider "of_char x < (of_char y :: nat)" | "x = y" | "of_char y < (of_char x :: nat)"
    using eq by linarith
  then show ?case
  proof cases
    case 1
    then have "Suc (of_char x) * ?k \<le> of_char y * ?k"
      by (intro mult_right_mono) auto
    with 1 lx show ?thesis
      by (simp add: get_be_Cons Cons.hyps less_char_def)
  next
    case 2
    then show ?thesis using Cons by (simp add: get_be_Cons)
  next
    case 3
    then have "Suc (of_char y) * ?k \<le> of_char x * ?k"
      by (intro mult_right_mono) auto
    with 3 ly show ?thesis
      by (auto simp: get_be_Cons Cons.hyps less_char_def)
  qed
qed simp

section \<open>Correctness of the encoding\<close>

text \<open>The number of significant bytes, and the encoding written without the loop.\<close>

fun nbytes_from :: "nat \<Rightarrow> nat \<Rightarrow> nat" where
  "nbytes_from 0 n = 0"
| "nbytes_from (Suc k) n = (if n div 256 ^ k mod 256 \<noteq> 0 then Suc k else nbytes_from k n)"

definition nbytes :: "u64 \<Rightarrow> nat" where
  "nbytes n = nbytes_from 8 (unat n)"

definition opv :: "u64 \<Rightarrow> bytes" where
  "opv n = char_of (nbytes n) # put_be (nbytes n) (unat n)"

lemma first_nonzero_put_be:
  "k \<le> 8 \<Longrightarrow> i = 8 - k \<Longrightarrow>
   first_nonzero i (put_be k n) =
     (if nbytes_from k n = 0 then (0, 0) else (8 - nbytes_from k n, nbytes_from k n))"
proof (induction k arbitrary: i)
  case (Suc k)
  have "char_of (n div 256 ^ k) = CHR 0x00 \<longleftrightarrow> n div 256 ^ k mod 256 = 0"
    using char_of_quasi_inj [of "n div 256 ^ k" 0] by (simp add: char_of_def)
  moreover have "Suc i = 8 - k"
    using Suc.prems by simp
  ultimately show ?case
    using Suc.IH [of "Suc i"] Suc.prems by auto
qed simp

lemma nbytes_from_le: "nbytes_from k n \<le> k"
  by (induction k) (auto intro: le_SucI)

lemma nbytes_le_8 [simp]: "nbytes n \<le> 8"
  by (simp add: nbytes_def nbytes_from_le)

lemma nbytes_from_bound: "n < 256 ^ k \<Longrightarrow> n < 256 ^ nbytes_from k n"
proof (induction k)
  case (Suc k)
  show ?case
  proof (cases "n div 256 ^ k mod 256 = 0")
    case True
    have "n div 256 ^ k < 256"
      using Suc.prems by (simp add: less_mult_imp_div_less mult.commute)
    with True have "n < 256 ^ k"
      by (metis div_eq_0_iff mod_less zero_less_power zero_less_numeral not_gr_zero less_numeral_extra(3))
    with Suc.IH True show ?thesis by simp
  qed (use Suc.prems in simp)
qed simp

lemma nbytes_from_ge: "0 < nbytes_from k n \<Longrightarrow> 256 ^ (nbytes_from k n - 1) \<le> n"
proof (induction k)
  case (Suc k)
  show ?case
  proof (cases "n div 256 ^ k mod 256 = 0")
    case False
    then have "0 < n div 256 ^ k" by (metis gr0I mod_0)
    then have "256 ^ k \<le> n" by (simp add: div_greater_zero_iff)
    with False show ?thesis by simp
  qed (use Suc in simp)
qed simp

lemma unat_less_256_8: "unat (n :: u64) < 256 ^ 8"
  using unsigned_less [of n, where 'a = nat] by simp

lemma nbytes_bound: "unat n < 256 ^ nbytes n"
  unfolding nbytes_def by (rule nbytes_from_bound) (rule unat_less_256_8)

lemma nbytes_ge: "0 < nbytes n \<Longrightarrow> 256 ^ (nbytes n - 1) \<le> unat n"
  unfolding nbytes_def by (rule nbytes_from_ge)

lemma drop_put_be: "j \<le> k \<Longrightarrow> drop (k - j) (put_be k n) = put_be j n"
proof (induction k)
  case (Suc k)
  then show ?case by (cases "j = Suc k") (auto simp: Suc_diff_le)
qed simp

lemma EncodeVarint_small: "n < 128 \<Longrightarrow> EncodeVarint (word_of_nat n) = [char_of n]"
  by (simp add: EncodeVarint_def AppendVarint.simps unat_of_nat take_bit_eq_mod)

text \<open>The panic of \<open>EncodeOrderPreservingVarUint64\<close> is unreachable.\<close>

lemma Encode_opv: "EncodeOrderPreservingVarUint64 n = Inr (opv n)"
proof -
  have fn: "first_nonzero 0 (PutUint64 n) =
      (if nbytes n = 0 then (0, 0) else (8 - nbytes n, nbytes n))"
    using first_nonzero_put_be [of 8 0 "unat n"] by (simp add: PutUint64_def nbytes_def)
  have ev: "EncodeVarint (word_of_nat (nbytes n)) = [char_of (nbytes n)]"
    by (rule EncodeVarint_small) (use nbytes_le_8 [of n] in linarith)
  have dr: "drop (8 - nbytes n) (PutUint64 n) = put_be (nbytes n) (unat n)"
    unfolding PutUint64_def by (rule drop_put_be) simp
  show ?thesis
  proof (cases "nbytes n = 0")
    case True
    then show ?thesis
      using fn ev by (simp add: EncodeOrderPreservingVarUint64_def opv_def)
  next
    case False
    then show ?thesis
      using fn ev dr by (simp add: EncodeOrderPreservingVarUint64_def opv_def)
  qed
qed

lemma DecodeVarint_byte:
  "of_char c < (128 :: nat) \<Longrightarrow> DecodeVarint (c # bs) = (word_of_nat (of_char c), 1)"
  by (simp add: DecodeVarint_def word_less_nat_alt unat_of_nat take_bit_eq_mod)

lemma of_char_of_small [simp]: "n < 256 \<Longrightarrow> of_char (char_of n) = (n :: nat)"
  by simp

lemma length_opv: "length (opv n) = Suc (nbytes n)"
  by (simp add: opv_def)

lemma Decode_opv_append:
  "DecodeOrderPreservingVarUint64 (opv n @ rest) = Inr (n, length (opv n))"
proof -
  have le: "nbytes n \<le> 8" by simp
  have dv: "DecodeVarint (opv n @ rest) = (word_of_nat (nbytes n), 1)"
    using DecodeVarint_byte [of "char_of (nbytes n)" "put_be (nbytes n) (unat n) @ rest"] le
    by (simp add: opv_def)
  have un: "unat (word_of_nat (nbytes n) :: u64) = nbytes n"
  proof -
    have "nbytes n < 18446744073709551616" using nbytes_le_8 [of n] by linarith
    then show ?thesis by (simp add: unat_of_nat take_bit_eq_mod)
  qed
  have le8: "\<not> 8 < (word_of_nat (nbytes n) :: u64)"
    by (simp add: word_less_nat_alt un not_less)
  have body: "take (nbytes n) (drop 1 (opv n @ rest)) = put_be (nbytes n) (unat n)"
    by (simp add: opv_def)
  have "get_be (replicate (8 - nbytes n) CHR 0x00 @ put_be (nbytes n) (unat n)) = unat n"
    using nbytes_bound [of n] by (simp add: get_put_be)
  then have "Uint64 (replicate (8 - nbytes n) CHR 0x00 @ put_be (nbytes n) (unat n)) = n"
    using le by (simp add: Uint64_def)
  then show ?thesis
    using dv un le8 body by (simp add: DecodeOrderPreservingVarUint64_def length_opv)
qed

lemma opv_append_inject: "opv a @ r = opv b @ s \<longleftrightarrow> a = b \<and> r = s"
  by (metis Decode_opv_append append_same_eq prod.inject same_append_eq sum.inject(2))

lemma nbytes_mono: "a \<le> b \<Longrightarrow> nbytes a \<le> nbytes b"
proof (rule ccontr)
  assume "a \<le> b" and "\<not> nbytes a \<le> nbytes b"
  then have "nbytes b \<le> nbytes a - 1" and "0 < nbytes a" by simp_all
  then have "(256::nat) ^ nbytes b \<le> 256 ^ (nbytes a - 1)" by simp
  also have "\<dots> \<le> unat a" by (rule nbytes_ge) fact
  also have "\<dots> \<le> unat b" using \<open>a \<le> b\<close> by (simp add: word_le_nat_alt)
  finally show False using nbytes_bound [of b] by simp
qed

lemma opv_append_less:
  assumes "a < b"
  shows "opv a @ r < opv b @ s"
proof (cases "nbytes a = nbytes b")
  case True
  have "get_be (put_be (nbytes a) (unat a)) < get_be (put_be (nbytes b) (unat b))"
    using assms nbytes_bound [of a] nbytes_bound [of b]
    by (simp add: get_put_be word_less_nat_alt)
  with True have "put_be (nbytes a) (unat a) < put_be (nbytes b) (unat b)"
    by (simp add: be_less_iff)
  with True show ?thesis
    by (simp add: opv_def append_less_append_iff)
next
  case False
  moreover from assms have "nbytes a \<le> nbytes b" by (simp add: nbytes_mono)
  ultimately have "nbytes a < nbytes b" by simp
  moreover have "nbytes b < 256" using nbytes_le_8 [of b] by linarith
  ultimately show ?thesis by (simp add: opv_def less_char_def)
qed

lemma opv_append_less_iff: "opv a @ r < opv b @ s \<longleftrightarrow> a < b \<or> a = b \<and> r < s"
proof (cases a b rule: linorder_cases)
  case greater
  then have "opv b @ s < opv a @ r" by (rule opv_append_less)
  with greater show ?thesis by auto
qed (auto simp: opv_append_less append_less_append_iff)

lemma Decode_InrE:
  assumes "DecodeOrderPreservingVarUint64 bs = Inr (n, k)"
  obtains s where "s \<le> 8" and "s < length bs" and "k = Suc s"
    and "n = Uint64 (replicate (8 - s) (CHR 0x00) @ take s (drop 1 bs))"
proof -
  obtain w m where dv: "DecodeVarint bs = (w, m)" by fastforce
  have len: "int (unat w) \<le> int (length bs) - 1" and w8: "w \<le> 8" and k: "k = Suc (unat w)"
    and n: "n = Uint64 (replicate (8 - unat w) (CHR 0x00) @ take (unat w) (drop 1 bs))"
    using assms dv by (auto simp: DecodeOrderPreservingVarUint64_def Let_def split: if_splits)
  have "unat w < length bs" using len by linarith
  moreover have "unat w \<le> 8" using w8 by (simp add: word_le_nat_alt)
  ultimately show thesis using k n that by blast
qed

lemma Decode_consumes:
  "DecodeOrderPreservingVarUint64 bs = Inr (n, k) \<Longrightarrow> 1 \<le> k \<and> k \<le> 9 \<and> k \<le> length bs"
  by (erule Decode_InrE) simp

text \<open>Whatever the decoder accepts re-encodes to no more bytes than it consumed.\<close>

lemma Decode_canonical_length:
  assumes "DecodeOrderPreservingVarUint64 bs = Inr (n, k)"
  shows "length (opv n) \<le> k"
proof -
  from assms obtain s where s: "s \<le> 8" "s < length bs" "k = Suc s"
    and n: "n = Uint64 (replicate (8 - s) (CHR 0x00) @ take s (drop 1 bs))"
    by (rule Decode_InrE)
  let ?bs = "take s (drop 1 bs)"
  have "get_be ?bs < 256 ^ s" using get_be_less [of ?bs] s by simp
  moreover have "unat n \<le> get_be ?bs"
    using s by (simp add: n Uint64_def unat_of_nat take_bit_eq_mod)
  ultimately have *: "unat n < 256 ^ s" by simp
  have "nbytes n \<le> s"
  proof (rule ccontr)
    assume "\<not> nbytes n \<le> s"
    then have "s \<le> nbytes n - 1" and "0 < nbytes n" by simp_all
    then have "(256::nat) ^ s \<le> unat n"
      using nbytes_ge [of n] power_increasing [of s "nbytes n - 1" "256::nat"] by linarith
    with * show False by simp
  qed
  with s show ?thesis by (simp add: length_opv)
qed

section \<open>The encoding is order preserving\<close>

text \<open>
  C15. \<open>EncodeOrderPreservingVarUint64\<close> never panics. Whatever bytes follow an encoding, the decoder reads the
  number back and consumes exactly the encoding, and byte-wise comparison of two encodings with their suffixes is
  comparison of the numbers first and of the suffixes after: encodings are prefix-free and sort as the numbers do.
\<close>

theorem order_preserving_encoding:
  "\<exists>x y. EncodeOrderPreservingVarUint64 a = Inr x \<and> EncodeOrderPreservingVarUint64 b = Inr y \<and>
     DecodeOrderPreservingVarUint64 (x @ r) = Inr (a, length x) \<and>
     (x @ r < y @ s \<longleftrightarrow> a < b \<or> a = b \<and> r < s)"
  by (simp add: Encode_opv Decode_opv_append opv_append_less_iff)

end
