(* ===== verification/Version.thy ===== *)
theory Version
  imports Ledger_Util
begin

text \<open>
  Transaction heights, \<open>core/ledger/internal/version/version.go\<close>. A \<open>*Height\<close> that may be \<open>nil\<close> is a
  \<open>Height option\<close>. The comparison keeps the code's 64-bit subtraction and its reading as a signed \<open>int\<close>.
\<close>

record Height =
  BlockNum :: u64
  TxNum :: u64

definition NewHeight :: "u64 \<Rightarrow> u64 \<Rightarrow> Height" where
  "NewHeight blockNum txNum = \<lparr>BlockNum = blockNum, TxNum = txNum\<rparr>"

definition NewHeightFromBytes :: "bytes \<Rightarrow> (Height \<times> nat) result" where
  "NewHeightFromBytes b =
     bindR (DecodeOrderPreservingVarUint64 b) (\<lambda>(blockNum, n1).
     bindR (DecodeOrderPreservingVarUint64 (drop n1 b)) (\<lambda>(txNum, n2).
       Inr (NewHeight blockNum txNum, n1 + n2)))"

definition ToBytes :: "Height \<Rightarrow> bytes result" where
  "ToBytes h =
     bindR (EncodeOrderPreservingVarUint64 (BlockNum h)) (\<lambda>blockNumBytes.
     bindR (EncodeOrderPreservingVarUint64 (TxNum h)) (\<lambda>txNumBytes.
       Inr (blockNumBytes @ txNumBytes)))"

definition Compare :: "Height \<Rightarrow> Height \<Rightarrow> int" where
  "Compare h h1 =
     (if BlockNum h \<noteq> BlockNum h1 then (if sint (BlockNum h - BlockNum h1) > 0 then 1 else -1)
      else if TxNum h \<noteq> TxNum h1 then (if sint (TxNum h - TxNum h1) > 0 then 1 else -1)
      else 0)"

fun AreSame :: "Height option \<Rightarrow> Height option \<Rightarrow> bool" where
  "AreSame None h2 = (h2 = None)"
| "AreSame (Some h1) None = False"
| "AreSame (Some h1) (Some h2) = (Compare h1 h2 = 0)"

section \<open>Comparison\<close>

text \<open>The order of the chain: by block, then by transaction.\<close>

definition height_less :: "Height \<Rightarrow> Height \<Rightarrow> bool" where
  "height_less h h1 \<longleftrightarrow> BlockNum h < BlockNum h1 \<or> BlockNum h = BlockNum h1 \<and> TxNum h < TxNum h1"

lemma NewHeight_eq_iff [simp]: "NewHeight b t = NewHeight b' t' \<longleftrightarrow> b = b' \<and> t = t'"
  by (simp add: NewHeight_def)

lemma NewHeight_sel [simp]: "BlockNum (NewHeight b t) = b" "TxNum (NewHeight b t) = t"
  by (simp_all add: NewHeight_def)

lemma Height_eq_iff: "(h :: Height) = h' \<longleftrightarrow> BlockNum h = BlockNum h' \<and> TxNum h = TxNum h'"
  by (cases h; cases h') simp

lemma Compare_eq_0_iff [simp]: "Compare h h1 = 0 \<longleftrightarrow> h = h1"
  by (auto simp: Compare_def Height_eq_iff)

text \<open>\<open>AreSame\<close> is equality of the two pointers' contents, \<open>nil\<close> being equal to \<open>nil\<close> only, at every
  pair of heights.\<close>

lemma AreSame_iff [simp]: "AreSame a b \<longleftrightarrow> a = b"
  by (cases "(a, b)" rule: AreSame.cases) auto

text \<open>The signed reading of a difference of two numbers below \<open>2^63\<close>.\<close>

lemma sint_diff_pos_iff:
  fixes a b :: u64
  assumes "unat a < 2 ^ 63" and "unat b < 2 ^ 63"
  shows "0 < sint (a - b) \<longleftrightarrow> b < a"
proof -
  have ia: "uint a < 2 ^ 63" and ib: "uint b < 2 ^ 63"
    using assms by (metis of_nat_less_iff of_nat_numeral of_nat_power uint_nat)+
  have pos: "0 \<le> uint a" "0 \<le> uint b" by simp_all
  have "sint (a - b) = signed_take_bit 63 (uint (a - b))"
    using sint_uint [of "a - b"] by simp
  also have "uint (a - b) = take_bit 64 (uint a - uint b)"
    by (simp only: uint_word_ariths(2) take_bit_eq_mod len_num0 len_bit0 len_num1 mult_1_right) simp
  also have "signed_take_bit 63 (take_bit 64 (uint a - uint b)) = signed_take_bit 63 (uint a - uint b)"
    by (rule signed_take_bit_take_bit [THEN trans]) simp
  also have "\<dots> = uint a - uint b"
    by (rule signed_take_bit_int_eq_self) (use ia ib pos in linarith)+
  finally show ?thesis by (simp add: word_less_def)
qed

lemma Compare_less_iff:
  assumes "unat (BlockNum h) < 2 ^ 63" "unat (TxNum h) < 2 ^ 63"
    and "unat (BlockNum h1) < 2 ^ 63" "unat (TxNum h1) < 2 ^ 63"
  shows "Compare h h1 = -1 \<longleftrightarrow> height_less h h1"
  using assms sint_diff_pos_iff [of "BlockNum h" "BlockNum h1"] sint_diff_pos_iff [of "TxNum h" "TxNum h1"]
  by (auto simp: Compare_def height_less_def)

section \<open>Serialisation\<close>

lemma ToBytes_opv: "ToBytes h = Inr (opv (BlockNum h) @ opv (TxNum h))"
  by (simp add: ToBytes_def Encode_opv)

lemma FromBytes_ToBytes:
  "ToBytes h = Inr b \<Longrightarrow> NewHeightFromBytes (b @ rest) = Inr (h, length b)"
  by (auto simp: ToBytes_opv NewHeightFromBytes_def Decode_opv_append Height_eq_iff)

lemma ToBytes_total: "\<exists>b. ToBytes h = Inr b"
  by (simp add: ToBytes_opv)

lemma ToBytes_less_iff:
  "opv (BlockNum h) @ opv (TxNum h) < opv (BlockNum h1) @ opv (TxNum h1) \<longleftrightarrow> height_less h h1"
  using opv_append_less_iff [of "TxNum h" "[]" "TxNum h1" "[]"]
  by (auto simp: opv_append_less_iff height_less_def)

section \<open>Properties of heights\<close>

text \<open>
  C16. Serialising a height never panics; reading the bytes back, whatever follows them, gives the height and the
  number of bytes it took; and comparing two serialised heights byte by byte is comparing the heights, block number
  first.
\<close>

theorem height_serialisation:
  "\<exists>x y. ToBytes h = Inr x \<and> ToBytes h1 = Inr y \<and>
     NewHeightFromBytes (x @ rest) = Inr (h, length x) \<and> (x < y \<longleftrightarrow> height_less h h1)"
  by (simp add: ToBytes_opv FromBytes_ToBytes [OF ToBytes_opv, simplified append_assoc] ToBytes_less_iff)

text \<open>
  C17. Below \<open>2^63\<close>, \<open>Compare\<close> is the order of the chain: -1 exactly when the first height is earlier, 1 exactly
  when it is later, 0 exactly when they are equal.
\<close>

theorem compare_is_chain_order:
  assumes "unat (BlockNum h) < 2 ^ 63" "unat (TxNum h) < 2 ^ 63"
    and "unat (BlockNum h1) < 2 ^ 63" "unat (TxNum h1) < 2 ^ 63"
  shows "Compare h h1 = (if height_less h h1 then -1 else if h = h1 then 0 else 1)"
  using Compare_less_iff [OF assms] Compare_eq_0_iff [of h h1] by (auto simp: Compare_def split: if_splits)

theorem compare_is_chain_order_witness:
  "Compare (NewHeight 5 7) (NewHeight 6 0) = -1 \<and> Compare (NewHeight 5 7) (NewHeight 5 2) = 1"
  using compare_is_chain_order [of "NewHeight 5 7" "NewHeight 6 0"]
    compare_is_chain_order [of "NewHeight 5 7" "NewHeight 5 2"]
  by (simp add: height_less_def)

text \<open>
  C18. From \<open>2^63\<close> on the subtraction in \<open>Compare\<close> wraps to a negative \<open>int\<close>: whenever two block numbers differ by
  exactly \<open>2^63\<close>, each of the two heights is reported as the earlier one.
\<close>

theorem compare_wraps_at_2_63:
  "Compare (NewHeight (b + 2 ^ 63) t) (NewHeight b u) = -1 \<and> Compare (NewHeight b u) (NewHeight (b + 2 ^ 63) t) = -1"
  by (simp add: Compare_def)

end
