(* ===== verification/Statedb.thy ===== *)
theory Statedb
  imports Version
begin

text \<open>
  The versioned state of a channel, \<open>core/ledger/kvledger/txmgmt/statedb/statedb.go\<close>: versioned values,
  the batch of updates a block produces, the iterator over a key range of a batch, and the interface
  \<open>VersionedDB\<close> through which validation reads the committed state.
\<close>

section \<open>Data\<close>

record VersionedValue =
  vvValue :: "bytes option"
  vvMetadata :: "bytes option"
  vvVersion :: "Height option"

definition VersionedValue_IsDelete :: "VersionedValue \<Rightarrow> bool" where
  "VersionedValue_IsDelete vv \<longleftrightarrow> vvValue vv = None"

text \<open>A \<open>VersionedKV\<close> embeds a composite key and a versioned value.\<close>

record VersionedKV =
  ckNamespace :: gostring
  ckKey :: gostring
  kvVal :: VersionedValue

type_synonym nsUpdates = "(gostring, VersionedValue) gomap"

record UpdateBatch =
  ContainsPostOrderWrites :: bool
  Updates :: "(gostring, nsUpdates) gomap"

section \<open>The update batch\<close>

definition NewUpdateBatch :: UpdateBatch where
  "NewUpdateBatch = \<lparr>ContainsPostOrderWrites = False, Updates = []\<rparr>"

definition UpdateBatch_Get :: "UpdateBatch \<Rightarrow> gostring \<Rightarrow> gostring \<Rightarrow> VersionedValue option" where
  "UpdateBatch_Get batch ns key =
     (case map_of (Updates batch) ns of None \<Rightarrow> None | Some nsUpdates \<Rightarrow> map_of nsUpdates key)"

definition getOrCreateNsUpdates :: "UpdateBatch \<Rightarrow> gostring \<Rightarrow> nsUpdates" where
  "getOrCreateNsUpdates batch ns = (case map_of (Updates batch) ns of None \<Rightarrow> [] | Some m \<Rightarrow> m)"

definition UpdateBatch_Update :: "UpdateBatch \<Rightarrow> gostring \<Rightarrow> gostring \<Rightarrow> VersionedValue \<Rightarrow> UpdateBatch" where
  "UpdateBatch_Update batch ns key vv =
     batch\<lparr>Updates := mput ns (mput key vv (getOrCreateNsUpdates batch ns)) (Updates batch)\<rparr>"

definition UpdateBatch_PutValAndMetadata ::
  "UpdateBatch \<Rightarrow> gostring \<Rightarrow> gostring \<Rightarrow> bytes option \<Rightarrow> bytes option \<Rightarrow> Height \<Rightarrow> UpdateBatch result" where
  "UpdateBatch_PutValAndMetadata batch ns key v metadata ver =
     (if v = None then Inl (Panic ''Nil value not allowed. Instead call 'Delete' function'')
      else Inr (UpdateBatch_Update batch ns key \<lparr>vvValue = v, vvMetadata = metadata, vvVersion = Some ver\<rparr>))"

definition UpdateBatch_Put ::
  "UpdateBatch \<Rightarrow> gostring \<Rightarrow> gostring \<Rightarrow> bytes option \<Rightarrow> Height \<Rightarrow> UpdateBatch result" where
  "UpdateBatch_Put batch ns key v ver = UpdateBatch_PutValAndMetadata batch ns key v None ver"

definition UpdateBatch_Delete :: "UpdateBatch \<Rightarrow> gostring \<Rightarrow> gostring \<Rightarrow> Height \<Rightarrow> UpdateBatch" where
  "UpdateBatch_Delete batch ns key ver =
     UpdateBatch_Update batch ns key \<lparr>vvValue = None, vvMetadata = None, vvVersion = Some ver\<rparr>"

definition UpdateBatch_Exists :: "UpdateBatch \<Rightarrow> gostring \<Rightarrow> gostring \<Rightarrow> bool" where
  "UpdateBatch_Exists batch ns key =
     (case map_of (Updates batch) ns of None \<Rightarrow> False | Some nsUpdates \<Rightarrow> map_of nsUpdates key \<noteq> None)"

definition GetUpdatedNamespaces :: "UpdateBatch \<Rightarrow> gostring list" where
  "GetUpdatedNamespaces batch = map fst (Updates batch)"

text \<open>\<open>GetUpdates\<close> returns the namespace's map, \<open>nil\<close> (an empty map to its readers) when there is none.\<close>

definition GetUpdates :: "UpdateBatch \<Rightarrow> gostring \<Rightarrow> nsUpdates" where
  "GetUpdates batch ns = (case map_of (Updates batch) ns of None \<Rightarrow> [] | Some m \<Rightarrow> m)"

definition UpdateBatch_Merge :: "UpdateBatch \<Rightarrow> UpdateBatch \<Rightarrow> UpdateBatch" where
  "UpdateBatch_Merge batch toMerge =
     fold (\<lambda>(ns, nsUpdates) b. fold (\<lambda>(key, vv) b'. UpdateBatch_Update b' ns key vv) nsUpdates b)
       (Updates toMerge)
       (batch\<lparr>ContainsPostOrderWrites :=
          ContainsPostOrderWrites batch \<or> ContainsPostOrderWrites toMerge\<rparr>)"

section \<open>Iterating over a range of a batch\<close>

text \<open>\<open>sort.Search\<close>: binary search for the least index in \<open>[i, j)\<close> where \<open>f\<close> holds.\<close>

function sort_Search :: "(nat \<Rightarrow> bool) \<Rightarrow> nat \<Rightarrow> nat \<Rightarrow> nat" where
  "sort_Search f i j =
     (if i < j then (let h = (i + j) div 2 in if \<not> f h then sort_Search f (h + 1) j else sort_Search f i h)
      else i)"
  by pat_completeness auto
termination
  by (relation "measure (\<lambda>(f, i, j). j - i)") auto

declare sort_Search.simps [simp del]

definition SearchStrings :: "gostring list \<Rightarrow> gostring \<Rightarrow> nat" where
  "SearchStrings a x = sort_Search (\<lambda>i. a ! i \<ge> x) 0 (length a)"

record nsIterator =
  itNs :: gostring
  itNsUpdates :: nsUpdates
  itSortedKeys :: "gostring list"
  itNextIndex :: nat
  itLastIndex :: nat

definition newNsIterator :: "gostring \<Rightarrow> gostring \<Rightarrow> gostring \<Rightarrow> UpdateBatch \<Rightarrow> nsIterator" where
  "newNsIterator ns startKey endKey batch =
     (case map_of (Updates batch) ns of
        None \<Rightarrow> \<lparr>itNs = '''', itNsUpdates = [], itSortedKeys = [], itNextIndex = 0, itLastIndex = 0\<rparr>
      | Some nsUpdates \<Rightarrow>
          (let sortedKeys = GetSortedKeys nsUpdates;
               nextIndex = (if startKey = '''' then 0 else SearchStrings sortedKeys startKey);
               lastIndex = (if endKey = '''' then length sortedKeys else SearchStrings sortedKeys endKey)
           in \<lparr>itNs = ns, itNsUpdates = nsUpdates, itSortedKeys = sortedKeys,
               itNextIndex = nextIndex, itLastIndex = lastIndex\<rparr>))"

definition GetRangeScanIterator :: "UpdateBatch \<Rightarrow> gostring \<Rightarrow> gostring \<Rightarrow> gostring \<Rightarrow> nsIterator" where
  "GetRangeScanIterator batch ns startKey endKey = newNsIterator ns startKey endKey batch"

definition nsIterator_Next :: "nsIterator \<Rightarrow> VersionedKV option \<times> nsIterator" where
  "nsIterator_Next itr =
     (if itNextIndex itr \<ge> itLastIndex itr then (None, itr)
      else let key = itSortedKeys itr ! itNextIndex itr;
               vv = the (map_of (itNsUpdates itr) key)
           in (Some \<lparr>ckNamespace = itNs itr, ckKey = key, kvVal = vv\<rparr>,
               itr\<lparr>itNextIndex := itNextIndex itr + 1\<rparr>))"

section \<open>The interface to the committed state\<close>

text \<open>An iterator handed out by a database is what its successive \<open>Next\<close> calls return: the results in order,
  ending in an error if one of the calls fails.\<close>

type_synonym ResultsIterator = "(fault + VersionedKV) list"

fun ResultsIterator_Next :: "ResultsIterator \<Rightarrow> (VersionedKV option \<times> ResultsIterator) result" where
  "ResultsIterator_Next [] = Inr (None, [])"
| "ResultsIterator_Next (Inl e # r) = Inl e"
| "ResultsIterator_Next (Inr kv # r) = Inr (Some kv, r)"

text \<open>The methods of the interface that validation calls, as the values they have while a block is being
  validated (no update is applied meanwhile).\<close>

record VersionedDB =
  db_GetState :: "gostring \<Rightarrow> gostring \<Rightarrow> VersionedValue option result"
  db_GetVersion :: "gostring \<Rightarrow> gostring \<Rightarrow> Height option result"
  db_GetStateRangeScanIterator :: "gostring \<Rightarrow> gostring \<Rightarrow> gostring \<Rightarrow> ResultsIterator result"
  db_ValidateKeyValue :: "gostring \<Rightarrow> bytes option \<Rightarrow> unit result"
  db_BytesKeySupported :: bool

section \<open>Lemmas on batches\<close>

definition wf_batch :: "UpdateBatch \<Rightarrow> bool" where
  "wf_batch b \<longleftrightarrow> wf_map (Updates b) \<and> (\<forall>m \<in> snd ` set (Updates b). wf_map m)"

lemma wf_batch_New [simp]: "wf_batch NewUpdateBatch"
  by (simp add: wf_batch_def NewUpdateBatch_def)

lemma wf_batch_getOrCreate: "wf_batch b \<Longrightarrow> wf_map (getOrCreateNsUpdates b ns)"
  by (auto simp: wf_batch_def getOrCreateNsUpdates_def dest: map_of_SomeD split: option.splits)

lemma set_mput_subset: "set (mput k v m) \<subseteq> insert (k, v) (set m)"
  by (induction m) auto

lemma wf_batch_Update [simp]:
  assumes "wf_batch b"
  shows "wf_batch (UpdateBatch_Update b ns key vv)"
proof -
  have "wf_map (mput key vv (getOrCreateNsUpdates b ns))"
    using wf_batch_getOrCreate [OF assms] by simp
  then show ?thesis
    using assms set_mput_subset [of ns "mput key vv (getOrCreateNsUpdates b ns)" "Updates b"]
    by (fastforce simp: wf_batch_def UpdateBatch_Update_def)
qed

lemma wf_batch_Delete [simp]: "wf_batch b \<Longrightarrow> wf_batch (UpdateBatch_Delete b ns key ver)"
  by (simp add: UpdateBatch_Delete_def)

lemma Get_New [simp]: "UpdateBatch_Get NewUpdateBatch ns key = None"
  by (simp add: UpdateBatch_Get_def NewUpdateBatch_def)

lemma Get_Update [simp]:
  "UpdateBatch_Get (UpdateBatch_Update b ns key vv) ns' key' =
     (if ns' = ns \<and> key' = key then Some vv else UpdateBatch_Get b ns' key')"
  by (auto simp: UpdateBatch_Get_def UpdateBatch_Update_def getOrCreateNsUpdates_def update_conv'
      split: option.splits)

lemma Get_Delete [simp]:
  "UpdateBatch_Get (UpdateBatch_Delete b ns key ver) ns' key' =
     (if ns' = ns \<and> key' = key then Some \<lparr>vvValue = None, vvMetadata = None, vvVersion = Some ver\<rparr>
      else UpdateBatch_Get b ns' key')"
  by (simp add: UpdateBatch_Delete_def)

lemma Exists_iff: "UpdateBatch_Exists b ns key \<longleftrightarrow> UpdateBatch_Get b ns key \<noteq> None"
  by (simp add: UpdateBatch_Exists_def UpdateBatch_Get_def split: option.splits)

lemma PutValAndMetadata_Inr_iff:
  "UpdateBatch_PutValAndMetadata b ns key v md ver = Inr b' \<longleftrightarrow>
     v \<noteq> None \<and> b' = UpdateBatch_Update b ns key \<lparr>vvValue = v, vvMetadata = md, vvVersion = Some ver\<rparr>"
  by (auto simp: UpdateBatch_PutValAndMetadata_def)

lemma GetUpdates_map_of: "map_of (GetUpdates b ns) key = UpdateBatch_Get b ns key"
  by (simp add: GetUpdates_def UpdateBatch_Get_def split: option.splits)

lemma wf_GetUpdates: "wf_batch b \<Longrightarrow> wf_map (GetUpdates b ns)"
  by (auto simp: wf_batch_def GetUpdates_def dest: map_of_SomeD split: option.splits)

lemma ContainsPostOrderWrites_Update [simp]:
  "ContainsPostOrderWrites (UpdateBatch_Update b ns key vv) = ContainsPostOrderWrites b"
  by (simp add: UpdateBatch_Update_def)

text \<open>Merging visits the namespaces and keys of \<open>toMerge\<close> in an arbitrary order; the outcome is the overlay of
  the two maps whatever the order is.\<close>

lemma Get_fold_Update:
  "UpdateBatch_Get (fold (\<lambda>(key, vv) b'. UpdateBatch_Update b' ns key vv) m b) ns' key' =
     (if ns' = ns \<and> map_of (rev m) key' \<noteq> None then map_of (rev m) key' else UpdateBatch_Get b ns' key')"
  by (induction m arbitrary: b) (auto simp: map_add_def split: option.splits)

lemma map_of_rev_wf: "wf_map m \<Longrightarrow> map_of (rev m) = map_of m"
  by (metis map_of_inject_set distinct_rev rev_map set_rev)

lemma Get_Merge:
  assumes "wf_batch toMerge"
  shows "UpdateBatch_Get (UpdateBatch_Merge b toMerge) ns key =
    (case UpdateBatch_Get toMerge ns key of None \<Rightarrow> UpdateBatch_Get b ns key | Some vv \<Rightarrow> Some vv)"
proof -
  have step: "UpdateBatch_Get
      (fold (\<lambda>(ns, m) b. fold (\<lambda>(key, vv) b'. UpdateBatch_Update b' ns key vv) m b) us b0) ns key =
      (case map_of us ns of None \<Rightarrow> UpdateBatch_Get b0 ns key
       | Some m \<Rightarrow> (case map_of m key of None \<Rightarrow> UpdateBatch_Get b0 ns key | Some vv \<Rightarrow> Some vv))"
    if "wf_map us" "\<forall>m \<in> snd ` set us. wf_map m" for us b0
    using that
  proof (induction us arbitrary: b0)
    case (Cons u us)
    obtain n m where u: "u = (n, m)" by fastforce
    with Cons.prems have "map_of us n = None"
      by (auto simp: map_of_eq_None_iff)
    with Cons u show ?case
      by (auto simp: Get_fold_Update map_of_rev_wf split: option.splits)
  qed simp
  have "UpdateBatch_Get (b\<lparr>ContainsPostOrderWrites := c\<rparr>) ns key = UpdateBatch_Get b ns key" for c
    by (simp add: UpdateBatch_Get_def)
  then show ?thesis
    using assms step [of "Updates toMerge"]
    by (simp add: UpdateBatch_Merge_def wf_batch_def UpdateBatch_Get_def [of toMerge] split: option.splits)
qed


definition split_point :: "(nat \<Rightarrow> bool) \<Rightarrow> nat \<Rightarrow> nat \<Rightarrow> nat \<Rightarrow> bool" where
  "split_point f i j r \<longleftrightarrow> i \<le> r \<and> r \<le> j \<and> (\<forall>k. i \<le> k \<and> k < r \<longrightarrow> \<not> f k) \<and> (\<forall>k. r \<le> k \<and> k < j \<longrightarrow> f k)"

lemma sort_Search_spec:
  assumes "i \<le> j" and "\<And>k l. i \<le> k \<Longrightarrow> k \<le> l \<Longrightarrow> l < j \<Longrightarrow> f k \<Longrightarrow> f l"
  shows "split_point f i j (sort_Search f i j)"
  using assms
proof (induction f i j rule: sort_Search.induct)
  case (1 f i j)
  show ?case
  proof (cases "i < j")
    case True
    define h where "h = (i + j) div 2"
    have h: "i \<le> h" "h < j" using True by (auto simp: h_def)
    show ?thesis
    proof (cases "f h")
      case False
      have "split_point f (h + 1) j (sort_Search f (h + 1) j)"
      proof (rule "1.IH"(1) [OF True h_def False])
        show "h + 1 \<le> j" using h by simp
        show "f l" if "h + 1 \<le> k" "k \<le> l" "l < j" "f k" for k l
          using "1.prems"(2) [of k l] that h by simp
      qed
      moreover have "\<not> f k" if "i \<le> k" "k < h + 1" for k
        using False "1.prems"(2) [of k h] that h by auto
      moreover have "sort_Search f i j = sort_Search f (h + 1) j"
        using True False by (simp add: sort_Search.simps [of f i j] h_def)
      ultimately show ?thesis
        using h unfolding split_point_def by (metis le_trans not_le less_imp_le le_add1)
    next
      case t: True
      have "split_point f i h (sort_Search f i h)"
      proof (rule "1.IH"(2) [OF True h_def])
        show "\<not> \<not> f h" using t by simp
        show "i \<le> h" by fact
        show "f l" if "i \<le> k" "k \<le> l" "l < h" "f k" for k l
          using "1.prems"(2) [of k l] that h by simp
      qed
      moreover have "f k" if "h \<le> k" "k < j" for k
        using t "1.prems"(2) [of h k] that h by simp
      moreover have "sort_Search f i j = sort_Search f i h"
        using True t by (simp add: sort_Search.simps [of f i j] h_def)
      ultimately show ?thesis
        using h unfolding split_point_def by (metis le_trans not_le less_imp_le)
    qed
  next
    case False
    then have "sort_Search f i j = i" by (subst sort_Search.simps) simp
    with False "1.prems"(1) show ?thesis by (auto simp: split_point_def)
  qed
qed

lemma SearchStrings_spec:
  assumes "sorted a"
  shows "SearchStrings a x \<le> length a"
    and "take (SearchStrings a x) a = filter (\<lambda>y. y < x) a"
    and "drop (SearchStrings a x) a = filter (\<lambda>y. x \<le> y) a"
proof -
  define r where "r = SearchStrings a x"
  have "split_point (\<lambda>i. x \<le> a ! i) 0 (length a) r"
    unfolding r_def SearchStrings_def
    by (rule sort_Search_spec) (auto intro: order_trans sorted_nth_mono [OF assms])
  then have le: "r \<le> length a" and lo: "\<And>k. k < r \<Longrightarrow> a ! k < x"
    and hi: "\<And>k. r \<le> k \<Longrightarrow> k < length a \<Longrightarrow> x \<le> a ! k"
    by (auto simp: split_point_def not_le)
  have low: "\<forall>y \<in> set (take r a). y < x"
    using le lo by (auto simp: in_set_conv_nth)
  have high: "\<forall>y \<in> set (drop r a). x \<le> y"
    using hi by (auto simp: in_set_conv_nth)
  have "filter (\<lambda>y. y < x) (take r a) = take r a" "filter (\<lambda>y. y < x) (drop r a) = []"
    using low high by (auto intro: filter_True filter_False simp: not_less)
  then have "filter (\<lambda>y. y < x) (take r a @ drop r a) = take r a"
    by (simp only: filter_append append_Nil2)
  moreover have "filter (\<lambda>y. x \<le> y) (drop r a) = drop r a" "filter (\<lambda>y. x \<le> y) (take r a) = []"
    using low high by (auto intro: filter_True filter_False simp: not_le)
  then have "filter (\<lambda>y. x \<le> y) (take r a @ drop r a) = drop r a"
    by (simp only: filter_append append_Nil)
  ultimately show "SearchStrings a x \<le> length a"
    "take (SearchStrings a x) a = filter (\<lambda>y. y < x) a"
    "drop (SearchStrings a x) a = filter (\<lambda>y. x \<le> y) a"
    using le by (simp_all add: r_def)
qed

text \<open>The keys a range query covers: the start is included, the end is not, and an empty end means no bound.\<close>

definition in_range :: "gostring \<Rightarrow> gostring \<Rightarrow> gostring \<Rightarrow> bool" where
  "in_range startKey endKey k \<longleftrightarrow> startKey \<le> k \<and> (endKey = [] \<or> k < endKey)"

definition mkKV :: "gostring \<Rightarrow> (gostring \<rightharpoonup> VersionedValue) \<Rightarrow> gostring \<Rightarrow> VersionedKV" where
  "mkKV ns m k = \<lparr>ckNamespace = ns, ckKey = k, kvVal = the (m k)\<rparr>"

text \<open>The reference range scan of a finite map.\<close>

definition range_scan ::
  "gostring \<Rightarrow> gostring \<Rightarrow> gostring \<Rightarrow> (gostring \<rightharpoonup> VersionedValue) \<Rightarrow> VersionedKV list" where
  "range_scan ns startKey endKey m =
     map (mkKV ns m) (filter (in_range startKey endKey) (sorted_list_of_set (dom m)))"

text \<open>What is still to come from an iterator over a batch.\<close>

definition nsIterator_rest :: "nsIterator \<Rightarrow> VersionedKV list" where
  "nsIterator_rest itr =
     map (mkKV (itNs itr) (map_of (itNsUpdates itr)))
       (drop (itNextIndex itr) (take (itLastIndex itr) (itSortedKeys itr)))"

definition wf_nsIterator :: "nsIterator \<Rightarrow> bool" where
  "wf_nsIterator itr \<longleftrightarrow> itLastIndex itr \<le> length (itSortedKeys itr)"

lemma nsIterator_Next_Nil:
  assumes "wf_nsIterator itr" and "nsIterator_rest itr = []"
  shows "nsIterator_Next itr = (None, itr)"
  using assms by (auto simp: nsIterator_rest_def nsIterator_Next_def wf_nsIterator_def)

lemma nsIterator_Next_Cons:
  assumes "wf_nsIterator itr" and "nsIterator_rest itr = kv # kvs"
  obtains itr' where "nsIterator_Next itr = (Some kv, itr')" and "nsIterator_rest itr' = kvs"
    and "wf_nsIterator itr'"
proof -
  have lt: "itNextIndex itr < itLastIndex itr"
    using assms(2) by (rule_tac ccontr) (simp add: nsIterator_rest_def)
  with assms(1) have "drop (itNextIndex itr) (take (itLastIndex itr) (itSortedKeys itr)) =
      itSortedKeys itr ! itNextIndex itr # drop (Suc (itNextIndex itr)) (take (itLastIndex itr) (itSortedKeys itr))"
    by (simp add: wf_nsIterator_def flip: Cons_nth_drop_Suc)
  with lt assms show thesis
    by (intro that [of "itr\<lparr>itNextIndex := itNextIndex itr + 1\<rparr>"])
       (simp_all add: nsIterator_rest_def nsIterator_Next_def wf_nsIterator_def mkKV_def)
qed

lemma GetSortedKeys_sorted_list_of_set: "wf_map m \<Longrightarrow> GetSortedKeys m = sorted_list_of_set (dom (map_of m))"
  by (rule sorted_distinct_set_unique) (simp_all add: finite_dom_map_of)

lemma wf_newNsIterator [simp]: "wf_nsIterator (newNsIterator ns startKey endKey b)"
  by (auto simp: newNsIterator_def wf_nsIterator_def Let_def SearchStrings_spec(1) split: option.splits)

lemma drop_SearchStrings_take:
  assumes "sorted a"
  shows "drop (SearchStrings a s) (take m a) = filter (\<lambda>y. s \<le> y) (take m a)"
proof -
  define n where "n = SearchStrings a s"
  have n: "n \<le> length a" "take n a = filter (\<lambda>y. y < s) a" "drop n a = filter (\<lambda>y. s \<le> y) a"
    using SearchStrings_spec [OF assms, of s] by (simp_all add: n_def)
  have "take m a = take m (take n a) @ take (m - n) (drop n a)"
    using n(1) by (metis append_take_drop_id length_take min.absorb2 take_append)
  moreover have "filter (\<lambda>y. s \<le> y) (take m (take n a)) = []"
    using n(2) by (auto simp: filter_empty_conv not_le dest!: in_set_takeD)
  moreover have "filter (\<lambda>y. s \<le> y) (take (m - n) (drop n a)) = take (m - n) (drop n a)"
    using n(3) by (auto simp: filter_id_conv dest!: in_set_takeD)
  ultimately have "filter (\<lambda>y. s \<le> y) (take m a) = take (m - n) (drop n a)"
    by (simp only: filter_append append_Nil)
  then show ?thesis
    by (simp only: drop_take flip: n_def)
qed

lemma newNsIterator_rest:
  assumes "wf_batch b"
  shows "nsIterator_rest (newNsIterator ns startKey endKey b) =
    range_scan ns startKey endKey (UpdateBatch_Get b ns)"
proof (cases "map_of (Updates b) ns")
  case None
  then have "UpdateBatch_Get b ns = (\<lambda>_. None)"
    by (simp add: UpdateBatch_Get_def fun_eq_iff)
  with None show ?thesis
    by (simp add: nsIterator_rest_def newNsIterator_def range_scan_def)
next
  case (Some m)
  have get: "UpdateBatch_Get b ns = map_of m"
    using Some by (simp add: UpdateBatch_Get_def fun_eq_iff)
  let ?a = "GetSortedKeys m"
  let ?t = "take (if endKey = [] then length ?a else SearchStrings ?a endKey) ?a"
  have wf: "wf_map m" using assms Some by (auto simp: wf_batch_def dest: map_of_SomeD)
  have t: "?t = filter (\<lambda>y. endKey = [] \<or> y < endKey) ?a"
    using SearchStrings_spec(2) [of ?a endKey] by simp
  have "drop (if startKey = [] then 0 else SearchStrings ?a startKey) ?t = filter (\<lambda>y. startKey \<le> y) ?t"
    using drop_SearchStrings_take [of ?a startKey] by simp
  also have "\<dots> = filter (in_range startKey endKey) ?a"
    by (simp only: t filter_filter) (rule filter_cong, auto simp: in_range_def)
  finally have dt: "drop (if startKey = [] then 0 else SearchStrings ?a startKey) ?t =
      filter (in_range startKey endKey) ?a" .
  have "nsIterator_rest (newNsIterator ns startKey endKey b) =
      map (mkKV ns (map_of m)) (drop (if startKey = [] then 0 else SearchStrings ?a startKey) ?t)"
    using Some by (simp add: nsIterator_rest_def newNsIterator_def Let_def split del: if_split)
  also have "\<dots> = range_scan ns startKey endKey (map_of m)"
    unfolding dt range_scan_def by (simp only: GetSortedKeys_sorted_list_of_set [OF wf])
  finally show ?thesis by (simp only: get)
qed

section \<open>The contract of the interface\<close>

text \<open>A batch laid over a committed state: what the state is once the batch is applied.\<close>

definition overlay ::
  "(gostring \<Rightarrow> gostring \<rightharpoonup> VersionedValue) \<Rightarrow> UpdateBatch \<Rightarrow> gostring \<Rightarrow> gostring \<rightharpoonup> VersionedValue" where
  "overlay st b ns key =
     (case UpdateBatch_Get b ns key of
        None \<Rightarrow> st ns key
      | Some vv \<Rightarrow> if VersionedValue_IsDelete vv then None else Some vv)"

text \<open>A database that answers every read from the state \<open>st\<close> without failing; range scans in namespaces without a zero
  byte, which databases use as a separator. A stored value is never \<open>nil\<close>.\<close>

definition vdb_answers :: "VersionedDB \<Rightarrow> (gostring \<Rightarrow> gostring \<rightharpoonup> VersionedValue) \<Rightarrow> bool" where
  "vdb_answers db st \<longleftrightarrow>
     (\<forall>ns key. db_GetState db ns key = Inr (st ns key)) \<and>
     (\<forall>ns key. db_GetVersion db ns key = Inr (Option.bind (st ns key) vvVersion)) \<and>
     (\<forall>ns s e. nz ns \<longrightarrow> db_GetStateRangeScanIterator db ns s e = Inr (map Inr (range_scan ns s e (st ns)))) \<and>
     (\<forall>ns. finite (dom (st ns))) \<and>
     (\<forall>ns key vv. st ns key = Some vv \<longrightarrow> vvValue vv \<noteq> None)"

lemma vdb_answersD:
  assumes "vdb_answers db st"
  shows "db_GetState db ns key = Inr (st ns key)"
    and "db_GetVersion db ns key = Inr (Option.bind (st ns key) vvVersion)"
    and "nz ns \<Longrightarrow> db_GetStateRangeScanIterator db ns s e = Inr (map Inr (range_scan ns s e (st ns)))"
    and "finite (dom (st ns))"
    and "st ns key = Some vv \<Longrightarrow> vvValue vv \<noteq> None"
  using assms by (auto simp: vdb_answers_def)

text \<open>Overlays work namespace by namespace.\<close>

lemma fold_overlay_local:
  "st ns = st' ns \<Longrightarrow> fold (\<lambda>p st. overlay st (fst p)) bs st ns = fold (\<lambda>p st. overlay st (fst p)) bs st' ns"
proof (induction bs arbitrary: st st')
  case (Cons p bs)
  have "overlay st (fst p) ns = overlay st' (fst p) ns" by (rule ext) (simp only: overlay_def Cons.prems)
  from Cons.IH [of "overlay st (fst p)" "overlay st' (fst p)", OF this] show ?case by simp
qed simp

text \<open>
  The interface as a contract: \<open>handle\<close> gives the methods of the database in a state, \<open>state\<close> the key-value
  state they answer from, and \<open>apply_updates\<close> commits a batch.
\<close>

locale versioned_db =
  fixes handle :: "'s \<Rightarrow> VersionedDB"
    and state :: "'s \<Rightarrow> gostring \<Rightarrow> gostring \<rightharpoonup> VersionedValue"
    and invar :: "'s \<Rightarrow> bool"
    and apply_updates :: "UpdateBatch \<Rightarrow> Height option \<Rightarrow> 's \<Rightarrow> 's result"
    and admissible :: "UpdateBatch \<Rightarrow> bool"
  assumes reads: "invar s \<Longrightarrow> vdb_answers (handle s) (state s)"
    and apply_total: "invar s \<Longrightarrow> admissible b \<Longrightarrow> \<exists>s'. apply_updates b h s = Inr s'"
    and apply_state: "invar s \<Longrightarrow> admissible b \<Longrightarrow> apply_updates b h s = Inr s' \<Longrightarrow> nz ns \<Longrightarrow> state s' ns = overlay (state s) b ns"
    and apply_invar: "invar s \<Longrightarrow> admissible b \<Longrightarrow> apply_updates b h s = Inr s' \<Longrightarrow> invar s'"
begin

text \<open>Committing batches one after the other.\<close>

lemma apply_sequence:
  assumes "invar s" and "\<forall>p \<in> set bs. admissible (fst p)"
  shows "\<exists>s'. foldR (\<lambda>p. apply_updates (fst p) (snd p)) bs s = Inr s' \<and> invar s' \<and>
    (\<forall>ns. nz ns \<longrightarrow> state s' ns = fold (\<lambda>p st. overlay st (fst p)) bs (state s) ns)"
  using assms
proof (induction bs arbitrary: s)
  case (Cons p bs)
  then obtain u where u: "apply_updates (fst p) (snd p) s = Inr u"
    using apply_total [of s "fst p" "snd p"] by auto
  then have st: "\<forall>ns. nz ns \<longrightarrow> state u ns = overlay (state s) (fst p) ns" and "invar u"
    using Cons.prems by (auto intro: apply_state apply_invar)
  from Cons.IH [OF \<open>invar u\<close>] Cons.prems obtain s' where
    s': "foldR (\<lambda>p. apply_updates (fst p) (snd p)) bs u = Inr s'" "invar s'"
    "\<forall>ns. nz ns \<longrightarrow> state s' ns = fold (\<lambda>p st. overlay st (fst p)) bs (state u) ns" by auto
  have "fold (\<lambda>p st. overlay st (fst p)) bs (state u) ns = fold (\<lambda>p st. overlay st (fst p)) bs (overlay (state s) (fst p)) ns"
    if "nz ns" for ns using st that by (intro fold_overlay_local) blast
  with s' u show ?case by (intro exI [of _ s']) simp
qed simp

lemma read_after_apply:
  assumes "invar s" and "admissible b" and "apply_updates b h s = Inr s'" and "nz ns"
  shows "db_GetState (handle s') ns key = Inr (overlay (state s) b ns key)"
  using vdb_answersD(1) [OF reads [OF apply_invar [OF assms(1-3)]]] apply_state [OF assms] by simp

end

section \<open>Properties of batches\<close>

lemma overlay_Merge:
  "wf_batch b2 \<Longrightarrow> overlay st (UpdateBatch_Merge b1 b2) = overlay (overlay st b1) b2"
  by (auto simp: overlay_def Get_Merge fun_eq_iff split: option.splits)

text \<open>A database in memory that holds the contents of a batch.\<close>

function nsIterator_results :: "nsIterator \<Rightarrow> VersionedKV list" where
  "nsIterator_results itr =
     (case nsIterator_Next itr of (None, _) \<Rightarrow> [] | (Some kv, itr') \<Rightarrow> kv # nsIterator_results itr')"
  by pat_completeness auto
termination
  by (relation "measure (\<lambda>itr. itLastIndex itr - itNextIndex itr)")
     (auto simp: nsIterator_Next_def Let_def split: if_splits)

declare nsIterator_results.simps [simp del]

lemma nsIterator_results_rest: "wf_nsIterator itr \<Longrightarrow> nsIterator_results itr = nsIterator_rest itr"
proof (induction itr rule: nsIterator_results.induct)
  case (1 itr)
  show ?case
  proof (cases "nsIterator_rest itr")
    case Nil
    with 1 show ?thesis by (simp add: nsIterator_results.simps [of itr] nsIterator_Next_Nil)
  next
    case (Cons kv kvs)
    with 1 obtain itr' where n: "nsIterator_Next itr = (Some kv, itr')" "nsIterator_rest itr' = kvs" "wf_nsIterator itr'"
      by (metis nsIterator_Next_Cons)
    with 1 Cons show ?thesis by (simp add: nsIterator_results.simps [of itr])
  qed
qed

definition mem_db :: "UpdateBatch \<Rightarrow> VersionedDB" where
  "mem_db b =
     \<lparr>db_GetState = (\<lambda>ns key. Inr (overlay (\<lambda>_ _. None) b ns key)),
      db_GetVersion = (\<lambda>ns key. Inr (Option.bind (overlay (\<lambda>_ _. None) b ns key) vvVersion)),
      db_GetStateRangeScanIterator = (\<lambda>ns s e.
        Inr (map Inr (filter (\<lambda>kv. \<not> VersionedValue_IsDelete (kvVal kv))
          (nsIterator_results (GetRangeScanIterator b ns s e))))),
      db_ValidateKeyValue = (\<lambda>key value. Inr ()),
      db_BytesKeySupported = True\<rparr>"

lemma overlay_empty_conv:
  "overlay (\<lambda>_ _. None) b ns key =
     (case UpdateBatch_Get b ns key of None \<Rightarrow> None
      | Some vv \<Rightarrow> if VersionedValue_IsDelete vv then None else Some vv)"
  by (simp add: overlay_def)

lemma finite_dom_Get: "finite (dom (UpdateBatch_Get b ns))"
  unfolding GetUpdates_map_of [symmetric, abs_def] by (simp add: finite_dom_map_of)

lemma range_scan_restrict:
  assumes "finite (dom m)" and "\<And>k. m' k = (case m k of None \<Rightarrow> None | Some v \<Rightarrow> if P v then Some v else None)"
  shows "range_scan ns s e m' = filter (\<lambda>kv. P (kvVal kv)) (range_scan ns s e m)"
proof -
  have d: "dom m' = {k \<in> dom m. P (the (m k))}"
    by (auto simp: assms(2) split: option.splits if_splits)
  have "sorted_list_of_set (dom m') = filter (\<lambda>k. P (the (m k))) (sorted_list_of_set (dom m))"
    by (rule sorted_distinct_set_unique) (auto simp: d assms(1) sorted_wrt_filter)
  moreover have "map (mkKV ns m') (filter (in_range s e) (filter (\<lambda>k. P (the (m k))) ks)) =
      filter (\<lambda>kv. P (kvVal kv)) (map (mkKV ns m) (filter (in_range s e) ks))" if "set ks \<subseteq> dom m" for ks
    using that by (induction ks) (auto simp: mkKV_def assms(2))
  ultimately show ?thesis
    using assms(1) by (simp add: range_scan_def)
qed

lemma mem_db_answers:
  assumes "wf_batch b"
  shows "vdb_answers (mem_db b) (overlay (\<lambda>_ _. None) b)"
proof -
  have "range_scan ns s e (overlay (\<lambda>_ _. None) b ns) =
      filter (\<lambda>kv. \<not> VersionedValue_IsDelete (kvVal kv)) (nsIterator_results (GetRangeScanIterator b ns s e))" for ns s e
    by (simp add: GetRangeScanIterator_def nsIterator_results_rest newNsIterator_rest [OF assms])
       (rule range_scan_restrict, auto simp: finite_dom_Get overlay_empty_conv split: option.splits)
  moreover have "finite (dom (overlay (\<lambda>_ _. None) b ns))" for ns
    by (rule finite_subset [OF _ finite_dom_Get [of b ns]]) (auto simp: overlay_def split: option.splits)
  ultimately show ?thesis
    by (auto simp: vdb_answers_def mem_db_def overlay_def VersionedValue_IsDelete_def split: option.splits if_splits)
qed

abbreviation vv_at :: "bytes \<Rightarrow> u64 \<Rightarrow> u64 \<Rightarrow> VersionedValue" where
  "vv_at v b t \<equiv> \<lparr>vvValue = Some v, vvMetadata = None, vvVersion = Some (NewHeight b t)\<rparr>"

text \<open>A batch for the examples: \<open>a\<close> and \<open>c\<close> are written, \<open>b\<close> is deleted.\<close>

definition sample_batch :: UpdateBatch where
  "sample_batch =
     UpdateBatch_Update (UpdateBatch_Update (UpdateBatch_Delete NewUpdateBatch ''ns'' ''b'' (NewHeight 2 1))
       ''ns'' ''c'' (vv_at ''3'' 2 2)) ''ns'' ''a'' (vv_at ''1'' 2 0)"

lemma wf_sample_batch [simp]: "wf_batch sample_batch"
  by (simp add: sample_batch_def)

text \<open>
  C13. A range scan over a batch delivers exactly the batch's entries of the namespace whose key is in the range, each
  once, in the order of their keys, whatever the order of the underlying maps; an empty end key leaves the range
  open.
\<close>

theorem batch_range_scan:
  assumes "wf_batch b"
  shows "nsIterator_results (GetRangeScanIterator b ns startKey endKey) =
    range_scan ns startKey endKey (UpdateBatch_Get b ns)"
  by (simp add: GetRangeScanIterator_def nsIterator_results_rest newNsIterator_rest [OF assms])

theorem batch_range_scan_witness:
  "range_scan ''ns'' ''a'' ''c'' (UpdateBatch_Get sample_batch ''ns'') =
     [\<lparr>ckNamespace = ''ns'', ckKey = ''a'', kvVal = vv_at ''1'' 2 0\<rparr>,
      \<lparr>ckNamespace = ''ns'', ckKey = ''b'',
       kvVal = \<lparr>vvValue = None, vvMetadata = None, vvVersion = Some (NewHeight 2 1)\<rparr>\<rparr>]"
  unfolding batch_range_scan [OF wf_sample_batch, symmetric] by code_simp

text \<open>
  C14. Merging a batch into another and applying the outcome is applying the two batches one after the other.
\<close>

theorem merge_is_sequential_application:
  assumes "wf_batch toMerge"
  shows "overlay st (UpdateBatch_Merge batch toMerge) = overlay (overlay st batch) toMerge"
  by (rule overlay_Merge) fact

theorem merge_is_sequential_application_witness:
  "wf_batch sample_batch \<and>
   overlay (\<lambda>_ _. Some (vv_at ''0'' 1 0)) (UpdateBatch_Merge NewUpdateBatch sample_batch) ''ns'' ''b'' = None \<and>
   overlay (\<lambda>_ _. Some (vv_at ''0'' 1 0)) (UpdateBatch_Merge NewUpdateBatch sample_batch) ''ns'' ''d'' =
     Some (vv_at ''0'' 1 0)"
  unfolding merge_is_sequential_application [OF wf_sample_batch] by (intro conjI wf_sample_batch) code_simp+

end
