(* ===== verification/Rwset.thy ===== *)
theory Rwset
  imports Statedb
begin

text \<open>
  Read-write sets and their conversion to and from protocol messages,
  \<open>core/ledger/kvledger/txmgmt/rwsetutil/rwset_proto_util.go\<close> and \<open>kvrwset_proto_util.go\<close>, over the messages of
  \<open>fabric-protos-go/ledger/rwset\<close>.

  A \<open>bytes\<close> field of a message is a list: the wire format does not keep the difference between \<open>nil\<close> and an
  empty slice, and the code tests such fields only for their length. \<open>proto.Marshal\<close> and \<open>proto.Unmarshal\<close> are the
  two components of a codec; what is used of them is that reading back what was written gives the message. Hash
  functions are parameters.
\<close>

section \<open>Messages\<close>

record KVVersion =
  pvBlockNum :: u64
  pvTxNum :: u64

record KVRead =
  krKey :: gostring
  krVersion :: "KVVersion option"

record KVWrite =
  kwKey :: gostring
  kwIsDelete :: bool
  kwValue :: bytes

record KVMetadataEntry =
  meName :: gostring
  meValue :: bytes

record KVMetadataWrite =
  mwKey :: gostring
  mwEntries :: "KVMetadataEntry list"

record KVReadHash =
  rhKeyHash :: bytes
  rhVersion :: "KVVersion option"

record KVWriteHash =
  whKeyHash :: bytes
  whIsDelete :: bool
  whValueHash :: bytes
  whIsPurge :: bool

record KVMetadataWriteHash =
  mhKeyHash :: bytes
  mhEntries :: "KVMetadataEntry list"

record QueryReadsMerkleSummary =
  msMaxDegree :: u32
  msMaxLevel :: u32
  msMaxLevelHashes :: "bytes list"

text \<open>The \<open>oneof\<close> of a range query; an unset one is \<^const>\<open>None\<close>.\<close>

datatype ReadsInfo = RawReads "KVRead list" | ReadsMerkleHashes QueryReadsMerkleSummary

record RangeQueryInfo =
  rqStartKey :: gostring
  rqEndKey :: gostring
  rqItrExhausted :: bool
  rqReadsInfo :: "ReadsInfo option"

record KVRWSet =
  Reads :: "KVRead list"
  RangeQueriesInfo :: "RangeQueryInfo list"
  Writes :: "KVWrite list"
  MetadataWrites :: "KVMetadataWrite list"

record HashedRWSet =
  HashedReads :: "KVReadHash list"
  HashedWrites :: "KVWriteHash list"
  HashedMetadataWrites :: "KVMetadataWriteHash list"

record CollectionHashedReadWriteSet =
  chCollectionName :: gostring
  chHashedRwset :: bytes
  chPvtRwsetHash :: bytes

record NsReadWriteSet =
  nrNamespace :: gostring
  nrRwset :: bytes
  nrCollectionHashedRwset :: "CollectionHashedReadWriteSet list"

datatype DataModel = KV

record TxReadWriteSet =
  txDataModel :: DataModel
  txNsRwset :: "NsReadWriteSet list"

record CollectionPvtReadWriteSet =
  cpCollectionName :: gostring
  cpRwset :: bytes

record NsPvtReadWriteSet =
  npNamespace :: gostring
  npCollectionPvtRwset :: "CollectionPvtReadWriteSet list"

record TxPvtReadWriteSet =
  tpDataModel :: DataModel
  tpNsPvtRwset :: "NsPvtReadWriteSet list"

definition GetRawReads_KvReads :: "RangeQueryInfo \<Rightarrow> KVRead list" where
  "GetRawReads_KvReads rqi = (case rqReadsInfo rqi of Some (RawReads kvReads) \<Rightarrow> kvReads | _ \<Rightarrow> [])"

definition GetReadsMerkleHashes :: "RangeQueryInfo \<Rightarrow> QueryReadsMerkleSummary option" where
  "GetReadsMerkleHashes rqi = (case rqReadsInfo rqi of Some (ReadsMerkleHashes ms) \<Rightarrow> Some ms | _ \<Rightarrow> None)"

definition SetRawReads :: "RangeQueryInfo \<Rightarrow> KVRead list \<Rightarrow> RangeQueryInfo" where
  "SetRawReads rqi kvReads = rqi\<lparr>rqReadsInfo := Some (RawReads kvReads)\<rparr>"

definition SetMerkelSummary :: "RangeQueryInfo \<Rightarrow> QueryReadsMerkleSummary \<Rightarrow> RangeQueryInfo" where
  "SetMerkelSummary rqi merkleSummary = rqi\<lparr>rqReadsInfo := Some (ReadsMerkleHashes merkleSummary)\<rparr>"

section \<open>Read-write sets\<close>

record CollHashedRwSet =
  crCollectionName :: gostring
  crHashedRwSet :: HashedRWSet
  crPvtRwSetHash :: bytes

record NsRwSet =
  rwNameSpace :: gostring
  rwKvRwSet :: KVRWSet
  rwCollHashedRwSets :: "CollHashedRwSet list"

type_synonym TxRwSet = "NsRwSet list"

record CollPvtRwSet =
  pcCollectionName :: gostring
  pcKvRwSet :: KVRWSet

record NsPvtRwSet =
  pnNameSpace :: gostring
  pnCollPvtRwSets :: "CollPvtRwSet list"

type_synonym TxPvtRwSet = "NsPvtRwSet list"

fun getPvtDataHash :: "CollHashedRwSet list \<Rightarrow> gostring \<Rightarrow> bytes" where
  "getPvtDataHash [] coll = []"
| "getPvtDataHash (c # cs) coll = (if crCollectionName c \<noteq> coll then getPvtDataHash cs coll else crPvtRwSetHash c)"

fun GetPvtDataHash :: "TxRwSet \<Rightarrow> gostring \<Rightarrow> gostring \<Rightarrow> bytes" where
  "GetPvtDataHash [] ns coll = []"
| "GetPvtDataHash (n # nss) ns coll =
     (if rwNameSpace n \<noteq> ns then GetPvtDataHash nss ns coll else getPvtDataHash (rwCollHashedRwSets n) coll)"

definition NumCollections :: "TxRwSet option \<Rightarrow> nat" where
  "NumCollections txRwSet =
     (case txRwSet of None \<Rightarrow> 0
      | Some nss \<Rightarrow> fold (\<lambda>nsRwset numColls. fold (\<lambda>_ n. n + 1) (rwCollHashedRwSets nsRwset) numColls) nss 0)"

section \<open>Constructors of the messages\<close>

definition newProtoVersion :: "Height option \<Rightarrow> KVVersion option" where
  "newProtoVersion height = map_option (\<lambda>h. \<lparr>pvBlockNum = BlockNum h, pvTxNum = TxNum h\<rparr>) height"

definition NewVersion :: "KVVersion option \<Rightarrow> Height option" where
  "NewVersion protoVersion = map_option (\<lambda>v. NewHeight (pvBlockNum v) (pvTxNum v)) protoVersion"

definition NewKVRead :: "gostring \<Rightarrow> Height option \<Rightarrow> KVRead" where
  "NewKVRead key ver = \<lparr>krKey = key, krVersion = newProtoVersion ver\<rparr>"

definition newKVWrite :: "gostring \<Rightarrow> bytes \<Rightarrow> KVWrite" where
  "newKVWrite key value = \<lparr>kwKey = key, kwIsDelete = (length value = 0), kwValue = value\<rparr>"

definition newPvtKVReadHash :: "(bytes \<Rightarrow> bytes) \<Rightarrow> gostring \<Rightarrow> Height option \<Rightarrow> KVReadHash" where
  "newPvtKVReadHash hash key ver = \<lparr>rhKeyHash = hash key, rhVersion = newProtoVersion ver\<rparr>"

definition newPvtKVWriteAndHash :: "(bytes \<Rightarrow> bytes) \<Rightarrow> gostring \<Rightarrow> bytes \<Rightarrow> KVWrite \<times> KVWriteHash" where
  "newPvtKVWriteAndHash hash key value =
     (let kvWrite = newKVWrite key value;
          keyHash = hash key;
          valueHash = (if \<not> kwIsDelete kvWrite then hash value else [])
      in (kvWrite, \<lparr>whKeyHash = keyHash, whIsDelete = kwIsDelete kvWrite, whValueHash = valueHash, whIsPurge = False\<rparr>))"

definition IsKVWriteDelete :: "KVWrite \<Rightarrow> bool" where
  "IsKVWriteDelete kvWrite \<longleftrightarrow> kwIsDelete kvWrite \<or> length (kwValue kvWrite) = 0"

definition IsKVWriteHashDelete :: "(bytes \<Rightarrow> bytes) \<Rightarrow> KVWriteHash \<Rightarrow> bool" where
  "IsKVWriteHashDelete hash kvWriteHash \<longleftrightarrow>
     whIsDelete kvWriteHash \<or> length (whValueHash kvWriteHash) = 0 \<or> hash [] = whValueHash kvWriteHash"

section \<open>Conversion to and from protocol messages\<close>

record 'a codec =
  pMarshal :: "'a \<Rightarrow> bytes result"
  pUnmarshal :: "bytes \<Rightarrow> 'a result"

record rwset_codecs =
  kvRWSet_codec :: "KVRWSet codec"
  hashedRWSet_codec :: "HashedRWSet codec"
  txReadWriteSet_codec :: "TxReadWriteSet codec"
  txPvtReadWriteSet_codec :: "TxPvtReadWriteSet codec"

definition CollHashedRwSet_toProtoMsg :: "rwset_codecs \<Rightarrow> CollHashedRwSet \<Rightarrow> CollectionHashedReadWriteSet result" where
  "CollHashedRwSet_toProtoMsg cd c =
     bindR (pMarshal (hashedRWSet_codec cd) (crHashedRwSet c)) (\<lambda>b.
       Inr \<lparr>chCollectionName = crCollectionName c, chHashedRwset = b, chPvtRwsetHash = crPvtRwSetHash c\<rparr>)"

definition collHashedRwSetFromProtoMsg :: "rwset_codecs \<Rightarrow> CollectionHashedReadWriteSet \<Rightarrow> CollHashedRwSet result" where
  "collHashedRwSetFromProtoMsg cd protoMsg =
     bindR (pUnmarshal (hashedRWSet_codec cd) (chHashedRwset protoMsg)) (\<lambda>h.
       Inr \<lparr>crCollectionName = chCollectionName protoMsg, crHashedRwSet = h, crPvtRwSetHash = chPvtRwsetHash protoMsg\<rparr>)"

definition NsRwSet_toProtoMsg :: "rwset_codecs \<Rightarrow> NsRwSet \<Rightarrow> NsReadWriteSet result" where
  "NsRwSet_toProtoMsg cd nsRwSet =
     bindR (pMarshal (kvRWSet_codec cd) (rwKvRwSet nsRwSet)) (\<lambda>b.
     bindR (mapR (CollHashedRwSet_toProtoMsg cd) (rwCollHashedRwSets nsRwSet)) (\<lambda>cs.
       Inr \<lparr>nrNamespace = rwNameSpace nsRwSet, nrRwset = b, nrCollectionHashedRwset = cs\<rparr>))"

definition nsRwSetFromProtoMsg :: "rwset_codecs \<Rightarrow> NsReadWriteSet \<Rightarrow> NsRwSet result" where
  "nsRwSetFromProtoMsg cd protoMsg =
     bindR (pUnmarshal (kvRWSet_codec cd) (nrRwset protoMsg)) (\<lambda>kv.
     bindR (mapR (collHashedRwSetFromProtoMsg cd) (nrCollectionHashedRwset protoMsg)) (\<lambda>cs.
       Inr \<lparr>rwNameSpace = nrNamespace protoMsg, rwKvRwSet = kv, rwCollHashedRwSets = cs\<rparr>))"

definition TxRwSet_toProtoMsg :: "rwset_codecs \<Rightarrow> TxRwSet \<Rightarrow> TxReadWriteSet result" where
  "TxRwSet_toProtoMsg cd txRwSet =
     bindR (mapR (NsRwSet_toProtoMsg cd) txRwSet) (\<lambda>nss. Inr \<lparr>txDataModel = KV, txNsRwset = nss\<rparr>)"

definition TxRwSetFromProtoMsg :: "rwset_codecs \<Rightarrow> TxReadWriteSet \<Rightarrow> TxRwSet result" where
  "TxRwSetFromProtoMsg cd protoMsg = mapR (nsRwSetFromProtoMsg cd) (txNsRwset protoMsg)"

definition TxRwSet_ToProtoBytes :: "rwset_codecs \<Rightarrow> TxRwSet \<Rightarrow> bytes result" where
  "TxRwSet_ToProtoBytes cd txRwSet = bindR (TxRwSet_toProtoMsg cd txRwSet) (pMarshal (txReadWriteSet_codec cd))"

definition TxRwSet_FromProtoBytes :: "rwset_codecs \<Rightarrow> bytes \<Rightarrow> TxRwSet result" where
  "TxRwSet_FromProtoBytes cd protoBytes =
     bindR (pUnmarshal (txReadWriteSet_codec cd) protoBytes) (TxRwSetFromProtoMsg cd)"

definition CollPvtRwSet_ToProtoMsg :: "rwset_codecs \<Rightarrow> CollPvtRwSet \<Rightarrow> CollectionPvtReadWriteSet result" where
  "CollPvtRwSet_ToProtoMsg cd c =
     bindR (pMarshal (kvRWSet_codec cd) (pcKvRwSet c)) (\<lambda>b.
       Inr \<lparr>cpCollectionName = pcCollectionName c, cpRwset = b\<rparr>)"

definition CollPvtRwSetFromProtoMsg :: "rwset_codecs \<Rightarrow> CollectionPvtReadWriteSet \<Rightarrow> CollPvtRwSet result" where
  "CollPvtRwSetFromProtoMsg cd protoMsg =
     bindR (pUnmarshal (kvRWSet_codec cd) (cpRwset protoMsg)) (\<lambda>kv.
       Inr \<lparr>pcCollectionName = cpCollectionName protoMsg, pcKvRwSet = kv\<rparr>)"

definition NsPvtRwSet_toProtoMsg :: "rwset_codecs \<Rightarrow> NsPvtRwSet \<Rightarrow> NsPvtReadWriteSet result" where
  "NsPvtRwSet_toProtoMsg cd n =
     bindR (mapR (CollPvtRwSet_ToProtoMsg cd) (pnCollPvtRwSets n)) (\<lambda>cs.
       Inr \<lparr>npNamespace = pnNameSpace n, npCollectionPvtRwset = cs\<rparr>)"

definition nsPvtRwSetFromProtoMsg :: "rwset_codecs \<Rightarrow> NsPvtReadWriteSet \<Rightarrow> NsPvtRwSet result" where
  "nsPvtRwSetFromProtoMsg cd protoMsg =
     bindR (mapR (CollPvtRwSetFromProtoMsg cd) (npCollectionPvtRwset protoMsg)) (\<lambda>cs.
       Inr \<lparr>pnNameSpace = npNamespace protoMsg, pnCollPvtRwSets = cs\<rparr>)"

definition TxPvtRwSet_ToProtoMsg :: "rwset_codecs \<Rightarrow> TxPvtRwSet \<Rightarrow> TxPvtReadWriteSet result" where
  "TxPvtRwSet_ToProtoMsg cd t =
     bindR (mapR (NsPvtRwSet_toProtoMsg cd) t) (\<lambda>nss. Inr \<lparr>tpDataModel = KV, tpNsPvtRwset = nss\<rparr>)"

definition TxPvtRwSetFromProtoMsg :: "rwset_codecs \<Rightarrow> TxPvtReadWriteSet \<Rightarrow> TxPvtRwSet result" where
  "TxPvtRwSetFromProtoMsg cd protoMsg = mapR (nsPvtRwSetFromProtoMsg cd) (tpNsPvtRwset protoMsg)"

definition TxPvtRwSet_ToProtoBytes :: "rwset_codecs \<Rightarrow> TxPvtRwSet \<Rightarrow> bytes result" where
  "TxPvtRwSet_ToProtoBytes cd t = bindR (TxPvtRwSet_ToProtoMsg cd t) (pMarshal (txPvtReadWriteSet_codec cd))"

definition TxPvtRwSet_FromProtoBytes :: "rwset_codecs \<Rightarrow> bytes \<Rightarrow> TxPvtRwSet result" where
  "TxPvtRwSet_FromProtoBytes cd protoBytes =
     bindR (pUnmarshal (txPvtReadWriteSet_codec cd) protoBytes) (TxPvtRwSetFromProtoMsg cd)"

section \<open>Lemmas\<close>

lemma NewVersion_newProtoVersion [simp]: "NewVersion (newProtoVersion h) = h"
  by (cases h) (simp_all add: NewVersion_def newProtoVersion_def NewHeight_def)

lemma newProtoVersion_NewVersion [simp]: "newProtoVersion (NewVersion v) = v"
  by (cases v) (simp_all add: NewVersion_def newProtoVersion_def NewHeight_def)

lemma newProtoVersion_inject [simp]: "newProtoVersion a = newProtoVersion b \<longleftrightarrow> a = b"
  by (metis NewVersion_newProtoVersion)

lemma NewVersion_None_iff [simp]: "NewVersion v = None \<longleftrightarrow> v = None"
  by (simp add: NewVersion_def)

text \<open>A write built by the simulator is a deletion exactly when its value is empty, and so is its hashed form unless
  the hash of a non-empty value is empty or collides with the hash of the empty value.\<close>

lemma IsKVWriteDelete_newKVWrite [simp]: "IsKVWriteDelete (newKVWrite key v) \<longleftrightarrow> v = []"
  by (auto simp: IsKVWriteDelete_def newKVWrite_def)

lemma IsKVWriteHashDelete_new:
  assumes "v \<noteq> [] \<Longrightarrow> hash v \<noteq> [] \<and> hash v \<noteq> hash []"
  shows "IsKVWriteHashDelete hash (snd (newPvtKVWriteAndHash hash key v)) \<longleftrightarrow>
    IsKVWriteDelete (fst (newPvtKVWriteAndHash hash key v))"
  using assms
  by (auto simp: IsKVWriteHashDelete_def newPvtKVWriteAndHash_def Let_def IsKVWriteDelete_def newKVWrite_def)

text \<open>Reading back what was written, for the messages in a list.\<close>

definition codec_ok :: "'a codec \<Rightarrow> 'a list \<Rightarrow> bool" where
  "codec_ok c xs \<longleftrightarrow> (\<forall>x \<in> set xs. \<forall>b. pMarshal c x = Inr b \<longrightarrow> pUnmarshal c b = Inr x)"

lemma mapR_roundtrip:
  assumes "mapR f xs = Inr ys" and "\<And>x y. x \<in> set xs \<Longrightarrow> f x = Inr y \<Longrightarrow> g y = Inr x"
  shows "mapR g ys = Inr xs"
proof -
  have "list_all2 (\<lambda>x y. f x = Inr y) xs ys"
    using assms(1) by (simp add: mapR_Inr_iff)
  then have "list_all2 (\<lambda>y x. g y = Inr x) ys xs"
    using assms(2) by (auto simp: list_all2_conv_all_nth)
  then show ?thesis by (simp add: mapR_Inr_iff)
qed

lemma CollHashedRwSet_roundtrip:
  assumes "CollHashedRwSet_toProtoMsg cd c = Inr m" and "codec_ok (hashedRWSet_codec cd) [crHashedRwSet c]"
  shows "collHashedRwSetFromProtoMsg cd m = Inr c"
  using assms by (auto simp: CollHashedRwSet_toProtoMsg_def collHashedRwSetFromProtoMsg_def bindR_Inr_iff codec_ok_def)

lemma NsRwSet_roundtrip:
  assumes "NsRwSet_toProtoMsg cd n = Inr m" and "codec_ok (kvRWSet_codec cd) [rwKvRwSet n]"
    and "codec_ok (hashedRWSet_codec cd) (map crHashedRwSet (rwCollHashedRwSets n))"
  shows "nsRwSetFromProtoMsg cd m = Inr n"
proof -
  obtain b cs where b: "pMarshal (kvRWSet_codec cd) (rwKvRwSet n) = Inr b"
    and cs: "mapR (CollHashedRwSet_toProtoMsg cd) (rwCollHashedRwSets n) = Inr cs"
    and m: "m = \<lparr>nrNamespace = rwNameSpace n, nrRwset = b, nrCollectionHashedRwset = cs\<rparr>"
    using assms(1) by (auto simp: NsRwSet_toProtoMsg_def bindR_Inr_iff)
  have "mapR (collHashedRwSetFromProtoMsg cd) cs = Inr (rwCollHashedRwSets n)"
    using cs assms(3)
    by (auto intro!: mapR_roundtrip [OF cs] CollHashedRwSet_roundtrip simp: codec_ok_def)
  with m b assms(2) show ?thesis
    by (simp add: nsRwSetFromProtoMsg_def codec_ok_def)
qed

lemma CollPvtRwSet_roundtrip:
  assumes "CollPvtRwSet_ToProtoMsg cd c = Inr m" and "codec_ok (kvRWSet_codec cd) [pcKvRwSet c]"
  shows "CollPvtRwSetFromProtoMsg cd m = Inr c"
  using assms by (auto simp: CollPvtRwSet_ToProtoMsg_def CollPvtRwSetFromProtoMsg_def bindR_Inr_iff codec_ok_def)

lemma NsPvtRwSet_roundtrip:
  assumes "NsPvtRwSet_toProtoMsg cd n = Inr m"
    and "codec_ok (kvRWSet_codec cd) (map pcKvRwSet (pnCollPvtRwSets n))"
  shows "nsPvtRwSetFromProtoMsg cd m = Inr n"
proof -
  obtain cs where cs: "mapR (CollPvtRwSet_ToProtoMsg cd) (pnCollPvtRwSets n) = Inr cs"
    and m: "m = \<lparr>npNamespace = pnNameSpace n, npCollectionPvtRwset = cs\<rparr>"
    using assms(1) by (auto simp: NsPvtRwSet_toProtoMsg_def bindR_Inr_iff)
  have "mapR (CollPvtRwSetFromProtoMsg cd) cs = Inr (pnCollPvtRwSets n)"
    using cs assms(2) by (auto intro!: mapR_roundtrip [OF cs] CollPvtRwSet_roundtrip simp: codec_ok_def)
  with m show ?thesis by (simp add: nsPvtRwSetFromProtoMsg_def)
qed

lemma TxRwSet_msg_roundtrip:
  assumes "TxRwSet_toProtoMsg cd t = Inr m"
    and "codec_ok (kvRWSet_codec cd) (map rwKvRwSet t)"
    and "codec_ok (hashedRWSet_codec cd) (concat (map (map crHashedRwSet \<circ> rwCollHashedRwSets) t))"
  shows "TxRwSetFromProtoMsg cd m = Inr t"
proof -
  have nss: "mapR (NsRwSet_toProtoMsg cd) t = Inr (txNsRwset m)"
    using assms(1) by (auto simp: TxRwSet_toProtoMsg_def bindR_Inr_iff)
  then show ?thesis
    using assms(2,3)
    by (auto intro!: mapR_roundtrip [OF nss] NsRwSet_roundtrip simp: TxRwSetFromProtoMsg_def codec_ok_def)
qed

lemma TxPvtRwSet_msg_roundtrip:
  assumes "TxPvtRwSet_ToProtoMsg cd t = Inr m"
    and "codec_ok (kvRWSet_codec cd) (concat (map (map pcKvRwSet \<circ> pnCollPvtRwSets) t))"
  shows "TxPvtRwSetFromProtoMsg cd m = Inr t"
proof -
  have nss: "mapR (NsPvtRwSet_toProtoMsg cd) t = Inr (tpNsPvtRwset m)"
    using assms(1) by (auto simp: TxPvtRwSet_ToProtoMsg_def bindR_Inr_iff)
  then show ?thesis
    using assms(2)
    by (auto intro!: mapR_roundtrip [OF nss] NsPvtRwSet_roundtrip simp: TxPvtRwSetFromProtoMsg_def codec_ok_def)
qed

lemma NumCollections_sum:
  "NumCollections (Some t) = sum_list (map (length \<circ> rwCollHashedRwSets) t)"
proof -
  have "fold (\<lambda>_ n. n + 1) cs k = k + length cs" for cs :: "CollHashedRwSet list" and k :: nat
    by (induction cs arbitrary: k) simp_all
  then have "fold (\<lambda>n k. fold (\<lambda>_ n. n + 1) (rwCollHashedRwSets n) k) t k =
      k + sum_list (map (length \<circ> rwCollHashedRwSets) t)" for k
    by (induction t arbitrary: k) simp_all
  then show ?thesis by (simp add: NumCollections_def)
qed

end
