(* ===== verification/Rwset_Builder.thy ===== *)
theory Rwset_Builder
  imports Rwset
begin

text \<open>
  The builder that turns the reads and writes of a simulated transaction into a read-write set,
  \<open>core/ledger/kvledger/txmgmt/rwsetutil/rwset_builder.go\<close>. The code keeps pointers to nested builders in maps and
  mutates them in place; here every operation writes the changed builder back into the map it came from.
\<close>

section \<open>The builder\<close>

record rangeQueryKey =
  rkStartKey :: gostring
  rkEndKey :: gostring
  rkItrExhausted :: bool

record collHashRwBuilder =
  hbCollName :: gostring
  hbReadMap :: "(gostring, KVReadHash) gomap"
  hbWriteMap :: "(gostring, KVWriteHash) gomap"
  hbMetadataWriteMap :: "(gostring, KVMetadataWriteHash) gomap"
  hbPvtDataHash :: bytes

record nsPubRwBuilder =
  pbNamespace :: gostring
  pbReadMap :: "(gostring, KVRead) gomap"
  pbWriteMap :: "(gostring, KVWrite) gomap"
  pbMetadataWriteMap :: "(gostring, KVMetadataWrite) gomap"
  pbRangeQueriesMap :: "(rangeQueryKey, RangeQueryInfo) gomap"
  pbRangeQueriesKeys :: "rangeQueryKey list"
  pbCollHashRwBuilder :: "(gostring, collHashRwBuilder) gomap"

record collPvtRwBuilder =
  cbCollectionName :: gostring
  cbWriteMap :: "(gostring, KVWrite) gomap"
  cbMetadataWriteMap :: "(gostring, KVMetadataWrite) gomap"

record nsPvtRwBuilder =
  vbNamespace :: gostring
  vbCollPvtRwBuilders :: "(gostring, collPvtRwBuilder) gomap"

record RWSetBuilder =
  pubRwBuilderMap :: "(gostring, nsPubRwBuilder) gomap"
  pvtRwBuilderMap :: "(gostring, nsPvtRwBuilder) gomap"

definition NewRWSetBuilder :: RWSetBuilder where
  "NewRWSetBuilder = \<lparr>pubRwBuilderMap = [], pvtRwBuilderMap = []\<rparr>"

definition newNsPubRwBuilder :: "gostring \<Rightarrow> nsPubRwBuilder" where
  "newNsPubRwBuilder namespace =
     \<lparr>pbNamespace = namespace, pbReadMap = [], pbWriteMap = [], pbMetadataWriteMap = [],
      pbRangeQueriesMap = [], pbRangeQueriesKeys = [], pbCollHashRwBuilder = []\<rparr>"

definition newNsPvtRwBuilder :: "gostring \<Rightarrow> nsPvtRwBuilder" where
  "newNsPvtRwBuilder namespace = \<lparr>vbNamespace = namespace, vbCollPvtRwBuilders = []\<rparr>"

definition newCollHashRwBuilder :: "gostring \<Rightarrow> collHashRwBuilder" where
  "newCollHashRwBuilder collName =
     \<lparr>hbCollName = collName, hbReadMap = [], hbWriteMap = [], hbMetadataWriteMap = [], hbPvtDataHash = []\<rparr>"

definition newCollPvtRwBuilder :: "gostring \<Rightarrow> collPvtRwBuilder" where
  "newCollPvtRwBuilder collName = \<lparr>cbCollectionName = collName, cbWriteMap = [], cbMetadataWriteMap = []\<rparr>"

definition getOrCreateNsPubRwBuilder :: "RWSetBuilder \<Rightarrow> gostring \<Rightarrow> nsPubRwBuilder" where
  "getOrCreateNsPubRwBuilder b ns =
     (case map_of (pubRwBuilderMap b) ns of None \<Rightarrow> newNsPubRwBuilder ns | Some n \<Rightarrow> n)"

definition getOrCreateNsPvtRwBuilder :: "RWSetBuilder \<Rightarrow> gostring \<Rightarrow> nsPvtRwBuilder" where
  "getOrCreateNsPvtRwBuilder b ns =
     (case map_of (pvtRwBuilderMap b) ns of None \<Rightarrow> newNsPvtRwBuilder ns | Some n \<Rightarrow> n)"

definition getOrCreateCollHashedRwBuilder :: "RWSetBuilder \<Rightarrow> gostring \<Rightarrow> gostring \<Rightarrow> collHashRwBuilder" where
  "getOrCreateCollHashedRwBuilder b ns coll =
     (case map_of (pbCollHashRwBuilder (getOrCreateNsPubRwBuilder b ns)) coll of
        None \<Rightarrow> newCollHashRwBuilder coll | Some c \<Rightarrow> c)"

definition getOrCreateCollPvtRwBuilder :: "RWSetBuilder \<Rightarrow> gostring \<Rightarrow> gostring \<Rightarrow> collPvtRwBuilder" where
  "getOrCreateCollPvtRwBuilder b ns coll =
     (case map_of (vbCollPvtRwBuilders (getOrCreateNsPvtRwBuilder b ns)) coll of
        None \<Rightarrow> newCollPvtRwBuilder coll | Some c \<Rightarrow> c)"

text \<open>Mutating the builder a pointer refers to.\<close>

definition update_pub :: "gostring \<Rightarrow> (nsPubRwBuilder \<Rightarrow> nsPubRwBuilder) \<Rightarrow> RWSetBuilder \<Rightarrow> RWSetBuilder" where
  "update_pub ns f b =
     b\<lparr>pubRwBuilderMap := mput ns (f (getOrCreateNsPubRwBuilder b ns)) (pubRwBuilderMap b)\<rparr>"

definition update_collHash ::
  "gostring \<Rightarrow> gostring \<Rightarrow> (collHashRwBuilder \<Rightarrow> collHashRwBuilder) \<Rightarrow> RWSetBuilder \<Rightarrow> RWSetBuilder" where
  "update_collHash ns coll f b =
     update_pub ns (\<lambda>n. n\<lparr>pbCollHashRwBuilder :=
       mput coll (f (getOrCreateCollHashedRwBuilder b ns coll)) (pbCollHashRwBuilder n)\<rparr>) b"

definition update_collPvt ::
  "gostring \<Rightarrow> gostring \<Rightarrow> (collPvtRwBuilder \<Rightarrow> collPvtRwBuilder) \<Rightarrow> RWSetBuilder \<Rightarrow> RWSetBuilder" where
  "update_collPvt ns coll f b =
     (let n = getOrCreateNsPvtRwBuilder b ns in
      b\<lparr>pvtRwBuilderMap := mput ns
         (n\<lparr>vbCollPvtRwBuilders := mput coll (f (getOrCreateCollPvtRwBuilder b ns coll)) (vbCollPvtRwBuilders n)\<rparr>)
         (pvtRwBuilderMap b)\<rparr>)"

definition metadataEntries :: "(gostring, bytes) gomap \<Rightarrow> KVMetadataEntry list" where
  "metadataEntries m = map (\<lambda>name. \<lparr>meName = name, meValue = the (map_of m name)\<rparr>) (GetSortedKeys m)"

definition mapToMetadataWrite :: "gostring \<Rightarrow> (gostring, bytes) gomap \<Rightarrow> KVMetadataWrite" where
  "mapToMetadataWrite key m = \<lparr>mwKey = key, mwEntries = metadataEntries m\<rparr>"

definition mapToMetadataWriteHash ::
  "(bytes \<Rightarrow> bytes) \<Rightarrow> gostring \<Rightarrow> (gostring, bytes) gomap \<Rightarrow> KVMetadataWriteHash" where
  "mapToMetadataWriteHash hash key m = \<lparr>mhKeyHash = hash key, mhEntries = metadataEntries m\<rparr>"

section \<open>Recording reads and writes\<close>

definition AddToReadSet :: "gostring \<Rightarrow> gostring \<Rightarrow> Height option \<Rightarrow> RWSetBuilder \<Rightarrow> RWSetBuilder" where
  "AddToReadSet ns key ver =
     update_pub ns (\<lambda>n. n\<lparr>pbReadMap := mput key (NewKVRead key ver) (pbReadMap n)\<rparr>)"

definition AddToWriteSet :: "gostring \<Rightarrow> gostring \<Rightarrow> bytes \<Rightarrow> RWSetBuilder \<Rightarrow> RWSetBuilder" where
  "AddToWriteSet ns key value =
     update_pub ns (\<lambda>n. n\<lparr>pbWriteMap := mput key (newKVWrite key value) (pbWriteMap n)\<rparr>)"

definition AddToMetadataWriteSet ::
  "gostring \<Rightarrow> gostring \<Rightarrow> (gostring, bytes) gomap \<Rightarrow> RWSetBuilder \<Rightarrow> RWSetBuilder" where
  "AddToMetadataWriteSet ns key metadata =
     update_pub ns (\<lambda>n. n\<lparr>pbMetadataWriteMap := mput key (mapToMetadataWrite key metadata) (pbMetadataWriteMap n)\<rparr>)"

definition AddToRangeQuerySet :: "gostring \<Rightarrow> RangeQueryInfo \<Rightarrow> RWSetBuilder \<Rightarrow> RWSetBuilder" where
  "AddToRangeQuerySet ns rqi =
     update_pub ns (\<lambda>n.
       let key = \<lparr>rkStartKey = rqStartKey rqi, rkEndKey = rqEndKey rqi, rkItrExhausted = rqItrExhausted rqi\<rparr> in
       if map_of (pbRangeQueriesMap n) key = None
       then n\<lparr>pbRangeQueriesMap := mput key rqi (pbRangeQueriesMap n),
              pbRangeQueriesKeys := pbRangeQueriesKeys n @ [key]\<rparr>
       else n)"

definition AddToHashedReadSet ::
  "(bytes \<Rightarrow> bytes) \<Rightarrow> gostring \<Rightarrow> gostring \<Rightarrow> gostring \<Rightarrow> Height option \<Rightarrow> RWSetBuilder \<Rightarrow> RWSetBuilder" where
  "AddToHashedReadSet hash ns coll key ver =
     update_collHash ns coll (\<lambda>c. c\<lparr>hbReadMap := mput key (newPvtKVReadHash hash key ver) (hbReadMap c)\<rparr>)"

definition AddToPvtAndHashedWriteSet ::
  "(bytes \<Rightarrow> bytes) \<Rightarrow> gostring \<Rightarrow> gostring \<Rightarrow> gostring \<Rightarrow> bytes \<Rightarrow> RWSetBuilder \<Rightarrow> RWSetBuilder" where
  "AddToPvtAndHashedWriteSet hash ns coll key value b =
     (let (kvWrite, kvWriteHash) = newPvtKVWriteAndHash hash key value in
      update_collHash ns coll (\<lambda>c. c\<lparr>hbWriteMap := mput key kvWriteHash (hbWriteMap c)\<rparr>)
        (update_collPvt ns coll (\<lambda>c. c\<lparr>cbWriteMap := mput key kvWrite (cbWriteMap c)\<rparr>) b))"

definition AddToPvtAndHashedWriteSetForPurge ::
  "(bytes \<Rightarrow> bytes) \<Rightarrow> gostring \<Rightarrow> gostring \<Rightarrow> gostring \<Rightarrow> RWSetBuilder \<Rightarrow> RWSetBuilder" where
  "AddToPvtAndHashedWriteSetForPurge hash ns coll key b =
     (let (kvWrite, kvWriteHash0) = newPvtKVWriteAndHash hash key [];
          kvWriteHash = kvWriteHash0\<lparr>whIsPurge := True\<rparr> in
      update_collHash ns coll (\<lambda>c. c\<lparr>hbWriteMap := mput key kvWriteHash (hbWriteMap c)\<rparr>)
        (update_collPvt ns coll (\<lambda>c. c\<lparr>cbWriteMap := mput key kvWrite (cbWriteMap c)\<rparr>) b))"

definition AddToHashedMetadataWriteSet ::
  "(bytes \<Rightarrow> bytes) \<Rightarrow> gostring \<Rightarrow> gostring \<Rightarrow> gostring \<Rightarrow> (gostring, bytes) gomap \<Rightarrow> RWSetBuilder \<Rightarrow> RWSetBuilder" where
  "AddToHashedMetadataWriteSet hash ns coll key metadata b =
     update_collHash ns coll
       (\<lambda>c. c\<lparr>hbMetadataWriteMap := mput key (mapToMetadataWriteHash hash key metadata) (hbMetadataWriteMap c)\<rparr>)
       (update_collPvt ns coll
          (\<lambda>c. c\<lparr>cbMetadataWriteMap := mput key \<lparr>mwKey = key, mwEntries = []\<rparr> (cbMetadataWriteMap c)\<rparr>) b)"

section \<open>Building the read-write set\<close>

definition collHashRwBuilder_build :: "collHashRwBuilder \<Rightarrow> CollHashedRwSet" where
  "collHashRwBuilder_build b =
     \<lparr>crCollectionName = hbCollName b,
      crHashedRwSet = \<lparr>HashedReads = GetValuesBySortedKeys (hbReadMap b),
                       HashedWrites = GetValuesBySortedKeys (hbWriteMap b),
                       HashedMetadataWrites = GetValuesBySortedKeys (hbMetadataWriteMap b)\<rparr>,
      crPvtRwSetHash = hbPvtDataHash b\<rparr>"

definition nsPubRwBuilder_build :: "nsPubRwBuilder \<Rightarrow> NsRwSet" where
  "nsPubRwBuilder_build b =
     \<lparr>rwNameSpace = pbNamespace b,
      rwKvRwSet = \<lparr>Reads = GetValuesBySortedKeys (pbReadMap b),
                   RangeQueriesInfo = map (\<lambda>key. the (map_of (pbRangeQueriesMap b) key)) (pbRangeQueriesKeys b),
                   Writes = GetValuesBySortedKeys (pbWriteMap b),
                   MetadataWrites = GetValuesBySortedKeys (pbMetadataWriteMap b)\<rparr>,
      rwCollHashedRwSets = map collHashRwBuilder_build (GetValuesBySortedKeys (pbCollHashRwBuilder b))\<rparr>"

definition collPvtRwBuilder_build :: "collPvtRwBuilder \<Rightarrow> CollPvtRwSet" where
  "collPvtRwBuilder_build b =
     \<lparr>pcCollectionName = cbCollectionName b,
      pcKvRwSet = \<lparr>Reads = [], RangeQueriesInfo = [], Writes = GetValuesBySortedKeys (cbWriteMap b),
                   MetadataWrites = GetValuesBySortedKeys (cbMetadataWriteMap b)\<rparr>\<rparr>"

definition nsPvtRwBuilder_build :: "nsPvtRwBuilder \<Rightarrow> NsPvtRwSet" where
  "nsPvtRwBuilder_build b =
     \<lparr>pnNameSpace = vbNamespace b,
      pnCollPvtRwSets = map collPvtRwBuilder_build (GetValuesBySortedKeys (vbCollPvtRwBuilders b))\<rparr>"

definition GetTxReadWriteSet :: "RWSetBuilder \<Rightarrow> TxRwSet" where
  "GetTxReadWriteSet b = map nsPubRwBuilder_build (GetValuesBySortedKeys (pubRwBuilderMap b))"

definition getTxPvtReadWriteSet :: "RWSetBuilder \<Rightarrow> TxPvtRwSet option" where
  "getTxPvtReadWriteSet b =
     (let nsPvtRwSets = map nsPvtRwBuilder_build (GetValuesBySortedKeys (pvtRwBuilderMap b))
      in if length nsPvtRwSets = 0 then None else Some nsPvtRwSets)"

definition setPvtCollectionHash ::
  "(bytes \<Rightarrow> bytes) \<Rightarrow> gostring \<Rightarrow> gostring \<Rightarrow> bytes \<Rightarrow> RWSetBuilder \<Rightarrow> RWSetBuilder" where
  "setPvtCollectionHash hash ns coll pvtDataProto =
     update_collHash ns coll (\<lambda>c. c\<lparr>hbPvtDataHash := hash pvtDataProto\<rparr>)"

definition setPvtCollectionHashes ::
  "(bytes \<Rightarrow> bytes) \<Rightarrow> TxPvtReadWriteSet \<Rightarrow> RWSetBuilder \<Rightarrow> RWSetBuilder" where
  "setPvtCollectionHashes hash pvtDataProto =
     fold (\<lambda>ns. fold (\<lambda>coll. setPvtCollectionHash hash (npNamespace ns) (cpCollectionName coll) (cpRwset coll))
                  (npCollectionPvtRwset ns)) (tpNsPvtRwset pvtDataProto)"

record TxSimulationResults =
  PubSimulationResults :: TxReadWriteSet
  PvtSimulationResults :: "TxPvtReadWriteSet option"

definition GetTxSimulationResults ::
  "rwset_codecs \<Rightarrow> (bytes \<Rightarrow> bytes) \<Rightarrow> RWSetBuilder \<Rightarrow> (TxSimulationResults \<times> RWSetBuilder) result" where
  "GetTxSimulationResults cd hash b =
     bindR (case getTxPvtReadWriteSet b of
              None \<Rightarrow> Inr (None, b)
            | Some pvtData \<Rightarrow>
                bindR (TxPvtRwSet_ToProtoMsg cd pvtData) (\<lambda>pvtDataProto.
                  Inr (Some pvtDataProto, setPvtCollectionHashes hash pvtDataProto b)))
       (\<lambda>(pvtDataProto, b').
          bindR (TxRwSet_toProtoMsg cd (GetTxReadWriteSet b')) (\<lambda>pubDataProto.
            Inr (\<lparr>PubSimulationResults = pubDataProto, PvtSimulationResults = pvtDataProto\<rparr>, b')))"

section \<open>Well-formed builders\<close>

text \<open>Every map is well formed, and what it stores under a name or key carries that name or key.\<close>

definition keyed :: "('v \<Rightarrow> gostring) \<Rightarrow> (gostring, 'v) gomap \<Rightarrow> bool" where
  "keyed key m \<longleftrightarrow> wf_map m \<and> (\<forall>k v. map_of m k = Some v \<longrightarrow> key v = k)"

definition collHash_ok :: "collHashRwBuilder \<Rightarrow> bool" where
  "collHash_ok c \<longleftrightarrow> wf_map (hbReadMap c) \<and> wf_map (hbWriteMap c) \<and> wf_map (hbMetadataWriteMap c)"

definition nsPub_ok :: "nsPubRwBuilder \<Rightarrow> bool" where
  "nsPub_ok n \<longleftrightarrow> keyed krKey (pbReadMap n) \<and> keyed kwKey (pbWriteMap n) \<and> keyed mwKey (pbMetadataWriteMap n) \<and>
     keyed hbCollName (pbCollHashRwBuilder n) \<and> (\<forall>c \<in> ran (map_of (pbCollHashRwBuilder n)). collHash_ok c) \<and>
     wf_map (pbRangeQueriesMap n) \<and> distinct (pbRangeQueriesKeys n) \<and>
     set (pbRangeQueriesKeys n) = dom (map_of (pbRangeQueriesMap n))"

definition collPvt_ok :: "collPvtRwBuilder \<Rightarrow> bool" where
  "collPvt_ok c \<longleftrightarrow> keyed kwKey (cbWriteMap c) \<and> keyed mwKey (cbMetadataWriteMap c)"

definition nsPvt_ok :: "nsPvtRwBuilder \<Rightarrow> bool" where
  "nsPvt_ok n \<longleftrightarrow> keyed cbCollectionName (vbCollPvtRwBuilders n) \<and> (\<forall>c \<in> ran (map_of (vbCollPvtRwBuilders n)). collPvt_ok c)"

definition builder_ok :: "RWSetBuilder \<Rightarrow> bool" where
  "builder_ok b \<longleftrightarrow>
     keyed pbNamespace (pubRwBuilderMap b) \<and> (\<forall>n \<in> ran (map_of (pubRwBuilderMap b)). nsPub_ok n) \<and>
     keyed vbNamespace (pvtRwBuilderMap b) \<and> (\<forall>n \<in> ran (map_of (pvtRwBuilderMap b)). nsPvt_ok n)"

lemma keyedD: "keyed key m \<Longrightarrow> map_of m k = Some v \<Longrightarrow> key v = k"
  by (simp add: keyed_def)

lemma keyed_Nil [simp]: "keyed key []"
  by (simp add: keyed_def)

lemma keyed_mput [simp]: "keyed key m \<Longrightarrow> key v = k \<Longrightarrow> keyed key (mput k v m)"
  by (auto simp: keyed_def gomap_simps)

lemma ran_mput: "ran (map_of (mput k v m)) \<subseteq> insert v (ran (map_of m))"
  by (auto simp: gomap_simps ran_def)

lemma keyed_values:
  assumes "keyed key m"
  shows "map key (GetValuesBySortedKeys m) = GetSortedKeys m"
    and "v \<in> set (GetValuesBySortedKeys m) \<longleftrightarrow> map_of m (key v) = Some v"
proof -
  have "key (the (map_of m k)) = k" if "k \<in> set (GetSortedKeys m)" for k
    using that assms by (auto simp: keyed_def)
  then have "map (key \<circ> (\<lambda>k. the (map_of m k))) (GetSortedKeys m) = GetSortedKeys m"
    by (intro map_idI) auto
  then show "map key (GetValuesBySortedKeys m) = GetSortedKeys m"
    by (simp add: GetValuesBySortedKeys_def)
  show "v \<in> set (GetValuesBySortedKeys m) \<longleftrightarrow> map_of m (key v) = Some v"
    using assms by (auto simp: set_GetValuesBySortedKeys keyed_def ran_def)
qed

lemma keyed_sorted: "keyed key m \<Longrightarrow> sorted_wrt (<) (map key (GetValuesBySortedKeys m))"
  by (simp add: keyed_values(1) strict_sorted_iff keyed_def)

subsection \<open>Every operation preserves well-formedness\<close>

lemma nsPub_ok_new [simp]: "nsPub_ok (newNsPubRwBuilder ns)" "pbNamespace (newNsPubRwBuilder ns) = ns"
  by (simp_all add: nsPub_ok_def newNsPubRwBuilder_def)

lemma nsPvt_ok_new [simp]: "nsPvt_ok (newNsPvtRwBuilder ns)" "vbNamespace (newNsPvtRwBuilder ns) = ns"
  by (simp_all add: nsPvt_ok_def newNsPvtRwBuilder_def)

lemma collHash_ok_new [simp]: "collHash_ok (newCollHashRwBuilder c)" "hbCollName (newCollHashRwBuilder c) = c"
  by (simp_all add: collHash_ok_def newCollHashRwBuilder_def)

lemma collPvt_ok_new [simp]: "collPvt_ok (newCollPvtRwBuilder c)" "cbCollectionName (newCollPvtRwBuilder c) = c"
  by (simp_all add: collPvt_ok_def newCollPvtRwBuilder_def)

lemma getOrCreate_ok:
  assumes "builder_ok b"
  shows "nsPub_ok (getOrCreateNsPubRwBuilder b ns)" and "pbNamespace (getOrCreateNsPubRwBuilder b ns) = ns"
    and "nsPvt_ok (getOrCreateNsPvtRwBuilder b ns)" and "vbNamespace (getOrCreateNsPvtRwBuilder b ns) = ns"
  using assms
  by (auto simp: builder_ok_def getOrCreateNsPubRwBuilder_def getOrCreateNsPvtRwBuilder_def
      dest: keyedD intro: ranI split: option.splits)

lemma getOrCreateColl_ok:
  assumes "builder_ok b"
  shows "collHash_ok (getOrCreateCollHashedRwBuilder b ns coll)"
    and "hbCollName (getOrCreateCollHashedRwBuilder b ns coll) = coll"
    and "collPvt_ok (getOrCreateCollPvtRwBuilder b ns coll)"
    and "cbCollectionName (getOrCreateCollPvtRwBuilder b ns coll) = coll"
  using getOrCreate_ok [OF assms, of ns]
  by (auto simp: getOrCreateCollHashedRwBuilder_def getOrCreateCollPvtRwBuilder_def nsPub_ok_def nsPvt_ok_def
      dest: keyedD intro: ranI split: option.splits)

lemma builder_ok_New [simp]: "builder_ok NewRWSetBuilder"
  by (simp add: builder_ok_def NewRWSetBuilder_def)

lemma builder_ok_update_pub:
  assumes "builder_ok b" and "\<And>n. nsPub_ok n \<Longrightarrow> pbNamespace n = ns \<Longrightarrow> nsPub_ok (f n) \<and> pbNamespace (f n) = ns"
  shows "builder_ok (update_pub ns f b)"
proof -
  have "nsPub_ok (f (getOrCreateNsPubRwBuilder b ns))" "pbNamespace (f (getOrCreateNsPubRwBuilder b ns)) = ns"
    using assms(2) getOrCreate_ok(1,2) [OF assms(1)] by auto
  with assms(1) show ?thesis
    using ran_mput [of ns "f (getOrCreateNsPubRwBuilder b ns)" "pubRwBuilderMap b"]
    by (auto simp: builder_ok_def update_pub_def)
qed

lemma builder_ok_update_collHash:
  assumes "builder_ok b" and "\<And>c. collHash_ok c \<Longrightarrow> hbCollName c = coll \<Longrightarrow> collHash_ok (f c) \<and> hbCollName (f c) = coll"
  shows "builder_ok (update_collHash ns coll f b)"
  unfolding update_collHash_def
proof (rule builder_ok_update_pub [OF assms(1)])
  fix n
  let ?c = "f (getOrCreateCollHashedRwBuilder b ns coll)"
  assume "nsPub_ok n" "pbNamespace n = ns"
  moreover have "collHash_ok ?c" "hbCollName ?c = coll"
    using assms(2) getOrCreateColl_ok(1,2) [OF assms(1)] by auto
  ultimately show "nsPub_ok (n\<lparr>pbCollHashRwBuilder := mput coll ?c (pbCollHashRwBuilder n)\<rparr>) \<and>
      pbNamespace (n\<lparr>pbCollHashRwBuilder := mput coll ?c (pbCollHashRwBuilder n)\<rparr>) = ns"
    using ran_mput [of coll ?c "pbCollHashRwBuilder n"] by (auto simp: nsPub_ok_def)
qed

lemma builder_ok_update_collPvt:
  assumes "builder_ok b" and "\<And>c. collPvt_ok c \<Longrightarrow> cbCollectionName c = coll \<Longrightarrow> collPvt_ok (f c) \<and> cbCollectionName (f c) = coll"
  shows "builder_ok (update_collPvt ns coll f b)"
proof -
  let ?c = "f (getOrCreateCollPvtRwBuilder b ns coll)" and ?n = "getOrCreateNsPvtRwBuilder b ns"
  let ?n' = "?n\<lparr>vbCollPvtRwBuilders := mput coll ?c (vbCollPvtRwBuilders ?n)\<rparr>"
  have "collPvt_ok ?c" "cbCollectionName ?c = coll"
    using assms(2) getOrCreateColl_ok(3,4) [OF assms(1)] by auto
  moreover have "nsPvt_ok ?n" "vbNamespace ?n = ns"
    using getOrCreate_ok(3,4) [OF assms(1)] by auto
  ultimately have "nsPvt_ok ?n'" "vbNamespace ?n' = ns"
    using ran_mput [of coll ?c "vbCollPvtRwBuilders ?n"] by (auto simp: nsPvt_ok_def)
  with assms(1) show ?thesis
    using ran_mput [of ns ?n' "pvtRwBuilderMap b"] by (auto simp: builder_ok_def update_collPvt_def Let_def)
qed

lemma keys_of_new_values [simp]:
  "krKey (NewKVRead key ver) = key" "kwKey (newKVWrite key value) = key"
  "mwKey (mapToMetadataWrite key m) = key" "kwKey (fst (newPvtKVWriteAndHash hash key value)) = key"
  by (simp_all add: NewKVRead_def newKVWrite_def mapToMetadataWrite_def newPvtKVWriteAndHash_def Let_def)

lemma builder_ok_ops [simp]:
  assumes "builder_ok b"
  shows "builder_ok (AddToReadSet ns key ver b)"
    and "builder_ok (AddToWriteSet ns key value b)"
    and "builder_ok (AddToMetadataWriteSet ns key md b)"
    and "builder_ok (AddToRangeQuerySet ns rqi b)"
    and "builder_ok (AddToHashedReadSet hash ns coll key ver b)"
    and "builder_ok (AddToPvtAndHashedWriteSet hash ns coll key value b)"
    and "builder_ok (AddToPvtAndHashedWriteSetForPurge hash ns coll key b)"
    and "builder_ok (AddToHashedMetadataWriteSet hash ns coll key md b)"
    and "builder_ok (setPvtCollectionHash hash ns coll pvt b)"
proof -
  have k: "newPvtKVWriteAndHash hash key v = (w, h) \<Longrightarrow> kwKey w = key" for v w h
    using keys_of_new_values(4) [of hash key v] by simp
  show "builder_ok (AddToReadSet ns key ver b)" "builder_ok (AddToWriteSet ns key value b)"
    "builder_ok (AddToMetadataWriteSet ns key md b)"
    using assms by (auto simp: AddToReadSet_def AddToWriteSet_def AddToMetadataWriteSet_def nsPub_ok_def
        intro!: builder_ok_update_pub)
  show "builder_ok (AddToRangeQuerySet ns rqi b)"
    using assms unfolding AddToRangeQuerySet_def Let_def
    by (intro builder_ok_update_pub) (auto simp: nsPub_ok_def gomap_simps)
  show "builder_ok (AddToHashedReadSet hash ns coll key ver b)" "builder_ok (setPvtCollectionHash hash ns coll pvt b)"
    using assms by (auto simp: AddToHashedReadSet_def setPvtCollectionHash_def collHash_ok_def
        intro!: builder_ok_update_collHash)
  show "builder_ok (AddToPvtAndHashedWriteSet hash ns coll key value b)"
    "builder_ok (AddToPvtAndHashedWriteSetForPurge hash ns coll key b)"
    "builder_ok (AddToHashedMetadataWriteSet hash ns coll key md b)"
    using assms k
    by (auto simp: AddToPvtAndHashedWriteSet_def AddToPvtAndHashedWriteSetForPurge_def AddToHashedMetadataWriteSet_def
        collHash_ok_def collPvt_ok_def Let_def split: prod.splits
        intro!: builder_ok_update_collHash builder_ok_update_collPvt)
qed

section \<open>What the read-write set records\<close>

text \<open>The calls a simulation makes on the builder.\<close>

datatype builder_op =
    OpRead gostring gostring "Height option"
  | OpWrite gostring gostring bytes
  | OpMetadataWrite gostring gostring "(gostring, bytes) gomap"
  | OpRangeQuery gostring RangeQueryInfo
  | OpHashedRead gostring gostring gostring "Height option"
  | OpPvtWrite gostring gostring gostring bytes
  | OpPvtPurge gostring gostring gostring
  | OpHashedMetadataWrite gostring gostring gostring "(gostring, bytes) gomap"

fun run_op :: "(bytes \<Rightarrow> bytes) \<Rightarrow> builder_op \<Rightarrow> RWSetBuilder \<Rightarrow> RWSetBuilder" where
  "run_op hash (OpRead ns key ver) = AddToReadSet ns key ver"
| "run_op hash (OpWrite ns key value) = AddToWriteSet ns key value"
| "run_op hash (OpMetadataWrite ns key md) = AddToMetadataWriteSet ns key md"
| "run_op hash (OpRangeQuery ns rqi) = AddToRangeQuerySet ns rqi"
| "run_op hash (OpHashedRead ns coll key ver) = AddToHashedReadSet hash ns coll key ver"
| "run_op hash (OpPvtWrite ns coll key value) = AddToPvtAndHashedWriteSet hash ns coll key value"
| "run_op hash (OpPvtPurge ns coll key) = AddToPvtAndHashedWriteSetForPurge hash ns coll key"
| "run_op hash (OpHashedMetadataWrite ns coll key md) = AddToHashedMetadataWriteSet hash ns coll key md"

definition run_ops :: "(bytes \<Rightarrow> bytes) \<Rightarrow> builder_op list \<Rightarrow> RWSetBuilder" where
  "run_ops hash ops = fold (run_op hash) ops NewRWSetBuilder"

text \<open>The last version read and the last value written under a key of a namespace.\<close>

fun read_by :: "gostring \<Rightarrow> gostring \<Rightarrow> builder_op \<Rightarrow> KVRead option" where
  "read_by ns key (OpRead ns' key' ver) = (if ns' = ns \<and> key' = key then Some (NewKVRead key ver) else None)"
| "read_by ns key _ = None"

fun write_by :: "gostring \<Rightarrow> gostring \<Rightarrow> builder_op \<Rightarrow> KVWrite option" where
  "write_by ns key (OpWrite ns' key' value) = (if ns' = ns \<and> key' = key then Some (newKVWrite key value) else None)"
| "write_by ns key _ = None"

fun last_by :: "(builder_op \<Rightarrow> 'a option) \<Rightarrow> builder_op list \<Rightarrow> 'a option" where
  "last_by f [] = None"
| "last_by f (op # ops) = (case last_by f ops of None \<Rightarrow> f op | r \<Rightarrow> r)"

lemma builder_ok_run_op [simp]: "builder_ok b \<Longrightarrow> builder_ok (run_op hash op b)"
  by (cases op) simp_all

lemma builder_ok_run_ops [simp]: "builder_ok (run_ops hash ops)"
proof -
  have "builder_ok b \<Longrightarrow> builder_ok (fold (run_op hash) ops b)" for b
    by (induction ops arbitrary: b) simp_all
  then show ?thesis by (simp add: run_ops_def)
qed

lemma last_by_snoc: "last_by f (ops @ [op]) = (case f op of None \<Rightarrow> last_by f ops | r \<Rightarrow> r)"
  by (induction ops) (auto split: option.splits)

lemma run_ops_snoc: "run_ops hash (ops @ [op]) = run_op hash op (run_ops hash ops)"
  by (simp add: run_ops_def)

lemma getOrCreate_update_pub [simp]:
  "getOrCreateNsPubRwBuilder (update_pub ns f b) ns' =
     (if ns' = ns then f (getOrCreateNsPubRwBuilder b ns) else getOrCreateNsPubRwBuilder b ns')"
  by (simp add: getOrCreateNsPubRwBuilder_def update_pub_def gomap_simps)

lemma getOrCreate_update_collPvt [simp]:
  "getOrCreateNsPubRwBuilder (update_collPvt ns coll f b) ns' = getOrCreateNsPubRwBuilder b ns'"
  by (simp add: getOrCreateNsPubRwBuilder_def update_collPvt_def Let_def)

lemma getOrCreate_update_collHash [simp]:
  "getOrCreateNsPubRwBuilder (update_collHash ns coll f b) ns' =
     (if ns' = ns then (getOrCreateNsPubRwBuilder b ns)\<lparr>pbCollHashRwBuilder :=
        mput coll (f (getOrCreateCollHashedRwBuilder b ns coll)) (pbCollHashRwBuilder (getOrCreateNsPubRwBuilder b ns))\<rparr>
      else getOrCreateNsPubRwBuilder b ns')"
  by (simp add: update_collHash_def)

lemmas builder_op_defs = AddToReadSet_def AddToWriteSet_def AddToMetadataWriteSet_def AddToRangeQuerySet_def
  AddToHashedReadSet_def AddToPvtAndHashedWriteSet_def AddToPvtAndHashedWriteSetForPurge_def
  AddToHashedMetadataWriteSet_def

lemma pub_read_run_op:
  "map_of (pbReadMap (getOrCreateNsPubRwBuilder (run_op hash op b) ns)) key =
     (case read_by ns key op of None \<Rightarrow> map_of (pbReadMap (getOrCreateNsPubRwBuilder b ns)) key | r \<Rightarrow> r)"
  by (cases op) (auto simp: builder_op_defs gomap_simps Let_def split: prod.splits)

lemma pub_write_run_op:
  "map_of (pbWriteMap (getOrCreateNsPubRwBuilder (run_op hash op b) ns)) key =
     (case write_by ns key op of None \<Rightarrow> map_of (pbWriteMap (getOrCreateNsPubRwBuilder b ns)) key | r \<Rightarrow> r)"
  by (cases op) (auto simp: builder_op_defs gomap_simps Let_def split: prod.splits)

lemma pub_New [simp]: "getOrCreateNsPubRwBuilder NewRWSetBuilder ns = newNsPubRwBuilder ns"
  by (simp add: getOrCreateNsPubRwBuilder_def NewRWSetBuilder_def)

lemma pub_maps_run_ops:
  "map_of (pbReadMap (getOrCreateNsPubRwBuilder (run_ops hash ops) ns)) key = last_by (read_by ns key) ops"
  "map_of (pbWriteMap (getOrCreateNsPubRwBuilder (run_ops hash ops) ns)) key = last_by (write_by ns key) ops"
proof (induction ops rule: rev_induct)
  case Nil
  show "map_of (pbReadMap (getOrCreateNsPubRwBuilder (run_ops hash []) ns)) key = last_by (read_by ns key) []"
    and "map_of (pbWriteMap (getOrCreateNsPubRwBuilder (run_ops hash []) ns)) key = last_by (write_by ns key) []"
    by (simp_all add: run_ops_def newNsPubRwBuilder_def)
next
  case (snoc op ops)
  then show "map_of (pbReadMap (getOrCreateNsPubRwBuilder (run_ops hash (ops @ [op])) ns)) key = last_by (read_by ns key) (ops @ [op])"
    and "map_of (pbWriteMap (getOrCreateNsPubRwBuilder (run_ops hash (ops @ [op])) ns)) key = last_by (write_by ns key) (ops @ [op])"
    by (simp_all add: run_ops_snoc pub_read_run_op pub_write_run_op last_by_snoc split: option.split)
qed

text \<open>A namespace of the read-write set is a builder of the map, and conversely.\<close>

lemma mem_GetTxReadWriteSet:
  assumes "builder_ok b"
  shows "(\<exists>n \<in> set (GetTxReadWriteSet b). rwNameSpace n = ns \<and> P n) \<longleftrightarrow>
    map_of (pubRwBuilderMap b) ns \<noteq> None \<and> P (nsPubRwBuilder_build (getOrCreateNsPubRwBuilder b ns))"
proof -
  have k: "keyed pbNamespace (pubRwBuilderMap b)" using assms by (simp add: builder_ok_def)
  show ?thesis
    using keyedD [OF k]
    by (auto simp: GetTxReadWriteSet_def set_GetValuesBySortedKeys getOrCreateNsPubRwBuilder_def ran_def
        nsPubRwBuilder_build_def split: option.splits)
qed

lemma mem_GetTxReadWriteSet_default:
  assumes "builder_ok b" and "\<not> P (nsPubRwBuilder_build (newNsPubRwBuilder ns))"
  shows "(\<exists>n \<in> set (GetTxReadWriteSet b). rwNameSpace n = ns \<and> P n) \<longleftrightarrow>
    P (nsPubRwBuilder_build (getOrCreateNsPubRwBuilder b ns))"
  unfolding mem_GetTxReadWriteSet [OF assms(1)] using assms(2)
  by (auto simp: getOrCreateNsPubRwBuilder_def split: option.splits)

lemma build_new_empty [simp]:
  "Reads (rwKvRwSet (nsPubRwBuilder_build (newNsPubRwBuilder ns))) = []"
  "Writes (rwKvRwSet (nsPubRwBuilder_build (newNsPubRwBuilder ns))) = []"
  by (simp_all add: nsPubRwBuilder_build_def newNsPubRwBuilder_def GetValuesBySortedKeys_def GetSortedKeys_def)

lemma build_sorted:
  assumes "nsPub_ok n"
  shows "sorted_wrt (<) (map krKey (Reads (rwKvRwSet (nsPubRwBuilder_build n))))"
    and "sorted_wrt (<) (map kwKey (Writes (rwKvRwSet (nsPubRwBuilder_build n))))"
  using assms by (auto simp: nsPubRwBuilder_build_def nsPub_ok_def intro: keyed_sorted)

lemma GetTxReadWriteSet_sorted:
  assumes "builder_ok b"
  shows "sorted_wrt (<) (map rwNameSpace (GetTxReadWriteSet b))"
proof -
  have "map rwNameSpace (GetTxReadWriteSet b) = map pbNamespace (GetValuesBySortedKeys (pubRwBuilderMap b))"
    by (simp add: GetTxReadWriteSet_def nsPubRwBuilder_build_def)
  then show ?thesis
    using assms by (simp add: builder_ok_def keyed_sorted)
qed

text \<open>
  C10. The public read-write set of a simulation lists every namespace once and in order, its reads and writes once per
  key and in the order of keys, and holds for a key exactly the last version read and the last value written by the
  calls of the simulation, whatever calls came in between.
\<close>

theorem builder_records_last_accesses:
  fixes hash ops
  defines "t \<equiv> GetTxReadWriteSet (run_ops hash ops)"
  shows "sorted_wrt (<) (map rwNameSpace t) \<and>
    (\<forall>n \<in> set t. sorted_wrt (<) (map krKey (Reads (rwKvRwSet n))) \<and> sorted_wrt (<) (map kwKey (Writes (rwKvRwSet n)))) \<and>
    (\<forall>ns r. (\<exists>n \<in> set t. rwNameSpace n = ns \<and> r \<in> set (Reads (rwKvRwSet n))) \<longleftrightarrow>
      last_by (read_by ns (krKey r)) ops = Some r) \<and>
    (\<forall>ns w. (\<exists>n \<in> set t. rwNameSpace n = ns \<and> w \<in> set (Writes (rwKvRwSet n))) \<longleftrightarrow>
      last_by (write_by ns (kwKey w)) ops = Some w)"
proof (intro conjI allI ballI)
  let ?b = "run_ops hash ops"
  show "sorted_wrt (<) (map rwNameSpace t)"
    unfolding t_def by (rule GetTxReadWriteSet_sorted) simp
  fix n assume "n \<in> set t"
  then obtain m where m: "n = nsPubRwBuilder_build m" "m \<in> ran (map_of (pubRwBuilderMap ?b))"
    by (auto simp: t_def GetTxReadWriteSet_def set_GetValuesBySortedKeys)
  then have "nsPub_ok m"
    using builder_ok_run_ops [of hash ops] unfolding builder_ok_def by blast
  then show "sorted_wrt (<) (map krKey (Reads (rwKvRwSet n)))" "sorted_wrt (<) (map kwKey (Writes (rwKvRwSet n)))"
    unfolding m by (rule build_sorted)+
next
  fix ns r
  let ?n = "getOrCreateNsPubRwBuilder (run_ops hash ops) ns"
  have "keyed krKey (pbReadMap ?n)"
    using getOrCreate_ok(1) [OF builder_ok_run_ops] by (simp add: nsPub_ok_def)
  then show "(\<exists>n \<in> set t. rwNameSpace n = ns \<and> r \<in> set (Reads (rwKvRwSet n))) \<longleftrightarrow>
      last_by (read_by ns (krKey r)) ops = Some r"
    unfolding t_def
    by (subst mem_GetTxReadWriteSet_default)
       (simp_all add: nsPubRwBuilder_build_def [of ?n] keyed_values(2) pub_maps_run_ops)
next
  fix ns w
  let ?n = "getOrCreateNsPubRwBuilder (run_ops hash ops) ns"
  have "keyed kwKey (pbWriteMap ?n)"
    using getOrCreate_ok(1) [OF builder_ok_run_ops] by (simp add: nsPub_ok_def)
  then show "(\<exists>n \<in> set t. rwNameSpace n = ns \<and> w \<in> set (Writes (rwKvRwSet n))) \<longleftrightarrow>
      last_by (write_by ns (kwKey w)) ops = Some w"
    unfolding t_def
    by (subst mem_GetTxReadWriteSet_default)
       (simp_all add: nsPubRwBuilder_build_def [of ?n] keyed_values(2) pub_maps_run_ops)
qed

theorem builder_records_last_accesses_witness:
  "sorted_wrt (<) (map rwNameSpace (GetTxReadWriteSet
     (run_ops id [OpRead ''n2'' ''k'' None, OpWrite ''n1'' ''b'' ''1'', OpWrite ''n1'' ''a'' ''2'', OpWrite ''n1'' ''b'' []]))) \<and>
   GetTxReadWriteSet
     (run_ops id [OpRead ''n2'' ''k'' None, OpWrite ''n1'' ''b'' ''1'', OpWrite ''n1'' ''a'' ''2'', OpWrite ''n1'' ''b'' []]) =
   [\<lparr>rwNameSpace = ''n1'', rwKvRwSet = \<lparr>Reads = [], RangeQueriesInfo = [],
       Writes = [\<lparr>kwKey = ''a'', kwIsDelete = False, kwValue = ''2''\<rparr>, \<lparr>kwKey = ''b'', kwIsDelete = True, kwValue = []\<rparr>],
       MetadataWrites = []\<rparr>, rwCollHashedRwSets = []\<rparr>,
    \<lparr>rwNameSpace = ''n2'', rwKvRwSet = \<lparr>Reads = [\<lparr>krKey = ''k'', krVersion = None\<rparr>], RangeQueriesInfo = [],
       Writes = [], MetadataWrites = []\<rparr>, rwCollHashedRwSets = []\<rparr>]"
  by (rule conjI, rule conjunct1 [OF builder_records_last_accesses]) code_simp

section \<open>Private data and its hashes\<close>

lemma GetPvtDataHash_lookup:
  assumes "distinct (map rwNameSpace t)"
  shows "GetPvtDataHash t ns coll =
    (case map_of (map (\<lambda>n. (rwNameSpace n, n)) t) ns of None \<Rightarrow> [] | Some n \<Rightarrow> getPvtDataHash (rwCollHashedRwSets n) coll)"
  using assms by (induction t) auto

lemma getPvtDataHash_lookup:
  "getPvtDataHash cs coll =
    (case map_of (map (\<lambda>c. (crCollectionName c, c)) cs) coll of None \<Rightarrow> [] | Some c \<Rightarrow> crPvtRwSetHash c)"
  by (induction cs) auto

lemma map_of_keyed_values:
  assumes "keyed key m" and "\<And>v. key' (f v) = key v"
  shows "map_of (map (\<lambda>x. (key' x, x)) (map f (GetValuesBySortedKeys m))) k = map_option f (map_of m k)"
proof -
  let ?l = "map (\<lambda>x. (key' x, x)) (map f (GetValuesBySortedKeys m))"
  have d: "distinct (map fst ?l)"
    using keyed_values(1) [OF assms(1)] distinct_GetSortedKeys [of m] assms
    by (simp add: comp_def keyed_def)
  show ?thesis
  proof (cases "map_of m k")
    case None
    then have "k \<notin> set (map fst ?l)"
      using keyedD [OF assms(1)] by (auto simp: set_GetValuesBySortedKeys ran_def assms(2))
    then have "map_of ?l k = None" by (simp only: map_of_eq_None_iff set_map not_False_eq_True)
    with None show ?thesis by (simp del: map_map)
  next
    case (Some v)
    then have "(k, f v) \<in> set ?l"
      using keyedD [OF assms(1) Some] by (force simp: set_GetValuesBySortedKeys assms(2) intro: ranI)
    with d Some show ?thesis by (simp add: map_of_eq_Some_iff del: map_map set_map)
  qed
qed

lemma GetPvtDataHash_builder:
  assumes "builder_ok b"
  shows "GetPvtDataHash (GetTxReadWriteSet b) ns coll = hbPvtDataHash (getOrCreateCollHashedRwBuilder b ns coll)"
proof -
  have k: "keyed pbNamespace (pubRwBuilderMap b)" using assms by (simp add: builder_ok_def)
  have "distinct (map rwNameSpace (GetTxReadWriteSet b))"
    using GetTxReadWriteSet_sorted [OF assms] by (simp add: strict_sorted_iff)
  then have "GetPvtDataHash (GetTxReadWriteSet b) ns coll =
      (case map_of (pubRwBuilderMap b) ns of None \<Rightarrow> []
       | Some n \<Rightarrow> getPvtDataHash (rwCollHashedRwSets (nsPubRwBuilder_build n)) coll)"
    using map_of_keyed_values [OF k, of rwNameSpace nsPubRwBuilder_build ns]
    by (simp add: GetPvtDataHash_lookup GetTxReadWriteSet_def nsPubRwBuilder_build_def [THEN arg_cong [of _ _ rwNameSpace]]
        split: option.split del: map_map)
  also have "\<dots> = hbPvtDataHash (getOrCreateCollHashedRwBuilder b ns coll)"
  proof (cases "map_of (pubRwBuilderMap b) ns")
    case (Some n)
    then have "nsPub_ok n" using assms by (auto simp: builder_ok_def intro: ranI)
    then have "keyed hbCollName (pbCollHashRwBuilder n)" by (simp add: nsPub_ok_def)
    from map_of_keyed_values [OF this, of crCollectionName collHashRwBuilder_build coll] Some show ?thesis
      by (auto simp: getPvtDataHash_lookup nsPubRwBuilder_build_def collHashRwBuilder_build_def
          getOrCreateCollHashedRwBuilder_def getOrCreateNsPubRwBuilder_def newCollHashRwBuilder_def split: option.splits)
  qed (simp add: getOrCreateCollHashedRwBuilder_def getOrCreateNsPubRwBuilder_def newCollHashRwBuilder_def newNsPubRwBuilder_def)
  finally show ?thesis .
qed

lemma collHashed_setPvt [simp]:
  "hbPvtDataHash (getOrCreateCollHashedRwBuilder (setPvtCollectionHash hash ns coll x b) ns' coll') =
    (if ns' = ns \<and> coll' = coll then hash x else hbPvtDataHash (getOrCreateCollHashedRwBuilder b ns' coll'))"
  by (simp add: getOrCreateCollHashedRwBuilder_def setPvtCollectionHash_def gomap_simps)

text \<open>The collections of a private read-write set message, by namespace and name.\<close>

definition pvt_collections :: "TxPvtReadWriteSet \<Rightarrow> ((gostring \<times> gostring) \<times> bytes) list" where
  "pvt_collections t =
     concat (map (\<lambda>n. map (\<lambda>c. ((npNamespace n, cpCollectionName c), cpRwset c)) (npCollectionPvtRwset n)) (tpNsPvtRwset t))"

lemma setPvtCollectionHashes_flat:
  "setPvtCollectionHashes hash t b = fold (\<lambda>((ns, coll), x). setPvtCollectionHash hash ns coll x) (pvt_collections t) b"
proof -
  have "fold (\<lambda>c. setPvtCollectionHash hash n (cpCollectionName c) (cpRwset c)) cs b =
      fold (\<lambda>((ns, coll), x). setPvtCollectionHash hash ns coll x) (map (\<lambda>c. ((n, cpCollectionName c), cpRwset c)) cs) b" for n cs b
    by (induction cs arbitrary: b) simp_all
  note inner = this
  have "fold (\<lambda>n. fold (\<lambda>c. setPvtCollectionHash hash (npNamespace n) (cpCollectionName c) (cpRwset c)) (npCollectionPvtRwset n)) nss b =
      fold (\<lambda>((ns, coll), x). setPvtCollectionHash hash ns coll x)
        (concat (map (\<lambda>n. map (\<lambda>c. ((npNamespace n, cpCollectionName c), cpRwset c)) (npCollectionPvtRwset n)) nss)) b" for nss b
    by (induction nss arbitrary: b) (simp_all only: list.map concat.simps fold_append fold_simps inner comp_apply)
  then show ?thesis by (simp add: setPvtCollectionHashes_def pvt_collections_def)
qed

lemma fold_setPvt:
  "hbPvtDataHash (getOrCreateCollHashedRwBuilder
      (fold (\<lambda>((ns, coll), x). setPvtCollectionHash hash ns coll x) ts b) ns' coll') =
    (case map_of (rev ts) (ns', coll') of
       None \<Rightarrow> hbPvtDataHash (getOrCreateCollHashedRwBuilder b ns' coll') | Some x \<Rightarrow> hash x)"
  by (induction ts arbitrary: b) (auto simp: map_add_def split: option.splits)

lemma builder_ok_fold_setPvt:
  "builder_ok b \<Longrightarrow> builder_ok (fold (\<lambda>((ns, coll), x). setPvtCollectionHash hash ns coll x) ts b)"
  by (induction ts arbitrary: b) auto

lemma map_npNamespace_ToProtoMsg:
  assumes "mapR (NsPvtRwSet_toProtoMsg cd) ns = Inr ms"
  shows "map (\<lambda>m. (npNamespace m, map cpCollectionName (npCollectionPvtRwset m))) ms =
    map (\<lambda>n. (pnNameSpace n, map pcCollectionName (pnCollPvtRwSets n))) ns"
proof -
  have c: "map cpCollectionName cs' = map pcCollectionName cs" if "mapR (CollPvtRwSet_ToProtoMsg cd) cs = Inr cs'" for cs cs'
    using that
    by (induction cs arbitrary: cs') (auto simp: CollPvtRwSet_ToProtoMsg_def bindR_Inr_iff)
  show ?thesis
    using assms by (induction ns arbitrary: ms) (auto simp: NsPvtRwSet_toProtoMsg_def bindR_Inr_iff dest: c)
qed

lemma distinct_concat_pairs:
  assumes "distinct (map fst l)" and "\<forall>x \<in> set l. distinct (snd x)"
  shows "distinct (concat (map (\<lambda>x. map (Pair (fst x)) (snd x)) l))"
  using assms by (induction l) (auto simp: distinct_map inj_on_def)

lemma pvt_collections_distinct:
  assumes "builder_ok b" and "getTxPvtReadWriteSet b = Some t" and "TxPvtRwSet_ToProtoMsg cd t = Inr m"
  shows "distinct (map fst (pvt_collections m))"
proof -
  let ?f = "\<lambda>m. (npNamespace m, map cpCollectionName (npCollectionPvtRwset m))"
  let ?g = "\<lambda>n. (pnNameSpace n, map pcCollectionName (pnCollPvtRwSets n))"
  have t: "t = map nsPvtRwBuilder_build (GetValuesBySortedKeys (pvtRwBuilderMap b))"
    using assms(2) by (simp add: getTxPvtReadWriteSet_def Let_def split: if_splits)
  have fg: "map ?f (tpNsPvtRwset m) = map ?g t"
    using assms(3) by (auto simp: TxPvtRwSet_ToProtoMsg_def bindR_Inr_iff dest: map_npNamespace_ToProtoMsg)
  have k: "keyed vbNamespace (pvtRwBuilderMap b)" using assms(1) by (simp add: builder_ok_def)
  have "map fst (map ?g t) = map vbNamespace (GetValuesBySortedKeys (pvtRwBuilderMap b))"
    by (simp add: t nsPvtRwBuilder_build_def)
  then have "distinct (map fst (map ?g t))"
    using keyed_sorted [OF k] by (simp add: strict_sorted_iff)
  moreover have "\<forall>x \<in> set (map ?g t). distinct (snd x)"
  proof
    fix x assume "x \<in> set (map ?g t)"
    then obtain n where n: "n \<in> ran (map_of (pvtRwBuilderMap b))" "x = ?g (nsPvtRwBuilder_build n)"
      by (auto simp: t set_GetValuesBySortedKeys)
    then have "keyed cbCollectionName (vbCollPvtRwBuilders n)"
      using assms(1) by (auto simp: builder_ok_def nsPvt_ok_def)
    from keyed_sorted [OF this] show "distinct (snd x)"
      by (simp add: n nsPvtRwBuilder_build_def collPvtRwBuilder_build_def strict_sorted_iff comp_def)
  qed
  ultimately have "distinct (concat (map (\<lambda>x. map (Pair (fst x)) (snd x)) (map ?f (tpNsPvtRwset m))))"
    unfolding fg by (rule distinct_concat_pairs)
  then show ?thesis
    by (simp add: pvt_collections_def map_concat comp_def)
qed

lemma GetTxSimulationResults_pvt_hash:
  assumes "GetTxSimulationResults cd hash b = Inr (res, b')" and "builder_ok b"
    and "PvtSimulationResults res = Some pvt" and "((ns, coll), x) \<in> set (pvt_collections pvt)"
  shows "GetPvtDataHash (GetTxReadWriteSet b') ns coll = hash x"
    and "TxRwSet_toProtoMsg cd (GetTxReadWriteSet b') = Inr (PubSimulationResults res)"
proof -
  obtain t where t: "getTxPvtReadWriteSet b = Some t" "TxPvtRwSet_ToProtoMsg cd t = Inr pvt"
    and b': "b' = setPvtCollectionHashes hash pvt b"
    and pub: "TxRwSet_toProtoMsg cd (GetTxReadWriteSet b') = Inr (PubSimulationResults res)"
    using assms(1,3) by (auto simp: GetTxSimulationResults_def bindR_Inr_iff split: option.splits)
  show "TxRwSet_toProtoMsg cd (GetTxReadWriteSet b') = Inr (PubSimulationResults res)" by (rule pub)
  have "map_of (rev (pvt_collections pvt)) (ns, coll) = Some x"
    using pvt_collections_distinct [OF assms(2) t] assms(4) by (simp add: map_of_eq_Some_iff rev_map [symmetric])
  moreover have "builder_ok b'"
    using assms(2) by (simp add: b' setPvtCollectionHashes_flat builder_ok_fold_setPvt)
  ultimately show "GetPvtDataHash (GetTxReadWriteSet b') ns coll = hash x"
    by (simp add: GetPvtDataHash_builder b' setPvtCollectionHashes_flat fold_setPvt)
qed

text \<open>
  C11. When a simulation produces its results, the public read-write set carries, for every collection with private
  writes, exactly the hash of the serialised private read-write set that is handed out beside it.
\<close>

theorem simulation_results_bind_private_data:
  assumes "GetTxSimulationResults cd hash (run_ops hash ops) = Inr (res, b')"
    and "PvtSimulationResults res = Some pvt"
    and "n \<in> set (tpNsPvtRwset pvt)" and "c \<in> set (npCollectionPvtRwset n)"
  shows "TxRwSet_toProtoMsg cd (GetTxReadWriteSet b') = Inr (PubSimulationResults res) \<and>
    GetPvtDataHash (GetTxReadWriteSet b') (npNamespace n) (cpCollectionName c) = hash (cpRwset c)"
proof -
  have "((npNamespace n, cpCollectionName c), cpRwset c) \<in> set (pvt_collections pvt)"
    using assms(3,4) by (auto simp: pvt_collections_def)
  from GetTxSimulationResults_pvt_hash [OF assms(1) builder_ok_run_ops assms(2) this] show ?thesis by simp
qed

text \<open>Codecs for examples: a message is written as the keys it writes.\<close>

definition sample_codecs :: rwset_codecs where
  "sample_codecs =
     \<lparr>kvRWSet_codec = \<lparr>pMarshal = (\<lambda>kv. Inr (concat (map kwKey (Writes kv)))), pUnmarshal = (\<lambda>_. Inl (Err ''unused''))\<rparr>,
      hashedRWSet_codec = \<lparr>pMarshal = (\<lambda>h. Inr (concat (map whKeyHash (HashedWrites h)))), pUnmarshal = (\<lambda>_. Inl (Err ''unused''))\<rparr>,
      txReadWriteSet_codec = \<lparr>pMarshal = (\<lambda>_. Inr []), pUnmarshal = (\<lambda>_. Inl (Err ''unused''))\<rparr>,
      txPvtReadWriteSet_codec = \<lparr>pMarshal = (\<lambda>_. Inr []), pUnmarshal = (\<lambda>_. Inl (Err ''unused''))\<rparr>\<rparr>"

theorem simulation_results_bind_private_data_witness:
  "\<exists>res b'. GetTxSimulationResults sample_codecs rev
       (run_ops rev [OpPvtWrite ''ns'' ''c1'' ''k'' ''v'', OpWrite ''ns'' ''a'' ''1'', OpPvtPurge ''ns'' ''c2'' ''xy'']) = Inr (res, b') \<and>
     GetPvtDataHash (GetTxReadWriteSet b') ''ns'' ''c2'' = ''yx''"
proof -
  let ?ops = "[OpPvtWrite ''ns'' ''c1'' ''k'' ''v'', OpWrite ''ns'' ''a'' ''1'', OpPvtPurge ''ns'' ''c2'' ''xy'']"
  let ?pvt = "\<lparr>tpDataModel = KV, tpNsPvtRwset = [\<lparr>npNamespace = ''ns'', npCollectionPvtRwset =
      [\<lparr>cpCollectionName = ''c1'', cpRwset = ''k''\<rparr>, \<lparr>cpCollectionName = ''c2'', cpRwset = ''xy''\<rparr>]\<rparr>]\<rparr>"
  have "(case GetTxSimulationResults sample_codecs rev (run_ops rev ?ops) of
      Inl _ \<Rightarrow> False | Inr (res, _) \<Rightarrow> PvtSimulationResults res = Some ?pvt)"
    by code_simp
  then obtain res b' where r: "GetTxSimulationResults sample_codecs rev (run_ops rev ?ops) = Inr (res, b')"
    and p: "PvtSimulationResults res = Some ?pvt"
    by (auto split: sum.splits)
  from simulation_results_bind_private_data [OF r p, of _ "\<lparr>cpCollectionName = ''c2'', cpRwset = ''xy''\<rparr>"] r
  show ?thesis by auto
qed

end
