(* ===== verification/Query_Results_Helper.thy ===== *)
theory Query_Results_Helper
  imports Rwset "HOL-Library.Sublist"
begin

text \<open>
  The incremental Merkle summary of the results of a range query,
  \<open>core/ledger/kvledger/txmgmt/rwsetutil/query_results_helper.go\<close>.

  The tree is the list of its levels from the leaf level up: the entry at index \<open>i\<close> is \<open>m.tree[i+1]\<close> (a level that the
  map does not have is an empty list) and the length of the list is \<open>m.maxLevel\<close>. The hash function and the
  serialisation of reads (\<open>proto.Marshal\<close>) are parameters that may fail.
\<close>

section \<open>The Merkle tree\<close>

record merkleTree =
  mtTree :: "bytes list list"
  mtMaxDegree :: u32

definition newMerkleTree :: "u32 \<Rightarrow> merkleTree result" where
  "newMerkleTree maxDegree =
     (if maxDegree < 2 then Inl (Err ''maxDegree should not be less than 2 in the merkle tree'')
      else Inr \<lparr>mtTree = [[]], mtMaxDegree = maxDegree\<rparr>)"

definition computeCombinedHash :: "(bytes \<Rightarrow> bytes result) \<Rightarrow> bytes list \<Rightarrow> bytes result" where
  "computeCombinedHash hashFunc hashes = hashFunc (concat hashes)"

text \<open>Adding a hash to the lowest of the given levels: a level that exceeds the degree is combined into one hash of
  the next level, and so on upwards.\<close>

fun update_levels :: "(bytes \<Rightarrow> bytes result) \<Rightarrow> u32 \<Rightarrow> bytes list list \<Rightarrow> bytes \<Rightarrow> bytes list list result" where
  "update_levels hashFunc maxDegree [] h = Inr [[h]]"
| "update_levels hashFunc maxDegree (l # ls) h =
     (let currentLevelHashes = l @ [h] in
      if word_of_nat (length currentLevelHashes) \<le> maxDegree then Inr (currentLevelHashes # ls)
      else bindR (computeCombinedHash hashFunc currentLevelHashes) (\<lambda>nextLevelHash.
           bindR (update_levels hashFunc maxDegree ls nextLevelHash) (\<lambda>ls'. Inr ([] # ls'))))"

definition merkleTree_update :: "(bytes \<Rightarrow> bytes result) \<Rightarrow> merkleTree \<Rightarrow> bytes \<Rightarrow> merkleTree result" where
  "merkleTree_update hashFunc m nextLeafLevelHash =
     bindR (update_levels hashFunc (mtMaxDegree m) (mtTree m) nextLeafLevelHash) (\<lambda>t. Inr (m\<lparr>mtTree := t\<rparr>))"

text \<open>The loop of \<open>done\<close> below the maximum level.\<close>

fun done_levels :: "(bytes \<Rightarrow> bytes result) \<Rightarrow> bytes list list \<Rightarrow> bytes list list result" where
  "done_levels hashFunc (l # l2 # ls) =
     (case l of
        [] \<Rightarrow> bindR (done_levels hashFunc (l2 # ls)) (\<lambda>ls'. Inr ([] # ls'))
      | [h] \<Rightarrow> bindR (done_levels hashFunc ((l2 @ [h]) # ls)) (\<lambda>ls'. Inr ([] # ls'))
      | _ \<Rightarrow> bindR (computeCombinedHash hashFunc l) (\<lambda>h.
               bindR (done_levels hashFunc ((l2 @ [h]) # ls)) (\<lambda>ls'. Inr ([] # ls'))))"
| "done_levels hashFunc ls = Inr ls"

definition merkleTree_done :: "(bytes \<Rightarrow> bytes result) \<Rightarrow> merkleTree \<Rightarrow> merkleTree result" where
  "merkleTree_done hashFunc m =
     bindR (done_levels hashFunc (mtTree m)) (\<lambda>t.
     let finalHashes = last t in
     if word_of_nat (length finalHashes) > mtMaxDegree m
     then bindR (computeCombinedHash hashFunc finalHashes) (\<lambda>combinedHash.
            Inr (m\<lparr>mtTree := butlast t @ [[], [combinedHash]]\<rparr>))
     else Inr (m\<lparr>mtTree := t\<rparr>))"

definition getSummery :: "merkleTree \<Rightarrow> QueryReadsMerkleSummary" where
  "getSummery m =
     \<lparr>msMaxDegree = mtMaxDegree m, msMaxLevel = word_of_nat (length (mtTree m)), msMaxLevelHashes = last (mtTree m)\<rparr>"

definition merkleTree_isEmpty :: "merkleTree \<Rightarrow> bool" where
  "merkleTree_isEmpty m \<longleftrightarrow> length (mtTree m) = 1 \<and> length (last (mtTree m)) = 0"

section \<open>The helper\<close>

record RangeQueryResultsHelper =
  rhPendingResults :: "KVRead list"
  rhMt :: "merkleTree option"
  rhMaxDegree :: u32
  rhHashingEnabled :: bool

definition NewRangeQueryResultsHelper :: "bool \<Rightarrow> u32 \<Rightarrow> RangeQueryResultsHelper result" where
  "NewRangeQueryResultsHelper enableHashing maxDegree =
     (let helper = \<lparr>rhPendingResults = [], rhMt = None, rhMaxDegree = maxDegree, rhHashingEnabled = enableHashing\<rparr> in
      if enableHashing then bindR (newMerkleTree maxDegree) (\<lambda>mt. Inr (helper\<lparr>rhMt := Some mt\<rparr>))
      else Inr helper)"

definition processPendingResults ::
  "(KVRead list \<Rightarrow> bytes result) \<Rightarrow> (bytes \<Rightarrow> bytes result) \<Rightarrow> RangeQueryResultsHelper \<Rightarrow> RangeQueryResultsHelper result" where
  "processPendingResults serializeKVReads hashFunc helper =
     bindR (serializeKVReads (rhPendingResults helper)) (\<lambda>b.
     bindR (hashFunc b) (\<lambda>hash.
     case rhMt helper of
       None \<Rightarrow> Inl (Panic ''nil merkle tree'')
     | Some mt \<Rightarrow>
         bindR (merkleTree_update hashFunc mt hash) (\<lambda>mt'.
           Inr (helper\<lparr>rhPendingResults := [], rhMt := Some mt'\<rparr>))))"

definition AddResult ::
  "(KVRead list \<Rightarrow> bytes result) \<Rightarrow> (bytes \<Rightarrow> bytes result) \<Rightarrow> KVRead \<Rightarrow> RangeQueryResultsHelper \<Rightarrow>
   RangeQueryResultsHelper result" where
  "AddResult serializeKVReads hashFunc kvRead helper =
     (let helper1 = helper\<lparr>rhPendingResults := rhPendingResults helper @ [kvRead]\<rparr> in
      if rhHashingEnabled helper1 \<and> word_of_nat (length (rhPendingResults helper1)) > rhMaxDegree helper1
      then processPendingResults serializeKVReads hashFunc helper1
      else Inr helper1)"

definition RangeQueryResultsHelper_Done ::
  "(KVRead list \<Rightarrow> bytes result) \<Rightarrow> (bytes \<Rightarrow> bytes result) \<Rightarrow> RangeQueryResultsHelper \<Rightarrow>
   (KVRead list \<times> QueryReadsMerkleSummary option) result" where
  "RangeQueryResultsHelper_Done serializeKVReads hashFunc helper =
     (if \<not> rhHashingEnabled helper then Inr (rhPendingResults helper, None)
      else case rhMt helper of
        None \<Rightarrow> Inl (Panic ''nil merkle tree'')
      | Some mt \<Rightarrow>
          if merkleTree_isEmpty mt then Inr (rhPendingResults helper, None)
          else bindR (if length (rhPendingResults helper) \<noteq> 0
                      then processPendingResults serializeKVReads hashFunc helper else Inr helper) (\<lambda>helper1.
               case rhMt helper1 of
                 None \<Rightarrow> Inl (Panic ''nil merkle tree'')
               | Some mt1 \<Rightarrow>
                   bindR (merkleTree_done hashFunc mt1) (\<lambda>mt2.
                     Inr (rhPendingResults helper1, Some (getSummery mt2)))))"

definition GetMerkleSummary :: "RangeQueryResultsHelper \<Rightarrow> QueryReadsMerkleSummary option result" where
  "GetMerkleSummary helper =
     (if \<not> rhHashingEnabled helper then Inr None
      else case rhMt helper of
        None \<Rightarrow> Inl (Panic ''nil merkle tree'')
      | Some mt \<Rightarrow> Inr (Some (getSummery mt)))"

section \<open>How the tree grows\<close>

text \<open>A tree grows into another: it gains levels, or its top level is extended.\<close>

definition grows :: "bytes list list \<Rightarrow> bytes list list \<Rightarrow> bool" where
  "grows t t' \<longleftrightarrow> t \<noteq> [] \<and> t' \<noteq> [] \<and> (length t < length t' \<or> length t = length t' \<and> prefix (last t) (last t'))"

lemma grows_refl: "t \<noteq> [] \<Longrightarrow> grows t t"
  by (simp add: grows_def)

lemma grows_trans: "grows t u \<Longrightarrow> grows u v \<Longrightarrow> grows t v"
  by (auto simp: grows_def intro: prefix_order.trans)

lemma grows_Cons: "grows t t' \<Longrightarrow> grows (l # t) (l' # t')"
  by (auto simp: grows_def)

text \<open>One hash more: the top level stays, gains one hash, or is replaced by a single hash one level higher; in the last
  case it had as many hashes as the degree allows.\<close>

lemma update_levels_cases:
  assumes "update_levels hashFunc d t h = Inr t'"
  shows "(length t' = length t \<and> t' \<noteq> [] \<and> last t' = last t) \<or>
    (length t' = length t \<and> t' \<noteq> [] \<and> (\<exists>x. last t' = last t @ [x])) \<or>
    (length t' = Suc (length t) \<and> (\<exists>x. last t' = [x]) \<and>
     (t \<noteq> [] \<longrightarrow> d < word_of_nat (Suc (length (last t)))))"
  using assms
proof (induction hashFunc d t h arbitrary: t' rule: update_levels.induct)
  case (2 hashFunc d l ls h)
  show ?case
  proof (cases "(word_of_nat (length (l @ [h])) :: u32) \<le> d")
    case True
    with "2.prems" have "t' = (l @ [h]) # ls" by simp
    then show ?thesis by (cases ls) auto
  next
    case False
    with "2.prems" obtain nh ls' where nh: "computeCombinedHash hashFunc (l @ [h]) = Inr nh"
      and ls': "update_levels hashFunc d ls nh = Inr ls'" and t': "t' = [] # ls'"
      by (auto simp: Let_def bindR_Inr_iff)
    from "2.IH" [OF refl False nh ls']
    have *: "(length ls' = length ls \<and> ls' \<noteq> [] \<and> last ls' = last ls) \<or>
        (length ls' = length ls \<and> ls' \<noteq> [] \<and> (\<exists>x. last ls' = last ls @ [x])) \<or>
        (length ls' = Suc (length ls) \<and> (\<exists>x. last ls' = [x]) \<and> (ls \<noteq> [] \<longrightarrow> d < word_of_nat (Suc (length (last ls)))))"
      by simp
    with False t' show ?thesis
      by (cases ls) (auto simp: not_le)
  qed
qed auto

lemma update_levels_grows:
  assumes "update_levels hashFunc d t h = Inr t'" and "t \<noteq> []"
  shows "grows t t'"
  using update_levels_cases [OF assms(1)] assms(2) by (auto simp: grows_def)

lemma update_levels_length: "update_levels hashFunc d t h = Inr t' \<Longrightarrow> length t' \<le> Suc (length t)"
  using update_levels_cases [of hashFunc d t h t'] by auto

lemma done_levels_grows:
  "done_levels hashFunc t = Inr t' \<Longrightarrow> t \<noteq> [] \<Longrightarrow> grows t t' \<and> length t' = length t"
proof (induction hashFunc t arbitrary: t' rule: done_levels.induct)
  case (1 hashFunc l l2 ls)
  have step: "grows (l # l2 # ls) t' \<and> length t' = length (l # l2 # ls)"
    if "grows (l2' # ls) u \<and> length u = length (l2 # ls)" "t' = [] # u" "prefix l2 l2'" for u l2'
  proof -
    have "grows (l2 # ls) (l2' # ls)" using that(3) by (auto simp: grows_def)
    with that show ?thesis by (auto intro: grows_Cons grows_trans)
  qed
  show ?case
  proof (cases l)
    case Nil
    with 1 show ?thesis by (auto simp: bindR_Inr_iff intro: grows_Cons)
  next
    case (Cons h hs)
    then show ?thesis
    proof (cases hs)
      case Nil
      with Cons 1 obtain u where "done_levels hashFunc ((l2 @ [h]) # ls) = Inr u" "t' = [] # u"
        by (auto simp: bindR_Inr_iff)
      with Cons Nil 1 show ?thesis by (intro step [of "l2 @ [h]"]) auto
    next
      case (Cons h2 hs2)
      with \<open>l = h # hs\<close> "1.prems" obtain c u where "done_levels hashFunc ((l2 @ [c]) # ls) = Inr u" "t' = [] # u"
        "computeCombinedHash hashFunc l = Inr c"
        by (auto simp: bindR_Inr_iff)
      with Cons \<open>l = h # hs\<close> 1 show ?thesis by (intro step [of "l2 @ [c]"]) auto
    qed
  qed
qed (auto simp: grows_refl)

lemma merkleTree_done_grows:
  assumes "merkleTree_done hashFunc m = Inr m'" and "mtTree m \<noteq> []"
  shows "grows (mtTree m) (mtTree m') \<and> mtMaxDegree m' = mtMaxDegree m \<and> length (mtTree m') \<le> Suc (length (mtTree m))"
proof -
  obtain t where t: "done_levels hashFunc (mtTree m) = Inr t"
    using assms(1) by (auto simp: merkleTree_done_def bindR_Inr_iff)
  from done_levels_grows [OF t assms(2)] have g: "grows (mtTree m) t" "length t = length (mtTree m)" by auto
  then show ?thesis
    using assms t by (auto simp: merkleTree_done_def bindR_Inr_iff grows_def Let_def split: if_splits)
qed

section \<open>The helper with hashing enabled\<close>

definition helper_ok :: "RangeQueryResultsHelper \<Rightarrow> bool" where
  "helper_ok helper \<longleftrightarrow> rhHashingEnabled helper \<and>
     (\<exists>mt. rhMt helper = Some mt \<and> mtTree mt \<noteq> [] \<and> mtMaxDegree mt = rhMaxDegree helper)"

abbreviation helper_tree :: "RangeQueryResultsHelper \<Rightarrow> bytes list list" where
  "helper_tree helper \<equiv> mtTree (the (rhMt helper))"

lemma GetMerkleSummary_ok:
  "helper_ok helper \<Longrightarrow> GetMerkleSummary helper =
    Inr (Some \<lparr>msMaxDegree = rhMaxDegree helper, msMaxLevel = word_of_nat (length (helper_tree helper)),
               msMaxLevelHashes = last (helper_tree helper)\<rparr>)"
  by (auto simp: helper_ok_def GetMerkleSummary_def getSummery_def)

lemma processPendingResults_ok:
  assumes "helper_ok helper" and "processPendingResults ser hash helper = Inr helper'"
  shows "helper_ok helper' \<and> rhMaxDegree helper' = rhMaxDegree helper \<and>
    (\<exists>x. update_levels hash (rhMaxDegree helper) (helper_tree helper) x = Inr (helper_tree helper'))"
proof -
  obtain mt where mt: "rhMt helper = Some mt" "mtTree mt \<noteq> []" "mtMaxDegree mt = rhMaxDegree helper" "rhHashingEnabled helper"
    using assms(1) by (auto simp: helper_ok_def)
  with assms(2) obtain x t where t: "update_levels hash (rhMaxDegree helper) (mtTree mt) x = Inr t"
    and h': "helper' = helper\<lparr>rhPendingResults := [], rhMt := Some (mt\<lparr>mtTree := t\<rparr>)\<rparr>"
    by (auto simp: processPendingResults_def merkleTree_update_def bindR_Inr_iff)
  have "t \<noteq> []" using update_levels_grows [OF t mt(2)] by (simp add: grows_def)
  with mt t show ?thesis by (auto simp: h' helper_ok_def)
qed

lemma AddResult_ok:
  assumes "helper_ok helper" and "AddResult ser hash r helper = Inr helper'"
  shows "helper_ok helper' \<and> rhMaxDegree helper' = rhMaxDegree helper \<and>
    (helper_tree helper' = helper_tree helper \<or>
     (\<exists>x. update_levels hash (rhMaxDegree helper) (helper_tree helper) x = Inr (helper_tree helper')))"
proof -
  define h where "h = helper\<lparr>rhPendingResults := rhPendingResults helper @ [r]\<rparr>"
  have ok: "helper_ok h" "rhMaxDegree h = rhMaxDegree helper" "rhMt h = rhMt helper"
    using assms(1) by (simp_all add: helper_ok_def h_def)
  let ?c = "rhHashingEnabled h \<and> word_of_nat (length (rhPendingResults h)) > rhMaxDegree h"
  have eq: "(if ?c then processPendingResults ser hash h else Inr h) = Inr helper'"
    using assms(2) by (simp only: AddResult_def Let_def h_def)
  show ?thesis
  proof (cases ?c)
    case True
    from processPendingResults_ok [OF ok(1) eq [unfolded if_P [OF True]]] show ?thesis
      unfolding ok(2,3) by blast
  next
    case False
    from eq [unfolded if_not_P [OF False]] have "helper' = h" by (simp only: sum.inject)
    with ok show ?thesis by simp
  qed
qed

lemma AddResult_grows:
  assumes "helper_ok helper" and "AddResult ser hash r helper = Inr helper'"
  shows "grows (helper_tree helper) (helper_tree helper') \<and>
    length (helper_tree helper') \<le> Suc (length (helper_tree helper))"
proof -
  have ne: "helper_tree helper \<noteq> []" using assms(1) by (auto simp: helper_ok_def)
  from AddResult_ok [OF assms] consider "helper_tree helper' = helper_tree helper"
    | x where "update_levels hash (rhMaxDegree helper) (helper_tree helper) x = Inr (helper_tree helper')" by blast
  then show ?thesis
  proof cases
    case 1
    with ne show ?thesis by (simp add: grows_refl)
  next
    case 2
    from update_levels_grows [OF 2 ne] update_levels_length [OF 2] show ?thesis by simp
  qed
qed

lemma Done_grows:
  assumes "helper_ok helper" and "RangeQueryResultsHelper_Done ser hash helper = Inr (rs, Some ms)"
  obtains t where "grows (helper_tree helper) t" and "length t \<le> Suc (Suc (length (helper_tree helper)))"
    and "ms = \<lparr>msMaxDegree = rhMaxDegree helper, msMaxLevel = word_of_nat (length t), msMaxLevelHashes = last t\<rparr>"
proof -
  obtain mt where mt: "rhMt helper = Some mt" "mtTree mt \<noteq> []" "mtMaxDegree mt = rhMaxDegree helper"
    using assms(1) by (auto simp: helper_ok_def)
  obtain helper1 mt1 mt2 where h1: "(if length (rhPendingResults helper) \<noteq> 0
        then processPendingResults ser hash helper else Inr helper) = Inr helper1"
    and mt1: "rhMt helper1 = Some mt1" and mt2: "merkleTree_done hash mt1 = Inr mt2" and ms: "ms = getSummery mt2"
    using assms mt by (auto simp: RangeQueryResultsHelper_Done_def helper_ok_def bindR_Inr_iff split: if_splits option.splits)
  have "helper_ok helper1 \<and> rhMaxDegree helper1 = rhMaxDegree helper \<and>
      grows (helper_tree helper) (helper_tree helper1) \<and> length (helper_tree helper1) \<le> Suc (length (helper_tree helper))"
  proof (cases "rhPendingResults helper = []")
    case True
    with h1 mt assms(1) show ?thesis by (auto simp: grows_refl)
  next
    case False
    with h1 have "processPendingResults ser hash helper = Inr helper1" by simp
    from processPendingResults_ok [OF assms(1) this] obtain x where
      x: "update_levels hash (rhMaxDegree helper) (helper_tree helper) x = Inr (helper_tree helper1)"
      and "helper_ok helper1" "rhMaxDegree helper1 = rhMaxDegree helper" by blast
    with mt update_levels_grows [OF x] update_levels_length [OF x] show ?thesis by simp
  qed
  moreover have "mtTree mt1 \<noteq> []" "mtMaxDegree mt1 = rhMaxDegree helper"
    using calculation mt1 by (auto simp: helper_ok_def)
  ultimately show thesis
    using merkleTree_done_grows [OF mt2] mt1 ms
    by (intro that [of "mtTree mt2"]) (auto simp: getSummery_def intro: grows_trans)
qed

subsection \<open>With a hash function that never fails, neither does the helper\<close>

definition never_fails :: "('a \<Rightarrow> 'b result) \<Rightarrow> bool" where
  "never_fails f \<longleftrightarrow> (\<forall>x. \<exists>y. f x = Inr y)"

lemma never_failsE: "never_fails f \<Longrightarrow> (\<And>y. f x = Inr y \<Longrightarrow> thesis) \<Longrightarrow> thesis"
  by (auto simp: never_fails_def)

lemma computeCombinedHash_total: "never_fails hash \<Longrightarrow> \<exists>y. computeCombinedHash hash hs = Inr y"
  by (simp add: never_fails_def computeCombinedHash_def)

lemma update_levels_total:
  assumes "never_fails hash"
  shows "\<exists>t'. update_levels hash d t h = Inr t'"
proof (induction t arbitrary: h)
  case (Cons l ls)
  obtain nh where "computeCombinedHash hash (l @ [h]) = Inr nh"
    using computeCombinedHash_total [OF assms] by blast
  with Cons [of nh] show ?case by (auto simp: Let_def)
qed simp

lemma done_levels_total:
  assumes "never_fails hash"
  shows "\<exists>t'. done_levels hash t = Inr t'"
  using assms
proof (induction hash t rule: done_levels.induct)
  case (1 hashFunc l l2 ls)
  from "1.prems" obtain c where c: "computeCombinedHash hashFunc l = Inr c"
    using computeCombinedHash_total by blast
  show ?case
  proof (cases l)
    case (Cons h hs)
    with 1 c show ?thesis by (cases hs) fastforce+
  qed (use 1 in auto)
qed auto

lemma processPendingResults_total:
  assumes "helper_ok helper" and hash: "never_fails hash" and ser: "never_fails ser"
  shows "\<exists>helper'. processPendingResults ser hash helper = Inr helper'"
proof -
  obtain mt where mt: "rhMt helper = Some mt" using assms(1) by (auto simp: helper_ok_def)
  obtain b where b: "ser (rhPendingResults helper) = Inr b" using ser by (rule never_failsE)
  obtain h where h: "hash b = Inr h" using hash by (rule never_failsE)
  obtain t where "update_levels hash (mtMaxDegree mt) (mtTree mt) h = Inr t"
    using update_levels_total [OF hash] by blast
  with mt b h show ?thesis by (simp add: processPendingResults_def merkleTree_update_def)
qed

lemma AddResult_total:
  assumes "helper_ok helper" and hash: "never_fails hash" and ser: "never_fails ser"
  shows "\<exists>helper'. AddResult ser hash r helper = Inr helper'"
proof -
  have "helper_ok (helper\<lparr>rhPendingResults := rhPendingResults helper @ [r]\<rparr>)"
    using assms(1) by (simp add: helper_ok_def)
  from processPendingResults_total [OF this hash ser] show ?thesis
    by (auto simp: AddResult_def Let_def)
qed

lemma merkleTree_done_total:
  assumes "never_fails hash"
  shows "\<exists>m'. merkleTree_done hash m = Inr m'"
proof -
  obtain t where t: "done_levels hash (mtTree m) = Inr t" using done_levels_total [OF assms] by blast
  obtain c where "computeCombinedHash hash (last t) = Inr c"
    using computeCombinedHash_total [OF assms] by blast
  with t show ?thesis by (simp add: merkleTree_done_def Let_def)
qed

lemma Done_total:
  assumes "helper_ok helper" and hash: "never_fails hash" and ser: "never_fails ser"
  shows "\<exists>rs ms. RangeQueryResultsHelper_Done ser hash helper = Inr (rs, ms)"
proof -
  obtain mt where mt: "rhMt helper = Some mt" "rhHashingEnabled helper" using assms(1) by (auto simp: helper_ok_def)
  obtain helper1 where h1: "(if length (rhPendingResults helper) \<noteq> 0
      then processPendingResults ser hash helper else Inr helper) = Inr helper1" and ok1: "helper_ok helper1"
  proof (cases "rhPendingResults helper = []")
    case True
    with assms(1) that show thesis by simp
  next
    case False
    obtain h where "processPendingResults ser hash helper = Inr h"
      using processPendingResults_total [OF assms] by blast
    with False that [of h] processPendingResults_ok [OF assms(1)] show thesis by simp
  qed
  then obtain mt1 where "rhMt helper1 = Some mt1" by (auto simp: helper_ok_def)
  moreover obtain mt2 where "merkleTree_done hash mt1 = Inr mt2" using merkleTree_done_total [OF hash] by blast
  ultimately show ?thesis
    using mt h1 by (simp add: RangeQueryResultsHelper_Done_def)
qed

lemma NewHelper_ok:
  "2 \<le> d \<Longrightarrow> \<exists>helper. NewRangeQueryResultsHelper True d = Inr helper \<and> helper_ok helper \<and>
     rhMaxDegree helper = d \<and> helper_tree helper = [[]]"
  by (simp add: NewRangeQueryResultsHelper_def newMerkleTree_def helper_ok_def not_less)

end
