(* ===== verification/Combined_Iterator.thy ===== *)
theory Combined_Iterator
  imports Statedb
begin

text \<open>
  The iterator that phantom-read validation runs over a key range: the committed database and the updates of
  the preceding valid transactions of the block, merged key by key
  (\<open>core/ledger/kvledger/txmgmt/validation/combined_iterator.go\<close>).
\<close>

section \<open>The iterator\<close>

record combinedIterator =
  ciNs :: gostring
  ciDb :: VersionedDB
  ciUpdates :: UpdateBatch
  ciEndKey :: gostring
  ciIncludeEndKey :: bool
  ciDbItr :: ResultsIterator
  ciUpdatesItr :: nsIterator
  ciDbItem :: "VersionedKV option"
  ciUpdatesItem :: "VersionedKV option"
  ciEndKeyServed :: bool

definition newCombinedIterator ::
  "VersionedDB \<Rightarrow> UpdateBatch \<Rightarrow> gostring \<Rightarrow> gostring \<Rightarrow> gostring \<Rightarrow> bool \<Rightarrow> combinedIterator result" where
  "newCombinedIterator db updates ns startKey endKey includeEndKey =
     bindR (db_GetStateRangeScanIterator db ns startKey endKey) (\<lambda>dbItr0.
     let updatesItr0 = GetRangeScanIterator updates ns startKey endKey in
     bindR (ResultsIterator_Next dbItr0) (\<lambda>(dbItem, dbItr).
     let (updatesItem, updatesItr) = nsIterator_Next updatesItr0 in
       Inr \<lparr>ciNs = ns, ciDb = db, ciUpdates = updates, ciEndKey = endKey,
            ciIncludeEndKey = includeEndKey, ciDbItr = dbItr, ciUpdatesItr = updatesItr,
            ciDbItem = dbItem, ciUpdatesItem = updatesItem, ciEndKeyServed = False\<rparr>))"

definition strings_Compare :: "gostring \<Rightarrow> gostring \<Rightarrow> int" where
  "strings_Compare a b = (if a < b then -1 else if a = b then 0 else 1)"

fun compareKeys :: "VersionedKV option \<Rightarrow> VersionedKV option \<Rightarrow> int" where
  "compareKeys None None = 0"
| "compareKeys None (Some item2) = 1"
| "compareKeys (Some item1) None = -1"
| "compareKeys (Some item1) (Some item2) = strings_Compare (ckKey item1) (ckKey item2)"

definition isDelete :: "VersionedKV \<Rightarrow> bool" where
  "isDelete item \<longleftrightarrow> vvValue (kvVal item) = None"

definition serveEndKeyIfNeeded :: "combinedIterator \<Rightarrow> (VersionedKV option \<times> combinedIterator) result" where
  "serveEndKeyIfNeeded itr =
     (if \<not> ciIncludeEndKey itr \<or> ciEndKeyServed itr then Inr (None, itr)
      else
        bindR (case UpdateBatch_Get (ciUpdates itr) (ciNs itr) (ciEndKey itr) of
                 None \<Rightarrow> db_GetState (ciDb itr) (ciNs itr) (ciEndKey itr)
               | Some vv \<Rightarrow> Inr (Some vv))
          (\<lambda>vv. let itr' = itr\<lparr>ciEndKeyServed := True\<rparr> in
             case vv of
               None \<Rightarrow> Inr (None, itr')
             | Some vv \<Rightarrow>
                 (let vkv = \<lparr>ckNamespace = ciNs itr, ckKey = ciEndKey itr,
                             kvVal = \<lparr>vvValue = vvValue vv, vvMetadata = None, vvVersion = vvVersion vv\<rparr>\<rparr>
                  in if isDelete vkv then Inr (None, itr') else Inr (Some vkv, itr'))))"

definition ci_moveDBItr :: "combinedIterator \<Rightarrow> combinedIterator result" where
  "ci_moveDBItr itr =
     bindR (ResultsIterator_Next (ciDbItr itr)) (\<lambda>(item, r). Inr (itr\<lparr>ciDbItem := item, ciDbItr := r\<rparr>))"

definition ci_moveUpdatesItr :: "combinedIterator \<Rightarrow> combinedIterator" where
  "ci_moveUpdatesItr itr =
     (case nsIterator_Next (ciUpdatesItr itr) of (item, r) \<Rightarrow> itr\<lparr>ciUpdatesItem := item, ciUpdatesItr := r\<rparr>)"

text \<open>How many items the two iterators can still deliver, and whether the end key may still be served.\<close>

definition ci_pending :: "combinedIterator \<Rightarrow> nat" where
  "ci_pending itr =
     (if ciDbItem itr = None then 0 else Suc (length (ciDbItr itr))) +
     (if ciUpdatesItem itr = None then 0
      else Suc (itLastIndex (ciUpdatesItr itr) - itNextIndex (ciUpdatesItr itr)))"

definition ci_measure :: "combinedIterator \<Rightarrow> nat" where
  "ci_measure itr = ci_pending itr + (if ciIncludeEndKey itr \<and> \<not> ciEndKeyServed itr then 1 else 0)"

lemma ci_moveDBItr_pending:
  "ciDbItem itr \<noteq> None \<Longrightarrow> ci_moveDBItr itr = Inr itr' \<Longrightarrow>
   ci_pending itr' < ci_pending itr \<and> ciUpdatesItem itr' = ciUpdatesItem itr"
  by (cases "ciDbItr itr" rule: ResultsIterator_Next.cases)
     (auto simp: ci_moveDBItr_def ci_pending_def)

lemma ci_moveUpdatesItr_pending:
  "ciUpdatesItem itr \<noteq> None \<Longrightarrow> ci_pending (ci_moveUpdatesItr itr) < ci_pending itr"
  by (auto simp: ci_moveUpdatesItr_def ci_pending_def nsIterator_Next_def Let_def)

text \<open>One pass of \<open>Next\<close>: choose the smaller key (the batch's entry when both have it), move past it.\<close>

definition ci_select :: "combinedIterator \<Rightarrow> VersionedKV option \<times> bool \<times> bool" where
  "ci_select itr =
     (let compResult = compareKeys (ciDbItem itr) (ciUpdatesItem itr) in
      if compResult = -1 then (ciDbItem itr, True, False)
      else if compResult = 0 then (ciUpdatesItem itr, True, True)
      else (ciUpdatesItem itr, False, True))"

definition ci_step :: "combinedIterator \<Rightarrow> (VersionedKV option \<times> combinedIterator) result" where
  "ci_step itr =
     (let (selectedItem, moveDBItr, moveUpdatesItr) = ci_select itr in
      bindR (if moveDBItr then ci_moveDBItr itr else Inr itr)
        (\<lambda>itr1. Inr (selectedItem, if moveUpdatesItr then ci_moveUpdatesItr itr1 else itr1)))"

lemma ci_step_pending:
  assumes "ciDbItem itr \<noteq> None \<or> ciUpdatesItem itr \<noteq> None" and "ci_step itr = Inr (sel, itr')"
  shows "ci_pending itr' < ci_pending itr"
proof (cases "ciDbItem itr")
  case None
  with assms obtain u where u: "ciUpdatesItem itr = Some u" by auto
  with None assms(2) have "itr' = ci_moveUpdatesItr itr"
    by (auto simp: ci_step_def ci_select_def)
  with u show ?thesis by (simp add: ci_moveUpdatesItr_pending)
next
  case (Some d)
  show ?thesis
  proof (cases "ciUpdatesItem itr")
    case None
    with Some assms(2) have "ci_moveDBItr itr = Inr itr'"
      by (auto simp: ci_step_def ci_select_def bindR_Inr_iff)
    with Some show ?thesis by (simp add: ci_moveDBItr_pending)
  next
    case u: (Some u)
    consider "ci_moveDBItr itr = Inr itr'"
      | "itr' = ci_moveUpdatesItr itr"
      | itr1 where "ci_moveDBItr itr = Inr itr1" "itr' = ci_moveUpdatesItr itr1"
      using Some u assms(2)
      by (auto simp: ci_step_def ci_select_def bindR_Inr_iff Let_def split: if_splits)
    then show ?thesis
    proof cases
      case 3
      with Some u show ?thesis
        using ci_moveDBItr_pending [of itr itr1] ci_moveUpdatesItr_pending [of itr1] by auto
    qed (use Some u in \<open>simp_all add: ci_moveDBItr_pending ci_moveUpdatesItr_pending\<close>)
  qed
qed

function combinedIterator_Next :: "combinedIterator \<Rightarrow> (VersionedKV option \<times> combinedIterator) result" where
  "combinedIterator_Next itr =
     (if ciDbItem itr = None \<and> ciUpdatesItem itr = None then serveEndKeyIfNeeded itr
      else bindR (ci_step itr) (\<lambda>(selectedItem, itr').
             if isDelete (the selectedItem) then combinedIterator_Next itr' else Inr (selectedItem, itr')))"
  by pat_completeness auto
termination
  by (relation "measure ci_pending") (auto intro: ci_step_pending)

declare combinedIterator_Next.simps [simp del]

section \<open>The iterator as the sequence of its results\<close>

lemma ci_step_flags:
  "ci_step itr = Inr (sel, itr') \<Longrightarrow>
   ciIncludeEndKey itr' = ciIncludeEndKey itr \<and> ciEndKeyServed itr' = ciEndKeyServed itr \<and>
   ciNs itr' = ciNs itr \<and> ciDb itr' = ciDb itr \<and> ciUpdates itr' = ciUpdates itr \<and> ciEndKey itr' = ciEndKey itr"
  by (auto simp: ci_step_def ci_moveDBItr_def ci_moveUpdatesItr_def bindR_Inr_iff
      split: prod.splits if_splits)

lemma serveEndKey_measure:
  "serveEndKeyIfNeeded itr = Inr (Some kv, itr') \<Longrightarrow> ci_measure itr' < ci_measure itr"
  by (auto simp: serveEndKeyIfNeeded_def ci_measure_def ci_pending_def bindR_Inr_iff Let_def
      split: if_splits option.splits)

lemma Next_measure:
  "combinedIterator_Next itr = Inr (Some kv, itr') \<Longrightarrow> ci_measure itr' < ci_measure itr"
proof (induction itr rule: combinedIterator_Next.induct)
  case (1 itr)
  show ?case
  proof (cases "ciDbItem itr = None \<and> ciUpdatesItem itr = None")
    case True
    with 1 show ?thesis
      by (auto simp: combinedIterator_Next.simps [of itr] intro: serveEndKey_measure)
  next
    case False
    with "1.prems" obtain sel u where u: "ci_step itr = Inr (sel, u)"
      and n: "(if isDelete (the sel) then combinedIterator_Next u else Inr (sel, u)) = Inr (Some kv, itr')"
      by (auto simp: combinedIterator_Next.simps [of itr] bindR_Inr_iff)
    have "ci_pending u < ci_pending itr"
      using False u by (auto intro: ci_step_pending)
    then have "ci_measure u < ci_measure itr"
      using ci_step_flags [OF u] by (simp add: ci_measure_def)
    with "1.IH" [OF False u refl] n show ?thesis
      by (auto split: if_splits)
  qed
qed

text \<open>The values that successive calls of \<open>Next\<close> return.\<close>

function combinedIterator_results :: "combinedIterator \<Rightarrow> ResultsIterator" where
  "combinedIterator_results itr =
     (case combinedIterator_Next itr of
        Inl e \<Rightarrow> [Inl e]
      | Inr (item, itr') \<Rightarrow> (case item of None \<Rightarrow> [] | Some kv \<Rightarrow> Inr kv # combinedIterator_results itr'))"
  by pat_completeness auto
termination
  by (relation "measure ci_measure") (auto intro: Next_measure)

declare combinedIterator_results.simps [simp del]

section \<open>Correctness\<close>

text \<open>Merging two sorted lists of entries, the second taking precedence.\<close>

fun merge_kvs :: "VersionedKV list \<Rightarrow> VersionedKV list \<Rightarrow> VersionedKV list" where
  "merge_kvs [] us = us"
| "merge_kvs ds [] = ds"
| "merge_kvs (d # ds) (u # us) =
     (if ckKey d < ckKey u then d # merge_kvs ds (u # us)
      else if ckKey d = ckKey u then u # merge_kvs ds us
      else u # merge_kvs (d # ds) us)"

lemma merge_kvs_Nil2 [simp]: "merge_kvs ds [] = ds"
  by (cases ds) simp_all

text \<open>The two sequences of entries an iterator still has to go through.\<close>

definition ci_view :: "combinedIterator \<Rightarrow> VersionedKV list \<Rightarrow> VersionedKV list \<Rightarrow> bool" where
  "ci_view itr ds us \<longleftrightarrow>
     (case ciDbItem itr of None \<Rightarrow> ds = [] | Some d \<Rightarrow> \<exists>r. ds = d # r \<and> ciDbItr itr = map Inr r) \<and>
     (case ciUpdatesItem itr of None \<Rightarrow> us = [] | Some u \<Rightarrow> us = u # nsIterator_rest (ciUpdatesItr itr)) \<and>
     wf_nsIterator (ciUpdatesItr itr)"

lemma ci_moveUpdatesItr_view:
  assumes "ci_view itr ds (u # us)"
  shows "ci_view (ci_moveUpdatesItr itr) ds us"
proof -
  have wf: "wf_nsIterator (ciUpdatesItr itr)" and rest: "nsIterator_rest (ciUpdatesItr itr) = us"
    using assms by (auto simp: ci_view_def split: option.splits)
  show ?thesis
  proof (cases us)
    case Nil
    with wf rest nsIterator_Next_Nil [of "ciUpdatesItr itr"] assms show ?thesis
      by (auto simp: ci_view_def ci_moveUpdatesItr_def split: option.splits)
  next
    case (Cons v vs)
    with wf rest obtain it' where "nsIterator_Next (ciUpdatesItr itr) = (Some v, it')"
      and "nsIterator_rest it' = vs" and "wf_nsIterator it'"
      by (metis nsIterator_Next_Cons)
    with Cons assms show ?thesis
      by (auto simp: ci_view_def ci_moveUpdatesItr_def split: option.splits)
  qed
qed

lemma ci_moveDBItr_view:
  assumes "ci_view itr (d # ds) us"
  obtains itr' where "ci_moveDBItr itr = Inr itr'" and "ci_view itr' ds us"
proof -
  have r: "ciDbItr itr = map Inr ds"
    using assms by (auto simp: ci_view_def split: option.splits)
  show thesis
  proof (cases ds)
    case Nil
    with r assms show ?thesis
      by (intro that [of "itr\<lparr>ciDbItem := None, ciDbItr := []\<rparr>"])
         (auto simp: ci_moveDBItr_def ci_view_def split: option.splits)
  next
    case (Cons e es)
    with r assms show ?thesis
      by (intro that [of "itr\<lparr>ciDbItem := Some e, ciDbItr := map Inr es\<rparr>"])
         (auto simp: ci_moveDBItr_def ci_view_def split: option.splits)
  qed
qed

lemma ci_view_items:
  assumes "ci_view itr ds us"
  shows "ciDbItem itr = (case ds of [] \<Rightarrow> None | d # _ \<Rightarrow> Some d)"
    and "ciUpdatesItem itr = (case us of [] \<Rightarrow> None | u # _ \<Rightarrow> Some u)"
  using assms by (auto simp: ci_view_def split: option.splits list.splits)

lemma ci_step_view:
  assumes "ci_view itr ds us" and "merge_kvs ds us = kv # kvs"
  obtains itr' ds' us' where "ci_step itr = Inr (Some kv, itr')" and "ci_view itr' ds' us'"
    and "merge_kvs ds' us' = kvs"
proof (cases ds)
  case Nil
  with assms(2) have "us = kv # kvs" by simp
  with Nil assms(1) show thesis
    using ci_view_items [OF assms(1)] ci_moveUpdatesItr_view [of itr ds kv kvs]
    by (intro that [of "ci_moveUpdatesItr itr" "[]" kvs]) (auto simp: ci_step_def ci_select_def)
next
  case (Cons d ds1)
  obtain itr1 where mv: "ci_moveDBItr itr = Inr itr1" and v1: "ci_view itr1 ds1 us"
    using assms(1) Cons by (metis ci_moveDBItr_view)
  show thesis
  proof (cases us)
    case Nil
    with Cons assms mv v1 show ?thesis
      using ci_view_items [OF assms(1)]
      by (intro that [of itr1 ds1 us]) (auto simp: ci_step_def ci_select_def)
  next
    case u: (Cons u us1)
    consider "ckKey d < ckKey u" | "ckKey d = ckKey u" | "ckKey u < ckKey d"
      by (rule linorder_cases)
    then show ?thesis
    proof cases
      case 1
      with Cons u assms mv v1 show ?thesis
        using ci_view_items [OF assms(1)]
        by (intro that [of itr1 ds1 us]) (auto simp: ci_step_def ci_select_def strings_Compare_def)
    next
      case 2
      with Cons u assms mv v1 show ?thesis
        using ci_view_items [OF assms(1)] ci_moveUpdatesItr_view [of itr1 ds1 u us1]
        by (intro that [of "ci_moveUpdatesItr itr1" ds1 us1])
           (auto simp: ci_step_def ci_select_def strings_Compare_def)
    next
      case 3
      with Cons u assms show ?thesis
        using ci_view_items [OF assms(1)] ci_moveUpdatesItr_view [of itr ds u us1]
        by (intro that [of "ci_moveUpdatesItr itr" ds us1])
           (auto simp: ci_step_def ci_select_def strings_Compare_def split: if_splits)
    qed
  qed
qed

text \<open>The end key is served from the merged state, without its metadata.\<close>

definition end_key_item ::
  "gostring \<Rightarrow> gostring \<Rightarrow> bool \<Rightarrow> (gostring \<rightharpoonup> VersionedValue) \<Rightarrow> VersionedKV list" where
  "end_key_item ns endKey includeEndKey m =
     (case (if includeEndKey then m endKey else None) of
        None \<Rightarrow> []
      | Some vv \<Rightarrow> [\<lparr>ckNamespace = ns, ckKey = endKey, kvVal = vv\<lparr>vvMetadata := None\<rparr>\<rparr>])"

lemma serveEndKey_served:
  "ciEndKeyServed itr \<Longrightarrow> serveEndKeyIfNeeded itr = Inr (None, itr)"
  by (simp add: serveEndKeyIfNeeded_def)

lemma serveEndKey_results:
  assumes db: "vdb_answers (ciDb itr) st" and "ciDbItem itr = None" and "ciUpdatesItem itr = None"
    and "\<not> ciEndKeyServed itr"
  shows "combinedIterator_results itr =
    map Inr (end_key_item (ciNs itr) (ciEndKey itr) (ciIncludeEndKey itr) (overlay st (ciUpdates itr) (ciNs itr)))"
  using assms vdb_answersD(1) [OF db]
  by (auto simp: combinedIterator_results.simps combinedIterator_Next.simps serveEndKeyIfNeeded_def
      end_key_item_def overlay_def VersionedValue_IsDelete_def isDelete_def Let_def
      dest: vdb_answersD(5) [OF db] split: option.splits)

lemma results_merge:
  assumes "ci_view itr ds us" and "\<not> ciEndKeyServed itr" and "vdb_answers (ciDb itr) st"
  shows "combinedIterator_results itr =
    map Inr (filter (\<lambda>kv. \<not> isDelete kv) (merge_kvs ds us) @
      end_key_item (ciNs itr) (ciEndKey itr) (ciIncludeEndKey itr) (overlay st (ciUpdates itr) (ciNs itr)))"
  using assms
proof (induction "merge_kvs ds us" arbitrary: itr ds us)
  case Nil
  then have "ds = []" "us = []"
    by (cases ds; cases us; simp split: if_splits)+
  then have "ciDbItem itr = None" "ciUpdatesItem itr = None"
    using ci_view_items [OF Nil.prems(1)] by simp_all
  with Nil \<open>ds = []\<close> \<open>us = []\<close> show ?case
    by (simp add: serveEndKey_results)
next
  case (Cons kv kvs)
  then obtain itr' ds' us' where st: "ci_step itr = Inr (Some kv, itr')" and v: "ci_view itr' ds' us'"
    and m: "kvs = merge_kvs ds' us'"
    by (metis ci_step_view)
  have ne: "\<not> (ciDbItem itr = None \<and> ciUpdatesItem itr = None)"
    using Cons.hyps(2) ci_view_items [OF Cons.prems(1)] by (auto split: list.splits)
  note f = ci_step_flags [OF st]
  have "combinedIterator_Next itr = (if isDelete kv then combinedIterator_Next itr' else Inr (Some kv, itr'))"
    using ne st by (auto simp: combinedIterator_Next.simps [of itr])
  then have "combinedIterator_results itr =
      (if isDelete kv then combinedIterator_results itr' else Inr kv # combinedIterator_results itr')"
    by (simp add: combinedIterator_results.simps [of itr] combinedIterator_results.simps [of itr'])
  moreover have "combinedIterator_results itr' = map Inr (filter (\<lambda>kv. \<not> isDelete kv) kvs @
      end_key_item (ciNs itr) (ciEndKey itr) (ciIncludeEndKey itr) (overlay st (ciUpdates itr) (ciNs itr)))"
    using Cons.hyps(1) [OF m v] Cons.prems(2,3) f unfolding m by simp
  ultimately show ?case
    unfolding Cons.hyps(2) [symmetric] by simp
qed

subsection \<open>Merging range scans\<close>

abbreviation key_sorted :: "VersionedKV list \<Rightarrow> bool" where
  "key_sorted kvs \<equiv> sorted_wrt (<) (map ckKey kvs)"

lemma key_sorted_unique:
  assumes "key_sorted xs" and "key_sorted ys" and "set xs = set ys"
  shows "xs = ys"
proof -
  have "map ckKey xs = map ckKey ys"
    using assms by (intro sorted_distinct_set_unique) (auto simp: strict_sorted_iff)
  moreover have "inj_on ckKey (set xs \<union> set ys)"
    using assms by (auto simp: strict_sorted_iff distinct_map)
  ultimately show ?thesis by (rule map_inj_on)
qed

lemma set_merge_kvs:
  assumes "key_sorted ds" and "key_sorted us"
  shows "set (merge_kvs ds us) = set us \<union> {d \<in> set ds. ckKey d \<notin> ckKey ` set us}"
  using assms by (induction ds us rule: merge_kvs.induct) force+

lemma key_sorted_merge_kvs:
  assumes "key_sorted ds" and "key_sorted us"
  shows "key_sorted (merge_kvs ds us)"
  using assms
proof (induction ds us rule: merge_kvs.induct)
  case (3 d ds u us)
  have "key_sorted ds" "key_sorted us" using "3.prems" by simp_all
  with 3 show ?case
    using set_merge_kvs [of ds "u # us"] set_merge_kvs [of ds us] set_merge_kvs [of "d # ds" us]
    by (fastforce simp del: merge_kvs.simps(1,2))
qed auto

lemma set_range_scan:
  "finite (dom m) \<Longrightarrow> set (range_scan ns s e m) = mkKV ns m ` {k \<in> dom m. in_range s e k}"
  by (auto simp: range_scan_def)

lemma map_key_range_scan:
  "map ckKey (range_scan ns s e m) = filter (in_range s e) (sorted_list_of_set (dom m))"
  by (simp add: range_scan_def mkKV_def comp_def)

lemma key_sorted_range_scan: "key_sorted (range_scan ns s e m)"
  by (simp add: map_key_range_scan sorted_wrt_filter)

lemma dom_overlay_subset: "dom (overlay st b ns) \<subseteq> dom (st ns) \<union> dom (UpdateBatch_Get b ns)"
  by (auto simp: overlay_def split: option.splits if_splits)

lemma finite_dom_overlay: "finite (dom (st ns)) \<Longrightarrow> finite (dom (overlay st b ns))"
  by (meson dom_overlay_subset finite_UnI finite_dom_Get finite_subset)

lemma merge_range_scans:
  assumes fin: "finite (dom (st ns))" and nn: "\<And>key vv. st ns key = Some vv \<Longrightarrow> vvValue vv \<noteq> None"
  shows "filter (\<lambda>kv. \<not> isDelete kv) (merge_kvs (range_scan ns s e (st ns)) (range_scan ns s e (UpdateBatch_Get b ns)))
    = range_scan ns s e (overlay st b ns)" (is "filter _ ?m = _")
proof (rule key_sorted_unique)
  have "key_sorted ?m" by (intro key_sorted_merge_kvs key_sorted_range_scan)
  then show "key_sorted (filter (\<lambda>kv. \<not> isDelete kv) ?m)"
    by (simp add: sorted_wrt_map sorted_wrt_filter)
  show "key_sorted (range_scan ns s e (overlay st b ns))" by (rule key_sorted_range_scan)
  show "set (filter (\<lambda>kv. \<not> isDelete kv) ?m) = set (range_scan ns s e (overlay st b ns))"
    by (auto simp: set_merge_kvs key_sorted_range_scan set_range_scan fin finite_dom_Get finite_dom_overlay
        mkKV_def isDelete_def image_iff overlay_def VersionedValue_IsDelete_def
        dest: nn split: option.splits if_splits)
qed

lemma newCombinedIterator_view:
  assumes db: "vdb_answers db st" and wf: "wf_batch b" and ns: "nz ns"
  obtains itr where "newCombinedIterator db b ns s e inc = Inr itr"
    and "ci_view itr (range_scan ns s e (st ns)) (range_scan ns s e (UpdateBatch_Get b ns))"
    and "ciDb itr = db" "ciNs itr = ns" "ciUpdates itr = b" "ciEndKey itr = e"
    and "ciIncludeEndKey itr = inc" "\<not> ciEndKeyServed itr"
proof -
  let ?d = "range_scan ns s e (st ns)" and ?u = "range_scan ns s e (UpdateBatch_Get b ns)"
  let ?it = "GetRangeScanIterator b ns s e"
  have rest: "nsIterator_rest ?it = ?u" and wfi: "wf_nsIterator ?it"
    by (simp_all add: GetRangeScanIterator_def newNsIterator_rest [OF wf])
  obtain ui uit where u: "nsIterator_Next ?it = (ui, uit)"
    and uv: "case ui of None \<Rightarrow> ?u = [] | Some x \<Rightarrow> ?u = x # nsIterator_rest uit" and "wf_nsIterator uit"
  proof (cases ?u)
    case Nil
    with rest wfi that [of None ?it] show thesis by (simp add: nsIterator_Next_Nil)
  next
    case (Cons x xs)
    with rest wfi obtain it' where "nsIterator_Next ?it = (Some x, it')" "nsIterator_rest it' = xs" "wf_nsIterator it'"
      by (metis nsIterator_Next_Cons)
    with Cons that [of "Some x" it'] show thesis by simp
  qed
  obtain di dit where d: "ResultsIterator_Next (map Inr ?d) = Inr (di, dit)"
    and dv: "case di of None \<Rightarrow> ?d = [] | Some x \<Rightarrow> \<exists>r. ?d = x # r \<and> dit = map Inr r"
    by (cases ?d) auto
  show thesis
  proof (rule that)
    show "newCombinedIterator db b ns s e inc =
      Inr \<lparr>ciNs = ns, ciDb = db, ciUpdates = b, ciEndKey = e, ciIncludeEndKey = inc, ciDbItr = dit,
           ciUpdatesItr = uit, ciDbItem = di, ciUpdatesItem = ui, ciEndKeyServed = False\<rparr>"
      by (simp add: newCombinedIterator_def vdb_answersD(3) [OF db ns] d u)
  qed (use dv uv \<open>wf_nsIterator uit\<close> in \<open>cases di; cases ui; simp add: ci_view_def\<close>)+
qed

lemma combined_iterator_correct:
  assumes db: "vdb_answers db st" and wf: "wf_batch b" and ns: "nz ns"
  obtains itr where "newCombinedIterator db b ns s e inc = Inr itr"
    and "combinedIterator_results itr =
      map Inr (range_scan ns s e (overlay st b ns) @ end_key_item ns e inc (overlay st b ns))"
proof -
  obtain itr where itr: "newCombinedIterator db b ns s e inc = Inr itr"
    and v: "ci_view itr (range_scan ns s e (st ns)) (range_scan ns s e (UpdateBatch_Get b ns))"
    and f: "ciDb itr = db" "ciNs itr = ns" "ciUpdates itr = b" "ciEndKey itr = e"
      "ciIncludeEndKey itr = inc" "\<not> ciEndKeyServed itr"
    using newCombinedIterator_view [OF db wf ns] by blast
  have m: "filter (\<lambda>kv. \<not> isDelete kv)
      (merge_kvs (range_scan ns s e (st ns)) (range_scan ns s e (UpdateBatch_Get b ns))) =
      range_scan ns s e (overlay st b ns)"
    by (rule merge_range_scans [OF vdb_answersD(4) [OF db]]) (rule vdb_answersD(5) [OF db])
  have "combinedIterator_results itr =
      map Inr (range_scan ns s e (overlay st b ns) @ end_key_item ns e inc (overlay st b ns))"
    using results_merge [OF v f(6)] db unfolding f m by blast
  with itr show thesis by (rule that)
qed

text \<open>
  C12. Over a database that answers from the state \<open>st\<close> and a batch of pending updates, the combined iterator is
  created without error and its successive results are those of a range scan over the state with the batch applied
  (batch entries shadow the database's, deleted keys are skipped, each key is served once, in order), followed by the
  entry of the end key, without metadata, when the end key is to be included and is present.
\<close>

theorem combined_iterator_scans_overlay:
  assumes "vdb_answers db st" and "wf_batch b" and "nz ns"
  shows "\<exists>itr. newCombinedIterator db b ns startKey endKey includeEndKey = Inr itr \<and>
    combinedIterator_results itr =
      map Inr (range_scan ns startKey endKey (overlay st b ns) @
        end_key_item ns endKey includeEndKey (overlay st b ns))"
  by (rule combined_iterator_correct [OF assms, of startKey endKey includeEndKey]) blast

theorem combined_iterator_scans_overlay_witness:
  "\<exists>itr. newCombinedIterator (mem_db sample_batch)
       (UpdateBatch_Delete (UpdateBatch_Update NewUpdateBatch ''ns'' ''b'' (vv_at ''2'' 3 0)) ''ns'' ''a'' (NewHeight 3 1))
       ''ns'' ''a'' ''c'' True = Inr itr \<and>
     map Inr (range_scan ''ns'' ''a'' ''c'' (overlay (overlay (\<lambda>_ _. None) sample_batch)
       (UpdateBatch_Delete (UpdateBatch_Update NewUpdateBatch ''ns'' ''b'' (vv_at ''2'' 3 0)) ''ns'' ''a'' (NewHeight 3 1)) ''ns'') @
       [\<lparr>ckNamespace = ''ns'', ckKey = ''c'', kvVal = vv_at ''3'' 2 2\<rparr>]) = combinedIterator_results itr"
proof -
  let ?b = "UpdateBatch_Delete (UpdateBatch_Update NewUpdateBatch ''ns'' ''b'' (vv_at ''2'' 3 0)) ''ns'' ''a'' (NewHeight 3 1)"
  let ?o = "overlay (overlay (\<lambda>_ _. None) sample_batch) ?b ''ns''"
  have "end_key_item ''ns'' ''c'' True ?o = [\<lparr>ckNamespace = ''ns'', ckKey = ''c'', kvVal = vv_at ''3'' 2 2\<rparr>]"
    by code_simp
  with combined_iterator_scans_overlay [OF mem_db_answers [OF wf_sample_batch], of ?b "''ns''" "''a''" "''c''" True]
  show ?thesis by (auto simp: nz_def)
qed

end
