(* ===== verification/Range_Query_Validator.thy ===== *)
theory Range_Query_Validator
  imports Query_Results_Helper Combined_Iterator
begin

text \<open>
  Phantom-read validation of a range query against the current results of the same query,
  \<open>core/ledger/kvledger/txmgmt/validation/rangequery_validator.go\<close>: by comparing raw results, or by rebuilding the
  Merkle summary and comparing it as it grows.
\<close>

section \<open>Comparing raw results\<close>

text \<open>A missing version is a nil pointer that is dereferenced.\<close>

definition convertToVersionHeight :: "KVVersion option \<Rightarrow> Height result" where
  "convertToVersionHeight v =
     (case v of None \<Rightarrow> Inl (Panic ''nil pointer dereference'')
      | Some v \<Rightarrow> Inr (NewHeight (pvBlockNum v) (pvTxNum v)))"

fun results_validate_loop :: "KVRead list \<Rightarrow> VersionedKV option \<Rightarrow> ResultsIterator \<Rightarrow> bool result" where
  "results_validate_loop [] result itr = Inr (result = None)"
| "results_validate_loop (kvRead # rqResults) result itr =
     (case result of
        None \<Rightarrow> Inr False
      | Some r \<Rightarrow>
          if ckKey r \<noteq> krKey kvRead then Inr False
          else bindR (convertToVersionHeight (krVersion kvRead)) (\<lambda>h.
               if \<not> AreSame (vvVersion (kvVal r)) (Some h) then Inr False
               else bindR (ResultsIterator_Next itr) (\<lambda>(result', itr').
                    results_validate_loop rqResults result' itr')))"

definition rangeQueryResultsValidator_validate :: "RangeQueryInfo \<Rightarrow> ResultsIterator \<Rightarrow> bool result" where
  "rangeQueryResultsValidator_validate rqInfo itr =
     (let rqResults = GetRawReads_KvReads rqInfo in
      bindR (ResultsIterator_Next itr) (\<lambda>(result, itr').
        if length rqResults = 0 then Inr (result = None)
        else results_validate_loop rqResults result itr'))"

section \<open>Comparing Merkle summaries\<close>

definition merkleSummariesEqual :: "QueryReadsMerkleSummary \<Rightarrow> QueryReadsMerkleSummary option \<Rightarrow> bool" where
  "merkleSummariesEqual ms anotherMS =
     (case anotherMS of
        None \<Rightarrow> False
      | Some a \<Rightarrow>
          if msMaxDegree ms \<noteq> msMaxDegree a \<or> msMaxLevel ms \<noteq> msMaxLevel a \<or>
             length (msMaxLevelHashes ms) \<noteq> length (msMaxLevelHashes a)
          then False
          else list_all2 (=) (msMaxLevelHashes ms) (msMaxLevelHashes a))"

fun hash_validate_loop ::
  "(KVRead list \<Rightarrow> bytes result) \<Rightarrow> (bytes \<Rightarrow> bytes result) \<Rightarrow> QueryReadsMerkleSummary \<Rightarrow>
   RangeQueryResultsHelper \<Rightarrow> int \<Rightarrow> ResultsIterator \<Rightarrow> bool result" where
  "hash_validate_loop ser hashFunc inMerkle helper lastMatchedIndex [] =
     bindR (RangeQueryResultsHelper_Done ser hashFunc helper) (\<lambda>(_, merkle). Inr (merkleSummariesEqual inMerkle merkle))"
| "hash_validate_loop ser hashFunc inMerkle helper lastMatchedIndex (Inl err # itr) = Inl err"
| "hash_validate_loop ser hashFunc inMerkle helper lastMatchedIndex (Inr result # itr) =
     bindR (AddResult ser hashFunc (NewKVRead (ckKey result) (vvVersion (kvVal result))) helper) (\<lambda>helper'.
     bindR (GetMerkleSummary helper') (\<lambda>summary.
     case summary of
       None \<Rightarrow> Inl (Panic ''nil pointer dereference'')
     | Some merkle \<Rightarrow>
         if msMaxLevel merkle < msMaxLevel inMerkle
         then hash_validate_loop ser hashFunc inMerkle helper' lastMatchedIndex itr
         else if lastMatchedIndex = int (length (msMaxLevelHashes merkle)) - 1
         then hash_validate_loop ser hashFunc inMerkle helper' lastMatchedIndex itr
         else if length (msMaxLevelHashes merkle) > length (msMaxLevelHashes inMerkle) then Inr False
         else let i = lastMatchedIndex + 1 in
              if \<not> i < int (length (msMaxLevelHashes merkle)) \<or> \<not> i < int (length (msMaxLevelHashes inMerkle))
              then Inl (Panic ''index out of range'')
              else if msMaxLevelHashes merkle ! nat i \<noteq> msMaxLevelHashes inMerkle ! nat i then Inr False
              else hash_validate_loop ser hashFunc inMerkle helper' i itr))"

definition rangeQueryHashValidator_validate ::
  "(KVRead list \<Rightarrow> bytes result) \<Rightarrow> (bytes \<Rightarrow> bytes result) \<Rightarrow> RangeQueryInfo \<Rightarrow> ResultsIterator \<Rightarrow> bool result" where
  "rangeQueryHashValidator_validate ser hashFunc rqInfo itr =
     (case GetReadsMerkleHashes rqInfo of
        None \<Rightarrow> Inl (Panic ''nil pointer dereference'')
      | Some inMerkle \<Rightarrow>
          bindR (NewRangeQueryResultsHelper True (msMaxDegree inMerkle)) (\<lambda>helper.
            hash_validate_loop ser hashFunc inMerkle helper (-1) itr))"

section \<open>Raw results: exactly the recorded keys and versions\<close>

definition kv_version :: "VersionedKV \<Rightarrow> gostring \<times> Height option" where
  "kv_version kv = (ckKey kv, vvVersion (kvVal kv))"

definition read_version :: "KVRead \<Rightarrow> gostring \<times> Height option" where
  "read_version r = (krKey r, NewVersion (krVersion r))"

lemma results_validate_loop_exact:
  assumes "\<forall>r \<in> set rs. krVersion r \<noteq> None"
  shows "bindR (ResultsIterator_Next (map Inr kvs)) (\<lambda>(result, itr). results_validate_loop rs result itr) =
    Inr (map kv_version kvs = map read_version rs)"
  using assms
proof (induction rs arbitrary: kvs)
  case Nil
  show ?case by (cases kvs) simp_all
next
  case (Cons r rs)
  show ?case
  proof (cases kvs)
    case (Cons kv kvs')
    with Cons.prems obtain v where v: "krVersion r = Some v" by auto
    with Cons Cons.IH [of kvs'] Cons.prems show ?thesis
      by (auto simp: kv_version_def read_version_def convertToVersionHeight_def NewVersion_def)
  qed simp
qed

lemma results_validate_exact:
  assumes "\<forall>r \<in> set (GetRawReads_KvReads rqi). krVersion r \<noteq> None"
  shows "rangeQueryResultsValidator_validate rqi (map Inr kvs) =
    Inr (map kv_version kvs = map read_version (GetRawReads_KvReads rqi))"
proof -
  have "rangeQueryResultsValidator_validate rqi (map Inr kvs) =
      bindR (ResultsIterator_Next (map Inr kvs)) (\<lambda>(result, itr). results_validate_loop (GetRawReads_KvReads rqi) result itr)"
    by (auto simp: rangeQueryResultsValidator_validate_def Let_def intro!: bindR_cong)
  with results_validate_loop_exact [OF assms] show ?thesis by simp
qed

section \<open>Merkle summaries: the early exits agree with the comparison of the complete summaries\<close>

text \<open>What the simulation records for a sequence of results: the same helper, fed with all of them.\<close>

definition merkle_summary ::
  "(KVRead list \<Rightarrow> bytes result) \<Rightarrow> (bytes \<Rightarrow> bytes result) \<Rightarrow> RangeQueryResultsHelper \<Rightarrow> VersionedKV list \<Rightarrow>
   QueryReadsMerkleSummary option result" where
  "merkle_summary ser hashFunc helper kvs =
     bindR (foldR (\<lambda>kv. AddResult ser hashFunc (NewKVRead (ckKey kv) (vvVersion (kvVal kv)))) kvs helper) (\<lambda>h.
     bindR (RangeQueryResultsHelper_Done ser hashFunc h) (\<lambda>(_, ms). Inr ms))"

lemma merkleSummariesEqual_iff [simp]: "merkleSummariesEqual ms a \<longleftrightarrow> a = Some ms"
  by (cases a) (auto simp: merkleSummariesEqual_def list.rel_eq intro: QueryReadsMerkleSummary.equality)

lemma merkle_summary_total:
  assumes "helper_ok h" and "never_fails hash" and "never_fails ser"
  shows "\<exists>ms. merkle_summary ser hash h kvs = Inr ms"
  using assms(1)
proof (induction kvs arbitrary: h)
  case Nil
  obtain rs ms where "RangeQueryResultsHelper_Done ser hash h = Inr (rs, ms)"
    using Done_total [OF Nil assms(2,3)] by blast
  then show ?case by (simp add: merkle_summary_def)
next
  case (Cons kv kvs)
  obtain h' where h': "AddResult ser hash (NewKVRead (ckKey kv) (vvVersion (kvVal kv))) h = Inr h'"
    using AddResult_total [OF Cons.prems assms(2,3)] by blast
  from AddResult_ok [OF Cons.prems h'] Cons.IH [of h'] h' show ?case
    by (simp add: merkle_summary_def)
qed

text \<open>The complete summary grows out of the current tree.\<close>

lemma merkle_summary_grows:
  assumes "helper_ok h" and "merkle_summary ser hash h kvs = Inr (Some ms)"
  obtains t where "grows (helper_tree h) t" and "length t \<le> length (helper_tree h) + length kvs + 2"
    and "ms = \<lparr>msMaxDegree = rhMaxDegree h, msMaxLevel = word_of_nat (length t), msMaxLevelHashes = last t\<rparr>"
  using assms
proof (induction kvs arbitrary: h thesis)
  case Nil
  from Nil.prems(3) obtain rs where "RangeQueryResultsHelper_Done ser hash h = Inr (rs, Some ms)"
    by (auto simp: merkle_summary_def bindR_Inr_iff)
  from Done_grows [OF Nil.prems(2) this] Nil.prems(1) show ?case by (metis add_2_eq_Suc' add_Suc_right add.right_neutral list.size(3))
next
  case (Cons kv kvs)
  from Cons.prems(3) obtain h' where h': "AddResult ser hash (NewKVRead (ckKey kv) (vvVersion (kvVal kv))) h = Inr h'"
    and m: "merkle_summary ser hash h' kvs = Inr (Some ms)"
    by (auto simp: merkle_summary_def bindR_Inr_iff)
  note ok = AddResult_ok [OF Cons.prems(2) h'] and g = AddResult_grows [OF Cons.prems(2) h']
  from Cons.IH [OF _ _ m] ok obtain t where t: "grows (helper_tree h') t"
    "length t \<le> length (helper_tree h') + length kvs + 2"
    "ms = \<lparr>msMaxDegree = rhMaxDegree h', msMaxLevel = word_of_nat (length t), msMaxLevelHashes = last t\<rparr>" by blast
  show ?case
    by (rule Cons.prems(1) [of t]) (use t g ok grows_trans in auto)
qed

text \<open>A tree that has outgrown or departs from the recorded summary never becomes equal to it.\<close>

lemma summary_differs:
  assumes "helper_ok h" and "merkle_summary ser hash h kvs = Inr (Some ms)"
    and "length (helper_tree h) + length kvs + 2 < 2 ^ 32"
    and "msMaxLevel ms = word_of_nat (length (helper_tree h)) \<Longrightarrow> \<not> prefix (last (helper_tree h)) (msMaxLevelHashes ms)"
  shows "word_of_nat (length (helper_tree h)) < msMaxLevel ms"
proof -
  obtain t where g: "grows (helper_tree h) t" and l: "length t \<le> length (helper_tree h) + length kvs + 2"
    and ms: "ms = \<lparr>msMaxDegree = rhMaxDegree h, msMaxLevel = word_of_nat (length t), msMaxLevelHashes = last t\<rparr>"
    by (rule merkle_summary_grows [OF assms(1,2)])
  have "length (helper_tree h) \<noteq> length t"
    using g ms assms(4) by (auto simp: grows_def)
  then have "length (helper_tree h) < length t" using g by (simp add: grows_def)
  with l assms(3) ms show ?thesis
    by (simp add: word_less_nat_alt unat_of_nat take_bit_nat_eq_self)
qed

lemma summary_level_mono:
  assumes "helper_ok h" and "merkle_summary ser hash h kvs = Inr (Some ms)"
    and "length (helper_tree h) + length kvs + 2 < 2 ^ 32"
  shows "word_of_nat (length (helper_tree h)) \<le> msMaxLevel ms"
proof -
  obtain t where g: "grows (helper_tree h) t" and l: "length t \<le> length (helper_tree h) + length kvs + 2"
    and ms: "ms = \<lparr>msMaxDegree = rhMaxDegree h, msMaxLevel = word_of_nat (length t), msMaxLevelHashes = last t\<rparr>"
    by (rule merkle_summary_grows [OF assms(1,2)])
  have "length (helper_tree h) \<le> length t" using g by (auto simp: grows_def)
  with l assms(3) ms show ?thesis
    by (simp add: word_le_nat_alt unat_of_nat take_bit_nat_eq_self)
qed

text \<open>The relation between the tree built so far and the number of hashes already matched.\<close>

definition matching :: "QueryReadsMerkleSummary \<Rightarrow> RangeQueryResultsHelper \<Rightarrow> int \<Rightarrow> bool" where
  "matching inM h lm \<longleftrightarrow>
     (if (word_of_nat (length (helper_tree h)) :: u32) < msMaxLevel inM then lm = -1
      else lm = int (length (last (helper_tree h))) - 1 \<and> prefix (last (helper_tree h)) (msMaxLevelHashes inM))"

text \<open>The outcomes that are allowed: the comparison of the complete summaries, or a panic. The latter only if the
  recorded summary has at least as many hashes as its degree, and then the complete summary differs.\<close>

definition exact_or_panic :: "QueryReadsMerkleSummary \<Rightarrow> bool result \<Rightarrow> QueryReadsMerkleSummary option result \<Rightarrow> bool" where
  "exact_or_panic inM r full \<longleftrightarrow>
     r = map_sum id (\<lambda>ms. ms = Some inM) full \<or>
     (r = Inl (Panic ''index out of range'') \<and> full \<noteq> Inr (Some inM) \<and>
      unat (msMaxDegree inM) \<le> length (msMaxLevelHashes inM))"

lemma exact_False:
  assumes "merkle_summary ser hash h kvs = Inr ms" and "merkle_summary ser hash h kvs \<noteq> Inr (Some inM)"
  shows "exact_or_panic inM (Inr False) (merkle_summary ser hash h kvs)"
  using assms by (auto simp: exact_or_panic_def)

lemma merkle_summary_Cons:
  "AddResult ser hash (NewKVRead (ckKey kv) (vvVersion (kvVal kv))) h = Inr h' \<Longrightarrow>
   merkle_summary ser hash h (kv # kvs) = merkle_summary ser hash h' kvs"
  by (simp add: merkle_summary_def)

lemma prefix_snoc_nth:
  "prefix xs ys \<Longrightarrow> length xs < length ys \<Longrightarrow> prefix (xs @ [x]) ys \<longleftrightarrow> x = ys ! length xs"
  by (auto simp: prefix_def nth_append neq_Nil_conv)

text \<open>The step of the loop after the helper has taken in a result, for a tree whose top level is \<open>t\<close>.\<close>

lemma hash_validate_step:
  assumes "AddResult ser hash (NewKVRead (ckKey kv) (vvVersion (kvVal kv))) h = Inr h'" and "helper_ok h'"
  shows "hash_validate_loop ser hash inM h lm (Inr kv # itr) =
    (let t = last (helper_tree h') in
     if (word_of_nat (length (helper_tree h')) :: u32) < msMaxLevel inM \<or> lm = int (length t) - 1
     then hash_validate_loop ser hash inM h' lm itr
     else if length t > length (msMaxLevelHashes inM) then Inr False
     else if \<not> lm + 1 < int (length t) \<or> \<not> lm + 1 < int (length (msMaxLevelHashes inM))
     then Inl (Panic ''index out of range'')
     else if t ! nat (lm + 1) \<noteq> msMaxLevelHashes inM ! nat (lm + 1) then Inr False
     else hash_validate_loop ser hash inM h' (lm + 1) itr)"
  using assms(1) by (simp add: GetMerkleSummary_ok [OF assms(2)] Let_def)

lemma hash_validate_extend:
  assumes add: "AddResult ser hash (NewKVRead (ckKey kv) (vvVersion (kvVal kv))) h = Inr h'" and ok: "helper_ok h'"
    and full: "merkle_summary ser hash h' kvs = Inr ms" and bound: "length (helper_tree h') + length kvs + 2 < 2 ^ 32"
    and level: "msMaxLevel inM \<le> word_of_nat (length (helper_tree h'))"
    and t: "last (helper_tree h') = xs @ [x]" and lm: "lm = int (length xs) - 1"
    and pre: "prefix xs (msMaxLevelHashes inM)"
    and IH: "matching inM h' (lm + 1) \<Longrightarrow>
      exact_or_panic inM (hash_validate_loop ser hash inM h' (lm + 1) itr) (merkle_summary ser hash h' kvs)"
  shows "exact_or_panic inM (hash_validate_loop ser hash inM h lm (Inr kv # itr)) (merkle_summary ser hash h' kvs)"
proof (cases "prefix (xs @ [x]) (msMaxLevelHashes inM)")
  case True
  then have len: "length xs < length (msMaxLevelHashes inM)"
    using prefix_length_le [OF True] by simp
  with True pre have x: "msMaxLevelHashes inM ! length xs = x" by (simp add: prefix_snoc_nth)
  have "hash_validate_loop ser hash inM h lm (Inr kv # itr) = hash_validate_loop ser hash inM h' (lm + 1) itr"
    using len x unfolding hash_validate_step [OF add ok] t lm by (simp add: Let_def leD [OF level])
  moreover have "matching inM h' (lm + 1)"
    using level t lm True by (simp add: matching_def not_less)
  ultimately show ?thesis using IH by simp
next
  case False
  have "hash_validate_loop ser hash inM h lm (Inr kv # itr) = Inr False"
  proof (cases "length xs < length (msMaxLevelHashes inM)")
    case True
    with False pre have "x \<noteq> msMaxLevelHashes inM ! length xs" by (simp add: prefix_snoc_nth)
    with True show ?thesis unfolding hash_validate_step [OF add ok] t lm by (simp add: Let_def leD [OF level])
  next
    case False
    then show ?thesis unfolding hash_validate_step [OF add ok] t lm by (simp add: Let_def leD [OF level])
  qed
  moreover have "ms \<noteq> Some inM"
  proof
    assume "ms = Some inM"
    then have "word_of_nat (length (helper_tree h')) < msMaxLevel inM"
      using full False t by (intro summary_differs [OF ok _ bound]) auto
    with level show False by simp
  qed
  ultimately show ?thesis using full by (simp add: exact_or_panic_def)
qed

lemma hash_validate_panic:
  assumes add: "AddResult ser hash (NewKVRead (ckKey kv) (vvVersion (kvVal kv))) h = Inr h'" and ok: "helper_ok h'"
    and full: "merkle_summary ser hash h' kvs = Inr ms" and bound: "length (helper_tree h') + length kvs + 2 < 2 ^ 32"
    and level: "msMaxLevel inM < word_of_nat (length (helper_tree h'))"
    and t: "last (helper_tree h') = [x]" and lm: "1 \<le> lm" and len: "lm < int (length (msMaxLevelHashes inM))"
    and deg: "unat (msMaxDegree inM) \<le> length (msMaxLevelHashes inM)"
  shows "exact_or_panic inM (hash_validate_loop ser hash inM h lm (Inr kv # itr)) (merkle_summary ser hash h' kvs)"
proof -
  have "hash_validate_loop ser hash inM h lm (Inr kv # itr) = Inl (Panic ''index out of range'')"
    using lm len unfolding hash_validate_step [OF add ok] t by (auto simp: Let_def leD [OF less_imp_le [OF level]])
  moreover have "ms \<noteq> Some inM"
    using summary_level_mono [OF ok _ bound] full level by fastforce
  ultimately show ?thesis using full deg by (simp add: exact_or_panic_def)
qed

lemma hash_validate_continue:
  assumes "AddResult ser hash (NewKVRead (ckKey kv) (vvVersion (kvVal kv))) h = Inr h'" and "helper_ok h'"
    and "word_of_nat (length (helper_tree h')) < msMaxLevel inM \<or> lm = int (length (last (helper_tree h'))) - 1"
  shows "hash_validate_loop ser hash inM h lm (Inr kv # itr) = hash_validate_loop ser hash inM h' lm itr"
  using assms(3) unfolding hash_validate_step [OF assms(1,2)] Let_def by simp

lemma word_of_nat_less_u32: "m < n \<Longrightarrow> n < 2 ^ 32 \<Longrightarrow> (word_of_nat m :: u32) < word_of_nat n"
  by (simp add: word_less_nat_alt unat_of_nat take_bit_nat_eq_self)

lemma word_degree_bound: "(2 :: u32) \<le> d \<Longrightarrow> d < word_of_nat (Suc n) \<Longrightarrow> 2 \<le> n \<and> unat d \<le> n"
proof -
  assume "(2 :: u32) \<le> d" and d: "d < word_of_nat (Suc n)"
  then have "2 \<le> unat d" by (simp add: word_le_nat_alt)
  moreover have "unat (word_of_nat m :: u32) = m mod 2 ^ 32" for m
    by (simp add: unat_of_nat take_bit_eq_mod)
  with d have "unat d < Suc n mod 2 ^ 32"
    by (simp only: word_less_nat_alt)
  moreover have "Suc n mod 2 ^ 32 \<le> Suc n" by (rule mod_less_eq_dividend)
  ultimately show ?thesis by linarith
qed

lemma hash_validate_exact_or_panic:
  assumes "never_fails hash" and "never_fails ser" and deg: "2 \<le> msMaxDegree inM"
    and "helper_ok h" and "rhMaxDegree h = msMaxDegree inM"
    and "length (helper_tree h) + length kvs + 2 < 2 ^ 32" and "matching inM h lm"
  shows "exact_or_panic inM (hash_validate_loop ser hash inM h lm (map Inr kvs)) (merkle_summary ser hash h kvs)"
  using assms(4-)
proof (induction kvs arbitrary: h lm)
  case Nil
  obtain rs ms where "RangeQueryResultsHelper_Done ser hash h = Inr (rs, ms)"
    using Done_total [OF Nil.prems(1) assms(1,2)] by blast
  then show ?case by (simp add: exact_or_panic_def merkle_summary_def)
next
  case (Cons kv kvs)
  obtain h' where add: "AddResult ser hash (NewKVRead (ckKey kv) (vvVersion (kvVal kv))) h = Inr h'"
    using AddResult_total [OF Cons.prems(1) assms(1,2)] by blast
  note ok' = AddResult_ok [OF Cons.prems(1) add] and g = AddResult_grows [OF Cons.prems(1) add]
  then have ok: "helper_ok h'" and d': "rhMaxDegree h' = msMaxDegree inM" using Cons.prems(2) by auto
  have bound: "length (helper_tree h') + length kvs + 2 < 2 ^ 32" using g Cons.prems(3) by simp
  obtain ms where full: "merkle_summary ser hash h' kvs = Inr ms"
    using merkle_summary_total [OF ok assms(1,2)] by blast
  note IH = Cons.IH [OF ok d' bound]
  let ?T = "helper_tree h" and ?T' = "helper_tree h'" and ?L = "msMaxLevel inM"
  have ne: "?T \<noteq> []" using Cons.prems(1) by (auto simp: helper_ok_def)
  have continue: "exact_or_panic inM (hash_validate_loop ser hash inM h lm (map Inr (kv # kvs))) (merkle_summary ser hash h (kv # kvs))"
    if "matching inM h' lm" "word_of_nat (length ?T') < ?L \<or> lm = int (length (last ?T')) - 1"
    using hash_validate_continue [OF add ok that(2)] IH [OF that(1)] merkle_summary_Cons [OF add] by simp
  have extend: "exact_or_panic inM (hash_validate_loop ser hash inM h lm (map Inr (kv # kvs))) (merkle_summary ser hash h (kv # kvs))"
    if "?L \<le> word_of_nat (length ?T')" "last ?T' = xs @ [x]" "lm = int (length xs) - 1" "prefix xs (msMaxLevelHashes inM)" for xs x
    using hash_validate_extend [OF add ok full bound that IH] merkle_summary_Cons [OF add] by simp
  consider (same) "length ?T' = length ?T" "last ?T' = last ?T"
    | (more) x where "length ?T' = length ?T" "last ?T' = last ?T @ [x]"
    | (up) x where "length ?T' = Suc (length ?T)" "last ?T' = [x]" "msMaxDegree inM < word_of_nat (Suc (length (last ?T)))"
  proof (cases "?T' = ?T")
    case False
    with ok' Cons.prems(2) obtain y where "update_levels hash (msMaxDegree inM) ?T y = Inr ?T'" by auto
    from update_levels_cases [OF this] ne that show thesis by blast
  qed simp
  then show ?case
  proof cases
    case same
    with Cons.prems(4) show ?thesis by (intro continue) (auto simp: matching_def split: if_splits)
  next
    case (more x)
    show ?thesis
    proof (cases "word_of_nat (length ?T') < ?L")
      case True
      with more Cons.prems(4) show ?thesis by (intro continue) (auto simp: matching_def)
    next
      case False
      with more Cons.prems(4) show ?thesis by (intro extend [of "last ?T" x]) (auto simp: matching_def not_less)
    qed
  next
    case (up x)
    note n = word_degree_bound [OF deg up(3)]
    have lt: "(word_of_nat (length ?T) :: u32) < word_of_nat (length ?T')"
      by (rule word_of_nat_less_u32) (use up(1) bound in simp_all)
    consider "word_of_nat (length ?T') < ?L" | "word_of_nat (length ?T) < ?L" "?L \<le> word_of_nat (length ?T')"
      | "?L \<le> word_of_nat (length ?T)" by fastforce
    then show ?thesis
    proof cases
      case 1
      with lt Cons.prems(4) show ?thesis by (intro continue) (auto simp: matching_def)
    next
      case 2
      with up Cons.prems(4) show ?thesis by (intro extend [of "[]" x]) (auto simp: matching_def)
    next
      case 3
      with Cons.prems(4) have lm: "lm = int (length (last ?T)) - 1" and pre: "prefix (last ?T) (msMaxLevelHashes inM)"
        by (auto simp: matching_def)
      from prefix_length_le [OF pre] n lm 3 lt show ?thesis
        using hash_validate_panic [OF add ok full bound _ up(2), of inM lm] merkle_summary_Cons [OF add] by simp
    qed
  qed
qed

section \<open>Properties\<close>

text \<open>
  C3. Validation of a range query that recorded its raw results succeeds exactly when the query now returns the same
  keys with the same versions in the same order: any insertion, deletion or update in the range, in the database or by
  a preceding transaction of the block, is detected, and nothing else makes it fail. (Every recorded read carries a
  version, as the simulator records it.)
\<close>

theorem raw_results_validation_exact:
  assumes "vdb_answers db st" and "wf_batch b" and "nz ns"
    and "newCombinedIterator db b ns (rqStartKey rqi) (rqEndKey rqi) includeEndKey = Inr itr"
    and "\<forall>r \<in> set (GetRawReads_KvReads rqi). krVersion r \<noteq> None"
  shows "rangeQueryResultsValidator_validate rqi (combinedIterator_results itr) =
    Inr (map kv_version (range_scan ns (rqStartKey rqi) (rqEndKey rqi) (overlay st b ns) @
           end_key_item ns (rqEndKey rqi) includeEndKey (overlay st b ns)) =
         map read_version (GetRawReads_KvReads rqi))"
proof -
  have "combinedIterator_results itr = map Inr (range_scan ns (rqStartKey rqi) (rqEndKey rqi) (overlay st b ns) @
      end_key_item ns (rqEndKey rqi) includeEndKey (overlay st b ns))"
    by (rule combined_iterator_correct [OF assms(1-3), of "rqStartKey rqi" "rqEndKey rqi" includeEndKey])
       (use assms(4) in auto)
  then show ?thesis by (simp only: results_validate_exact [OF assms(5)])
qed

theorem raw_results_validation_exact_witness:
  "rangeQueryResultsValidator_validate
     \<lparr>rqStartKey = ''a'', rqEndKey = ''z'', rqItrExhausted = True, rqReadsInfo =
        Some (RawReads [NewKVRead ''a'' (Some (NewHeight 2 0)), NewKVRead ''c'' (Some (NewHeight 2 2))])\<rparr>
     (case newCombinedIterator (mem_db sample_batch) NewUpdateBatch ''ns'' ''a'' ''z'' False of
        Inl e \<Rightarrow> [Inl e] | Inr itr \<Rightarrow> combinedIterator_results itr) = Inr True \<and>
   map kv_version (range_scan ''ns'' ''a'' ''z'' (overlay (overlay (\<lambda>_ _. None) sample_batch) NewUpdateBatch ''ns'')) =
     [(''a'', Some (NewHeight 2 0)), (''c'', Some (NewHeight 2 2))]"
    (is "rangeQueryResultsValidator_validate ?rqi (case ?new of Inl e \<Rightarrow> _ e | Inr itr \<Rightarrow> _ itr) = _ \<and> _")
proof -
  let ?o = "overlay (overlay (\<lambda>_ _. None) sample_batch) NewUpdateBatch ''ns''"
  have ns: "nz ''ns''" by (simp add: nz_def)
  obtain itr where itr: "newCombinedIterator (mem_db sample_batch) NewUpdateBatch ''ns'' (rqStartKey ?rqi) (rqEndKey ?rqi) False = Inr itr"
    using combined_iterator_correct [OF mem_db_answers [OF wf_sample_batch] wf_batch_New ns] by blast
  have v: "rangeQueryResultsValidator_validate ?rqi
      (case newCombinedIterator (mem_db sample_batch) NewUpdateBatch ''ns'' ''a'' ''z'' False of
        Inl e \<Rightarrow> [Inl e] | Inr itr \<Rightarrow> combinedIterator_results itr) = Inr True"
    by code_simp
  with itr have "rangeQueryResultsValidator_validate ?rqi (combinedIterator_results itr) = Inr True" by simp
  with raw_results_validation_exact [OF mem_db_answers [OF wf_sample_batch] wf_batch_New ns itr]
  have "map kv_version (range_scan ''ns'' ''a'' ''z'' ?o) = map read_version (GetRawReads_KvReads ?rqi)"
    by (simp add: GetRawReads_KvReads_def NewKVRead_def newProtoVersion_def end_key_item_def)
  also have "\<dots> = [(''a'', Some (NewHeight 2 0)), (''c'', Some (NewHeight 2 2))]"
    by (simp add: GetRawReads_KvReads_def NewKVRead_def read_version_def)
  finally show ?thesis using v by blast
qed

text \<open>
  C4. Validation of a range query that recorded a Merkle summary compares summaries while it rebuilds the tree and
  stops at the first mismatch. With a hash function and a serialisation that do not fail, its verdict is that of
  comparing the recorded summary with the summary of all current results; the only other outcome is an index out of
  range, which needs a recorded summary with at least as many hashes as its degree and a query whose results have
  changed.
\<close>

theorem hash_validation_exact_or_panic:
  assumes "never_fails hash" and "never_fails ser" and "GetReadsMerkleHashes rqi = Some inM" and "2 \<le> msMaxDegree inM"
    and "length kvs < 2 ^ 32 - 3"
  shows "\<exists>helper full. NewRangeQueryResultsHelper True (msMaxDegree inM) = Inr helper \<and>
    merkle_summary ser hash helper kvs = Inr full \<and>
    (rangeQueryHashValidator_validate ser hash rqi (map Inr kvs) = Inr (full = Some inM) \<or>
     rangeQueryHashValidator_validate ser hash rqi (map Inr kvs) = Inl (Panic ''index out of range'') \<and>
     full \<noteq> Some inM \<and> unat (msMaxDegree inM) \<le> length (msMaxLevelHashes inM))"
proof -
  obtain helper where h: "NewRangeQueryResultsHelper True (msMaxDegree inM) = Inr helper" and ok: "helper_ok helper"
    and d: "rhMaxDegree helper = msMaxDegree inM" and t: "helper_tree helper = [[]]"
    using NewHelper_ok [OF assms(4)] by blast
  obtain full where f: "merkle_summary ser hash helper kvs = Inr full"
    using merkle_summary_total [OF ok assms(1,2)] by blast
  have "matching inM helper (-1)" by (simp add: matching_def t)
  with hash_validate_exact_or_panic [OF assms(1,2,4) ok d, of kvs "-1"] assms(5) t
  have "exact_or_panic inM (hash_validate_loop ser hash inM helper (-1) (map Inr kvs)) (Inr full)"
    by (simp add: f)
  with h f show ?thesis
    by (auto simp: exact_or_panic_def rangeQueryHashValidator_validate_def assms(3))
qed

text \<open>Results \<open>k1\<close>, \<open>k2\<close>, ... of a query, for examples.\<close>

definition sample_kv :: "string \<Rightarrow> VersionedKV" where
  "sample_kv k = \<lparr>ckNamespace = ''ns'', ckKey = k, kvVal = vv_at ''v'' 1 0\<rparr>"

definition keys_ser :: "KVRead list \<Rightarrow> bytes result" where
  "keys_ser rs = Inr (concat (map krKey rs))"

theorem hash_validation_exact_or_panic_witness:
  "\<exists>helper. NewRangeQueryResultsHelper True 2 = Inr helper \<and>
     merkle_summary keys_ser Inr helper (map sample_kv [''a'', ''b'', ''c'', ''d'']) =
       Inr (Some \<lparr>msMaxDegree = 2, msMaxLevel = 1, msMaxLevelHashes = [''abc'', ''d'']\<rparr>)"
proof -
  let ?m = "\<lparr>msMaxDegree = 2, msMaxLevel = 1, msMaxLevelHashes = [''abc'', ''d'']\<rparr>"
  let ?rqi = "\<lparr>rqStartKey = ''a'', rqEndKey = ''z'', rqItrExhausted = True, rqReadsInfo = Some (ReadsMerkleHashes ?m)\<rparr>"
  have "rangeQueryHashValidator_validate keys_ser Inr ?rqi (map Inr (map sample_kv [''a'', ''b'', ''c'', ''d''])) = Inr True"
    by code_simp
  then show ?thesis
    using hash_validation_exact_or_panic [of Inr keys_ser ?rqi ?m "map sample_kv [''a'', ''b'', ''c'', ''d'']"]
    by (auto simp: never_fails_def keys_ser_def GetReadsMerkleHashes_def)
qed

text \<open>
  C5. The index out of range is reachable, whatever the hash function and the serialisation are: with degree two, a
  summary recorded over six results is checked against nine results of which the first six are the recorded ones. The
  ninth result completes a level, the level collapses into one hash, and the validator reads past its end instead of
  reporting the phantom reads.
\<close>

theorem hash_validation_panics_on_level_change:
  fixes hash :: "bytes \<Rightarrow> bytes" and ser :: "KVRead list \<Rightarrow> bytes"
  shows "\<exists>helper inM. NewRangeQueryResultsHelper True 2 = Inr helper \<and>
    merkle_summary (Inr \<circ> ser) (Inr \<circ> hash) helper [k1, k2, k3, k4, k5, k6] = Inr (Some inM) \<and>
    rangeQueryHashValidator_validate (Inr \<circ> ser) (Inr \<circ> hash)
      \<lparr>rqStartKey = s, rqEndKey = e, rqItrExhausted = x, rqReadsInfo = Some (ReadsMerkleHashes inM)\<rparr>
      (map Inr [k1, k2, k3, k4, k5, k6, k7, k8, k9]) = Inl (Panic ''index out of range'')"
  by (simp add: NewRangeQueryResultsHelper_def newMerkleTree_def merkle_summary_def AddResult_def processPendingResults_def
      RangeQueryResultsHelper_Done_def merkleTree_update_def merkleTree_done_def merkleTree_isEmpty_def getSummery_def
      computeCombinedHash_def rangeQueryHashValidator_validate_def GetReadsMerkleHashes_def GetMerkleSummary_def Let_def)

end
