(* ===== verification/Privacy_State.thy ===== *)
theory Privacy_State
  imports Rwset
begin

text \<open>
  Public, hashed and private data over one state database,
  \<open>core/ledger/kvledger/txmgmt/privacyenabledstate\<close> (\<open>types.go\<close>, \<open>db.go\<close>, \<open>optimization.go\<close>). Hashed and private data of
  a collection live in namespaces of their own, derived from the chaincode namespace and the collection name; key
  hashes are stored in base 64 when the database takes only text keys.
\<close>

section \<open>Base 64\<close>

text \<open>\<open>base64.StdEncoding.EncodeToString\<close>.\<close>

definition base64_alphabet :: string where
  "base64_alphabet = ''ABCDEFGHIJKLMNOPQRSTUVWXYZabcdefghijklmnopqrstuvwxyz0123456789+/''"

definition sextet :: "nat \<Rightarrow> char" where
  "sextet n = base64_alphabet ! (n mod 64)"

fun base64_EncodeToString :: "bytes \<Rightarrow> gostring" where
  "base64_EncodeToString [] = []"
| "base64_EncodeToString [a] =
     (let n = of_char a * 65536 in [sextet (n div 262144), sextet (n div 4096), CHR ''='', CHR ''=''])"
| "base64_EncodeToString [a, b] =
     (let n = of_char a * 65536 + of_char b * 256
      in [sextet (n div 262144), sextet (n div 4096), sextet (n div 64), CHR ''=''])"
| "base64_EncodeToString (a # b # c # src) =
     (let n = of_char a * 65536 + of_char b * 256 + of_char c
      in [sextet (n div 262144), sextet (n div 4096), sextet (n div 64), sextet n] @ base64_EncodeToString src)"

section \<open>Update batches\<close>

type_synonym PubUpdateBatch = UpdateBatch

type_synonym NsBatch = UpdateBatch

type_synonym UpdateMap = "(gostring, NsBatch) gomap"

type_synonym HashedUpdateBatch = UpdateMap

type_synonym PvtUpdateBatch = UpdateMap

record HashedCompositeKey =
  hckNamespace :: gostring
  hckCollectionName :: gostring
  hckKeyHash :: gostring

record PvtdataCompositeKey =
  pckNamespace :: gostring
  pckCollectionName :: gostring
  pckKey :: gostring

record PrivUpdateBatch =
  PubUpdates :: PubUpdateBatch
  HashUpdates :: HashedUpdateBatch
  PvtUpdates :: PvtUpdateBatch

definition NewPubUpdateBatch :: PubUpdateBatch where
  "NewPubUpdateBatch = NewUpdateBatch"

definition NewHashedUpdateBatch :: HashedUpdateBatch where
  "NewHashedUpdateBatch = []"

definition NewPvtUpdateBatch :: PvtUpdateBatch where
  "NewPvtUpdateBatch = []"

definition NewPrivUpdateBatch :: PrivUpdateBatch where
  "NewPrivUpdateBatch =
     \<lparr>PubUpdates = NewPubUpdateBatch, HashUpdates = NewHashedUpdateBatch, PvtUpdates = NewPvtUpdateBatch\<rparr>"

definition UpdateMap_IsEmpty :: "UpdateMap \<Rightarrow> bool" where
  "UpdateMap_IsEmpty b \<longleftrightarrow> length b = 0"

definition getOrCreateNsBatch :: "UpdateMap \<Rightarrow> gostring \<Rightarrow> NsBatch" where
  "getOrCreateNsBatch b ns = (case map_of b ns of None \<Rightarrow> NewUpdateBatch | Some batch \<Rightarrow> batch)"

definition UpdateMap_PutValAndMetadata ::
  "UpdateMap \<Rightarrow> gostring \<Rightarrow> gostring \<Rightarrow> gostring \<Rightarrow> bytes option \<Rightarrow> bytes option \<Rightarrow> Height \<Rightarrow> UpdateMap result" where
  "UpdateMap_PutValAndMetadata b ns coll key value metadata ver =
     bindR (UpdateBatch_PutValAndMetadata (getOrCreateNsBatch b ns) coll key value metadata ver)
       (\<lambda>batch. Inr (mput ns batch b))"

definition UpdateMap_Put ::
  "UpdateMap \<Rightarrow> gostring \<Rightarrow> gostring \<Rightarrow> gostring \<Rightarrow> bytes option \<Rightarrow> Height \<Rightarrow> UpdateMap result" where
  "UpdateMap_Put b ns coll key value ver = UpdateMap_PutValAndMetadata b ns coll key value None ver"

definition UpdateMap_Delete :: "UpdateMap \<Rightarrow> gostring \<Rightarrow> gostring \<Rightarrow> gostring \<Rightarrow> Height \<Rightarrow> UpdateMap" where
  "UpdateMap_Delete b ns coll key ver = mput ns (UpdateBatch_Delete (getOrCreateNsBatch b ns) coll key ver) b"

definition UpdateMap_Get :: "UpdateMap \<Rightarrow> gostring \<Rightarrow> gostring \<Rightarrow> gostring \<Rightarrow> VersionedValue option" where
  "UpdateMap_Get b ns coll key =
     (case map_of b ns of None \<Rightarrow> None | Some nsPvtBatch \<Rightarrow> UpdateBatch_Get nsPvtBatch coll key)"

definition UpdateMap_Contains :: "UpdateMap \<Rightarrow> gostring \<Rightarrow> gostring \<Rightarrow> gostring \<Rightarrow> bool" where
  "UpdateMap_Contains b ns coll key =
     (case map_of b ns of None \<Rightarrow> False | Some nsBatch \<Rightarrow> UpdateBatch_Exists nsBatch coll key)"

definition GetCollectionNames :: "NsBatch \<Rightarrow> gostring list" where
  "GetCollectionNames nsb = GetUpdatedNamespaces nsb"

definition UpdateMap_GetUpdatedNamespaces :: "UpdateMap \<Rightarrow> gostring list" where
  "UpdateMap_GetUpdatedNamespaces b = map fst b"

definition HashedUpdateBatch_Contains :: "HashedUpdateBatch \<Rightarrow> gostring \<Rightarrow> gostring \<Rightarrow> bytes \<Rightarrow> bool" where
  "HashedUpdateBatch_Contains h ns coll keyHash = UpdateMap_Contains h ns coll keyHash"

definition PutValHashAndMetadata ::
  "HashedUpdateBatch \<Rightarrow> gostring \<Rightarrow> gostring \<Rightarrow> bytes \<Rightarrow> bytes option \<Rightarrow> bytes option \<Rightarrow> Height \<Rightarrow> HashedUpdateBatch result" where
  "PutValHashAndMetadata h ns coll key value metadata ver = UpdateMap_PutValAndMetadata h ns coll key value metadata ver"

definition HashedUpdateBatch_Put ::
  "HashedUpdateBatch \<Rightarrow> gostring \<Rightarrow> gostring \<Rightarrow> bytes \<Rightarrow> bytes option \<Rightarrow> Height \<Rightarrow> HashedUpdateBatch result" where
  "HashedUpdateBatch_Put h ns coll key value ver = PutValHashAndMetadata h ns coll key value None ver"

definition HashedUpdateBatch_Delete :: "HashedUpdateBatch \<Rightarrow> gostring \<Rightarrow> gostring \<Rightarrow> bytes \<Rightarrow> Height \<Rightarrow> HashedUpdateBatch" where
  "HashedUpdateBatch_Delete h ns coll key ver = UpdateMap_Delete h ns coll key ver"

text \<open>The entries of a batch in the order in which nested \<open>range\<close> loops visit them.\<close>

definition UpdateMap_entries :: "UpdateMap \<Rightarrow> (gostring \<times> gostring \<times> gostring \<times> VersionedValue) list" where
  "UpdateMap_entries b =
     concat (map (\<lambda>(ns, nsBatch). concat (map (\<lambda>coll. map (\<lambda>(key, vv). (ns, coll, key, vv)) (GetUpdates nsBatch coll))
       (GetCollectionNames nsBatch))) b)"

definition HashedUpdateBatch_ToCompositeKeyMap :: "HashedUpdateBatch \<Rightarrow> (HashedCompositeKey, VersionedValue) gomap" where
  "HashedUpdateBatch_ToCompositeKeyMap h =
     fold (\<lambda>(ns, coll, key, vv). mput \<lparr>hckNamespace = ns, hckCollectionName = coll, hckKeyHash = key\<rparr> vv)
       (UpdateMap_entries h) []"

definition PvtUpdateBatch_ToCompositeKeyMap :: "PvtUpdateBatch \<Rightarrow> (PvtdataCompositeKey, VersionedValue) gomap" where
  "PvtUpdateBatch_ToCompositeKeyMap p =
     fold (\<lambda>(ns, coll, key, vv). mput \<lparr>pckNamespace = ns, pckCollectionName = coll, pckKey = key\<rparr> vv)
       (UpdateMap_entries p) []"

section \<open>The database\<close>

definition nsJoiner :: gostring where "nsJoiner = ''$$''"

definition pvtDataPrefix :: gostring where "pvtDataPrefix = ''p''"

definition hashDataPrefix :: gostring where "hashDataPrefix = ''h''"

definition derivePvtDataNs :: "gostring \<Rightarrow> gostring \<Rightarrow> gostring" where
  "derivePvtDataNs namespace collection = namespace @ nsJoiner @ pvtDataPrefix @ collection"

definition deriveHashedDataNs :: "gostring \<Rightarrow> gostring \<Rightarrow> gostring" where
  "deriveHashedDataNs namespace collection = namespace @ nsJoiner @ hashDataPrefix @ collection"

text \<open>The wrapped database; the bulk loader it has when it implements \<open>BulkOptimizable\<close>; and the namespaces for which
  the metadata hint has been set.\<close>

record DB =
  dbVersioned :: VersionedDB
  dbLoadCommittedVersions :: "((gostring \<times> gostring) list \<Rightarrow> unit result) option"
  dbMetadataHint :: "(gostring, bool) gomap"

definition IsBulkOptimizable :: "DB \<Rightarrow> bool" where
  "IsBulkOptimizable s \<longleftrightarrow> dbLoadCommittedVersions s \<noteq> None"

definition keyHashStr :: "DB \<Rightarrow> bytes \<Rightarrow> gostring" where
  "keyHashStr s keyHash =
     (if \<not> db_BytesKeySupported (dbVersioned s) then base64_EncodeToString keyHash else keyHash)"

definition LoadCommittedVersionsOfPubAndHashedKeys ::
  "DB \<Rightarrow> (gostring \<times> gostring) list \<Rightarrow> HashedCompositeKey list \<Rightarrow> unit result" where
  "LoadCommittedVersionsOfPubAndHashedKeys s pubKeys hashedKeys =
     (case dbLoadCommittedVersions s of
        None \<Rightarrow> Inr ()
      | Some load \<Rightarrow>
          load (pubKeys @ map (\<lambda>key. (deriveHashedDataNs (hckNamespace key) (hckCollectionName key),
                                       keyHashStr s (hckKeyHash key))) hashedKeys))"

definition DB_GetState :: "DB \<Rightarrow> gostring \<Rightarrow> gostring \<Rightarrow> VersionedValue option result" where
  "DB_GetState s = db_GetState (dbVersioned s)"

definition GetPrivateData :: "DB \<Rightarrow> gostring \<Rightarrow> gostring \<Rightarrow> gostring \<Rightarrow> VersionedValue option result" where
  "GetPrivateData s namespace collection key = DB_GetState s (derivePvtDataNs namespace collection) key"

definition GetValueHash :: "DB \<Rightarrow> gostring \<Rightarrow> gostring \<Rightarrow> bytes \<Rightarrow> VersionedValue option result" where
  "GetValueHash s namespace collection keyHash =
     DB_GetState s (deriveHashedDataNs namespace collection) (keyHashStr s keyHash)"

definition GetPrivateDataHash ::
  "(bytes \<Rightarrow> bytes) \<Rightarrow> DB \<Rightarrow> gostring \<Rightarrow> gostring \<Rightarrow> gostring \<Rightarrow> VersionedValue option result" where
  "GetPrivateDataHash hash s namespace collection key = GetValueHash s namespace collection (hash key)"

definition GetKeyHashVersion :: "DB \<Rightarrow> gostring \<Rightarrow> gostring \<Rightarrow> bytes \<Rightarrow> Height option result" where
  "GetKeyHashVersion s namespace collection keyHash =
     db_GetVersion (dbVersioned s) (deriveHashedDataNs namespace collection) (keyHashStr s keyHash)"

definition metadataEverUsedFor :: "(gostring, bool) gomap \<Rightarrow> gostring \<Rightarrow> bool" where
  "metadataEverUsedFor cache namespace = (case map_of cache namespace of None \<Rightarrow> False | Some b \<Rightarrow> b)"

definition GetStateMetadata :: "DB \<Rightarrow> gostring \<Rightarrow> gostring \<Rightarrow> bytes option result" where
  "GetStateMetadata s namespace key =
     (if \<not> metadataEverUsedFor (dbMetadataHint s) namespace then Inr None
      else bindR (DB_GetState s namespace key) (\<lambda>vv. Inr (Option.bind vv vvMetadata)))"

definition GetPrivateDataMetadataByHash :: "DB \<Rightarrow> gostring \<Rightarrow> gostring \<Rightarrow> bytes \<Rightarrow> bytes option result" where
  "GetPrivateDataMetadataByHash s namespace collection keyHash =
     (if \<not> metadataEverUsedFor (dbMetadataHint s) namespace then Inr None
      else bindR (GetValueHash s namespace collection keyHash) (\<lambda>vv. Inr (Option.bind vv vvMetadata)))"

definition addPvtUpdates :: "PubUpdateBatch \<Rightarrow> PvtUpdateBatch \<Rightarrow> PubUpdateBatch" where
  "addPvtUpdates pubUpdateBatch pvtUpdateBatch =
     fold (\<lambda>(ns, coll, key, vv) b. UpdateBatch_Update b (derivePvtDataNs ns coll) key vv)
       (UpdateMap_entries pvtUpdateBatch) pubUpdateBatch"

definition addHashedUpdates :: "PubUpdateBatch \<Rightarrow> HashedUpdateBatch \<Rightarrow> bool \<Rightarrow> PubUpdateBatch" where
  "addHashedUpdates pubUpdateBatch hashedUpdateBatch base64Key =
     fold (\<lambda>(ns, coll, key, vv) b.
             UpdateBatch_Update b (deriveHashedDataNs ns coll) (if base64Key then base64_EncodeToString key else key) vv)
       (UpdateMap_entries hashedUpdateBatch) pubUpdateBatch"

definition filterNamespacesThatHasMetadata :: "PrivUpdateBatch \<Rightarrow> (gostring, bool) gomap" where
  "filterNamespacesThatHasMetadata updates =
     fold (\<lambda>(ns, _, _, vv) m. if vvMetadata vv = None then m else mput ns True m) (UpdateMap_entries (HashUpdates updates))
       (fold (\<lambda>ns m. fold (\<lambda>(_, vv) m'. if vvMetadata vv = None then m' else mput ns True m') (GetUpdates (PubUpdates updates) ns) m)
         (GetUpdatedNamespaces (PubUpdates updates)) [])"

text \<open>The hint: a cache, and the bookkeeping store that the cache is rebuilt from at start-up. The store is a set of
  namespaces, written through a function that may fail.\<close>

definition newMetadataHint :: "gostring list \<Rightarrow> (gostring, bool) gomap" where
  "newMetadataHint bookkeeper = fold (\<lambda>namespace cache. mput namespace True cache) bookkeeper []"

definition setMetadataUsedFlag ::
  "(gostring list \<Rightarrow> gostring list \<Rightarrow> gostring list result) \<Rightarrow> PrivUpdateBatch \<Rightarrow>
   (gostring, bool) gomap \<times> gostring list \<Rightarrow> ((gostring, bool) gomap \<times> gostring list) result" where
  "setMetadataUsedFlag writeBatch updates = (\<lambda>(cache, bookkeeper).
     let (cache', batch) =
           fold (\<lambda>(ns, _) (c, batch). if metadataEverUsedFor c ns then (c, batch) else (mput ns True c, batch @ [ns]))
             (filterNamespacesThatHasMetadata updates) (cache, [])
     in bindR (writeBatch batch bookkeeper) (\<lambda>bookkeeper'. Inr (cache', bookkeeper')))"

text \<open>The public batch is extended in place before the metadata hint is computed; \<open>applyUpdates\<close> is the method of the
  wrapped database.\<close>

definition combinedUpdates :: "bool \<Rightarrow> PrivUpdateBatch \<Rightarrow> PubUpdateBatch" where
  "combinedUpdates bytesKeySupported updates =
     addHashedUpdates (addPvtUpdates (PubUpdates updates) (PvtUpdates updates)) (HashUpdates updates) (\<not> bytesKeySupported)"

definition ApplyPrivacyAwareUpdates ::
  "(UpdateBatch \<Rightarrow> Height option \<Rightarrow> 's \<Rightarrow> 's result) \<Rightarrow> (gostring list \<Rightarrow> gostring list \<Rightarrow> gostring list result) \<Rightarrow>
   bool \<Rightarrow> PrivUpdateBatch \<Rightarrow> Height option \<Rightarrow> 's \<times> (gostring, bool) gomap \<times> gostring list \<Rightarrow>
   ('s \<times> (gostring, bool) gomap \<times> gostring list) result" where
  "ApplyPrivacyAwareUpdates applyUpdates writeBatch bytesKeySupported updates height = (\<lambda>(s, hint).
     let combined = combinedUpdates bytesKeySupported updates in
     bindR (setMetadataUsedFlag writeBatch (updates\<lparr>PubUpdates := combined\<rparr>) hint) (\<lambda>hint'.
     bindR (applyUpdates combined height s) (\<lambda>s'. Inr (s', hint'))))"

section \<open>Base 64 is injective\<close>

lemma sextet_inject: "sextet m = sextet n \<longleftrightarrow> m mod 64 = n mod 64"
proof -
  have "distinct base64_alphabet" "length base64_alphabet = 64" by code_simp+
  then show ?thesis by (simp add: sextet_def nth_eq_iff_index_eq)
qed

lemma sextet_not_pad: "sextet n \<noteq> CHR ''=''"
proof -
  have "CHR ''='' \<notin> set base64_alphabet" "length base64_alphabet = 64" by code_simp+
  then show ?thesis unfolding sextet_def by (metis mod_less_divisor nth_mem zero_less_numeral)
qed

text \<open>Four sextets determine a number of 24 bits, and such a number its three bytes.\<close>

lemma sextets_decompose:
  fixes n :: nat
  assumes "n < 16777216"
  shows "n = n div 262144 mod 64 * 262144 + n div 4096 mod 64 * 4096 + n div 64 mod 64 * 64 + n mod 64"
proof -
  define q1 q2 q3 where "q1 = n div 64" and "q2 = q1 div 64" and "q3 = q2 div 64"
  have q: "n div 4096 = q2" "n div 262144 = q3"
    by (simp_all add: q1_def q2_def q3_def flip: div_mult2_eq)
  have "q3 < 64" using assms by (simp add: q(2) [symmetric] less_mult_imp_div_less)
  moreover have "n = q1 * 64 + n mod 64" "q1 = q2 * 64 + q1 mod 64" "q2 = q3 * 64 + q2 mod 64"
    by (simp_all add: q1_def q2_def q3_def)
  ultimately show ?thesis by (simp add: q q1_def [symmetric])
qed

lemma sextets_inject:
  fixes n n' :: nat
  assumes "n < 16777216" "n' < 16777216" and "n div 262144 mod 64 = n' div 262144 mod 64"
    "n div 4096 mod 64 = n' div 4096 mod 64" "n div 64 mod 64 = n' div 64 mod 64" "n mod 64 = n' mod 64"
  shows "n = n'"
  using sextets_decompose [OF assms(1)] sextets_decompose [OF assms(2)] assms(3-) by metis

lemma three_bytes_inject:
  fixes a b c a' b' c' :: nat
  assumes "a < 256" "b < 256" "c < 256" "a' < 256" "b' < 256" "c' < 256"
    and "a * 65536 + b * 256 + c = a' * 65536 + b' * 256 + c'"
  shows "a = a' \<and> b = b' \<and> c = c'"
proof -
  have hi: "(a * 256 + b) * 256 + c = (a' * 256 + b') * 256 + c'" using assms(7) by simp
  have "c = ((a * 256 + b) * 256 + c) mod 256" "c' = ((a' * 256 + b') * 256 + c') mod 256"
    using assms by (simp_all only: mod_mult_self3 mod_less)
  with hi have c: "c = c'" by simp
  with hi have ab: "a * 256 + b = a' * 256 + b'" by simp
  have "b = (a * 256 + b) mod 256" "b' = (a' * 256 + b') mod 256"
    using assms by (simp_all only: mod_mult_self3 mod_less)
  with ab have "b = b'" by simp
  with ab c show ?thesis by simp
qed

lemma three_bytes_less: "a < 256 \<Longrightarrow> b < 256 \<Longrightarrow> c < 256 \<Longrightarrow> a * 65536 + b * 256 + c < (16777216 :: nat)"
  by simp

lemma bytes_of_sextets:
  fixes a b c a' b' c' :: char
  defines "n \<equiv> of_char a * 65536 + of_char b * 256 + of_char c :: nat"
    and "n' \<equiv> of_char a' * 65536 + of_char b' * 256 + of_char c' :: nat"
  assumes "n div 262144 mod 64 = n' div 262144 mod 64" "n div 4096 mod 64 = n' div 4096 mod 64"
    "n div 64 mod 64 = n' div 64 mod 64" "n mod 64 = n' mod 64"
  shows "of_char a = (of_char a' :: nat) \<and> of_char b = (of_char b' :: nat) \<and> of_char c = (of_char c' :: nat)"
proof (rule three_bytes_inject)
  have "n < 16777216" "n' < 16777216" unfolding n_def n'_def by (rule three_bytes_less; simp)+
  then show "of_char a * 65536 + of_char b * 256 + of_char c = (of_char a' * 65536 + of_char b' * 256 + of_char c' :: nat)"
    using sextets_inject assms(3-) unfolding n_def n'_def by blast
qed simp_all

lemma bytes_of_sextets2:
  fixes a b a' b' :: char
  defines "n \<equiv> of_char a * 65536 + of_char b * 256 :: nat"
    and "n' \<equiv> of_char a' * 65536 + of_char b' * 256 :: nat"
  assumes "n div 262144 mod 64 = n' div 262144 mod 64" "n div 4096 mod 64 = n' div 4096 mod 64"
    "n div 64 mod 64 = n' div 64 mod 64"
  shows "of_char a = (of_char a' :: nat) \<and> of_char b = (of_char b' :: nat)"
  using bytes_of_sextets [of a b "CHR 0x00" a' b' "CHR 0x00"] assms(3-) unfolding n_def n'_def by simp

lemma base64_inject: "base64_EncodeToString xs = base64_EncodeToString ys \<longleftrightarrow> xs = ys"
proof
  show "base64_EncodeToString xs = base64_EncodeToString ys \<Longrightarrow> xs = ys"
  proof (induction xs arbitrary: ys rule: base64_EncodeToString.induct)
    case 1
    then show ?case by (cases ys rule: base64_EncodeToString.cases) (simp_all add: Let_def)
  next
    case (2 a)
    then show ?case
    proof (cases ys rule: base64_EncodeToString.cases)
      case (2 a')
      with "2.prems" have "of_char a = (of_char a' :: nat)"
        using sextets_inject [of "of_char a * 65536" "of_char a' * 65536"] of_char_less_256 [of a] of_char_less_256 [of a']
        by (simp add: Let_def sextet_inject)
      with 2 show ?thesis by simp
    qed (simp_all add: Let_def sextet_not_pad sextet_not_pad [symmetric])
  next
    case (3 a b)
    then show ?case
    proof (cases ys rule: base64_EncodeToString.cases)
      case (3 a' b')
      with "3.prems" have "of_char a = (of_char a' :: nat) \<and> of_char b = (of_char b' :: nat)"
        by (intro bytes_of_sextets2) (simp_all add: Let_def sextet_inject)
      with 3 show ?thesis by simp
    qed (simp_all add: Let_def sextet_not_pad sextet_not_pad [symmetric])
  next
    case (4 a b c src)
    then show ?case
    proof (cases ys rule: base64_EncodeToString.cases)
      case (4 a' b' c' src')
      with "4.prems" have "of_char a = (of_char a' :: nat) \<and> of_char b = (of_char b' :: nat) \<and> of_char c = (of_char c' :: nat)"
        by (intro bytes_of_sextets) (simp_all add: Let_def sextet_inject)
      with 4 "4.IH" [OF refl, of src'] "4.prems" show ?thesis by (simp add: Let_def)
    qed (simp_all add: Let_def sextet_not_pad sextet_not_pad [symmetric])
  qed
qed simp

section \<open>Batches of hashed and private updates\<close>

definition wf_umap :: "UpdateMap \<Rightarrow> bool" where
  "wf_umap b \<longleftrightarrow> wf_map b \<and> (\<forall>batch \<in> snd ` set b. wf_batch batch)"

lemma wf_umap_Nil [simp]: "wf_umap []"
  by (simp add: wf_umap_def)

lemma wf_umap_New [simp]: "wf_umap NewHashedUpdateBatch" "wf_umap NewPvtUpdateBatch"
  by (simp_all add: NewHashedUpdateBatch_def NewPvtUpdateBatch_def)

lemma wf_getOrCreateNsBatch: "wf_umap b \<Longrightarrow> wf_batch (getOrCreateNsBatch b ns)"
  by (force simp: wf_umap_def getOrCreateNsBatch_def dest: map_of_SomeD split: option.splits)

lemma wf_umap_mput: "wf_umap b \<Longrightarrow> wf_batch batch \<Longrightarrow> wf_umap (mput ns batch b)"
  using set_mput_subset [of ns batch b] by (fastforce simp: wf_umap_def)

lemma UpdateMap_Get_getOrCreate: "UpdateMap_Get b ns coll key = UpdateBatch_Get (getOrCreateNsBatch b ns) coll key"
  by (simp add: UpdateMap_Get_def getOrCreateNsBatch_def split: option.split)

lemma UpdateMap_Contains_iff: "UpdateMap_Contains b ns coll key \<longleftrightarrow> UpdateMap_Get b ns coll key \<noteq> None"
  by (simp add: UpdateMap_Contains_def UpdateMap_Get_def Exists_iff split: option.splits)

lemma UpdateMap_Get_New [simp]: "UpdateMap_Get NewHashedUpdateBatch ns coll key = None"
  by (simp add: UpdateMap_Get_def NewHashedUpdateBatch_def)

lemma getOrCreateNsBatch_mput: "getOrCreateNsBatch (mput ns batch b) ns' = (if ns' = ns then batch else getOrCreateNsBatch b ns')"
  by (simp add: getOrCreateNsBatch_def gomap_simps)

lemma UpdateMap_Delete_ok:
  assumes "wf_umap b"
  shows "wf_umap (UpdateMap_Delete b ns coll key ver)"
    and "UpdateMap_Get (UpdateMap_Delete b ns coll key ver) ns' coll' key' =
      (if ns' = ns \<and> coll' = coll \<and> key' = key then Some \<lparr>vvValue = None, vvMetadata = None, vvVersion = Some ver\<rparr>
       else UpdateMap_Get b ns' coll' key')"
  using assms wf_getOrCreateNsBatch [OF assms, of ns]
  by (auto simp: UpdateMap_Delete_def wf_umap_mput UpdateMap_Get_getOrCreate getOrCreateNsBatch_mput)

lemma UpdateMap_Put_ok:
  assumes "wf_umap b" and "UpdateMap_PutValAndMetadata b ns coll key value metadata ver = Inr b'"
  shows "wf_umap b'"
    and "UpdateMap_Get b' ns' coll' key' =
      (if ns' = ns \<and> coll' = coll \<and> key' = key then Some \<lparr>vvValue = value, vvMetadata = metadata, vvVersion = Some ver\<rparr>
       else UpdateMap_Get b ns' coll' key')"
  using assms wf_getOrCreateNsBatch [OF assms(1), of ns]
  by (auto simp: UpdateMap_PutValAndMetadata_def bindR_Inr_iff wf_umap_mput UpdateMap_Get_getOrCreate
      getOrCreateNsBatch_mput PutValAndMetadata_Inr_iff)

lemma UpdateMap_Put_Inr: "\<exists>b'. UpdateMap_PutValAndMetadata b ns coll key (Some v) metadata ver = Inr b'"
  by (simp add: UpdateMap_PutValAndMetadata_def UpdateBatch_PutValAndMetadata_def)

lemma mem_UpdateMap_entries:
  assumes "wf_umap b"
  shows "(ns, coll, key, vv) \<in> set (UpdateMap_entries b) \<longleftrightarrow> UpdateMap_Get b ns coll key = Some vv"
proof -
  have "(ns, coll, key, vv) \<in> set (UpdateMap_entries b) \<longleftrightarrow>
      (\<exists>batch. (ns, batch) \<in> set b \<and> coll \<in> set (map fst (Updates batch)) \<and> (key, vv) \<in> set (GetUpdates batch coll))"
  proof
    assume "(ns, coll, key, vv) \<in> set (UpdateMap_entries b)"
    then show "\<exists>batch. (ns, batch) \<in> set b \<and> coll \<in> set (map fst (Updates batch)) \<and> (key, vv) \<in> set (GetUpdates batch coll)"
      by (auto simp: UpdateMap_entries_def GetCollectionNames_def GetUpdatedNamespaces_def)
  next
    assume "\<exists>batch. (ns, batch) \<in> set b \<and> coll \<in> set (map fst (Updates batch)) \<and> (key, vv) \<in> set (GetUpdates batch coll)"
    then obtain batch where *: "(ns, batch) \<in> set b" "coll \<in> set (map fst (Updates batch))" "(key, vv) \<in> set (GetUpdates batch coll)"
      by blast
    then have "(ns, coll, key, vv) \<in> set (concat (map (\<lambda>coll. map (\<lambda>(key, vv). (ns, coll, key, vv)) (GetUpdates batch coll))
        (map fst (Updates batch))))"
      by (force simp del: map_map)
    with *(1) show "(ns, coll, key, vv) \<in> set (UpdateMap_entries b)"
      unfolding UpdateMap_entries_def GetCollectionNames_def GetUpdatedNamespaces_def set_concat [of "map _ b"] set_map [of _ b]
      by blast
  qed
  also have "\<dots> \<longleftrightarrow> (\<exists>batch. map_of b ns = Some batch \<and> (key, vv) \<in> set (GetUpdates batch coll))"
  proof -
    have "(key, vv) \<in> set (GetUpdates batch coll) \<Longrightarrow> coll \<in> set (map fst (Updates batch))" for batch
      by (cases "map_of (Updates batch) coll") (auto simp: GetUpdates_def dest!: map_of_SomeD intro: rev_image_eqI)
    with assms show ?thesis by (auto simp: wf_umap_def map_of_Some_mem)
  qed
  also have "\<dots> \<longleftrightarrow> UpdateMap_Get b ns coll key = Some vv"
  proof -
    have "(key, vv) \<in> set (GetUpdates batch coll) \<longleftrightarrow> UpdateBatch_Get batch coll key = Some vv"
      if "map_of b ns = Some batch" for batch
    proof -
      have "wf_batch batch" using that assms by (force simp: wf_umap_def dest: map_of_SomeD)
      from wf_GetUpdates [OF this] show ?thesis by (simp add: GetUpdates_map_of [symmetric] map_of_Some_mem)
    qed
    then show ?thesis by (auto simp: UpdateMap_Get_def split: option.splits)
  qed
  finally show ?thesis .
qed

text \<open>Copying entries into a public batch under derived names.\<close>

definition copy_entries ::
  "(gostring \<Rightarrow> gostring \<Rightarrow> gostring) \<Rightarrow> (gostring \<Rightarrow> gostring) \<Rightarrow> (gostring \<times> gostring \<times> gostring \<times> VersionedValue) list \<Rightarrow>
   UpdateBatch \<Rightarrow> UpdateBatch" where
  "copy_entries f g = fold (\<lambda>(ns, coll, key, vv) b. UpdateBatch_Update b (f ns coll) (g key) vv)"

definition hits ::
  "(gostring \<Rightarrow> gostring \<Rightarrow> gostring) \<Rightarrow> (gostring \<Rightarrow> gostring) \<Rightarrow> gostring \<Rightarrow> gostring \<Rightarrow>
   gostring \<times> gostring \<times> gostring \<times> VersionedValue \<Rightarrow> bool" where
  "hits f g N K e \<longleftrightarrow> f (fst e) (fst (snd e)) = N \<and> g (fst (snd (snd e))) = K"

lemma hits_tuple [simp]: "hits f g N K (ns, coll, key, vv) \<longleftrightarrow> f ns coll = N \<and> g key = K"
  by (simp add: hits_def)

lemma Get_copy_snoc:
  "UpdateBatch_Get (copy_entries f g (es @ [e]) b) N K =
    (if hits f g N K e then Some (snd (snd (snd e))) else UpdateBatch_Get (copy_entries f g es b) N K)"
  by (cases e) (auto simp: copy_entries_def)

lemma Get_copy_miss:
  "\<forall>e \<in> set es. \<not> hits f g N K e \<Longrightarrow> UpdateBatch_Get (copy_entries f g es b) N K = UpdateBatch_Get b N K"
proof (induction es rule: rev_induct)
  case Nil
  show ?case by (simp add: copy_entries_def)
qed (simp add: Get_copy_snoc)

lemma Get_copy_hit:
  "\<exists>e \<in> set es. hits f g N K e \<Longrightarrow> \<forall>e \<in> set es. hits f g N K e \<longrightarrow> snd (snd (snd e)) = v \<Longrightarrow>
   UpdateBatch_Get (copy_entries f g es b) N K = Some v"
  by (induction es rule: rev_induct) (auto simp: Get_copy_snoc)

lemma Get_copy_umap:
  assumes "wf_umap m"
    and "\<forall>e \<in> set (UpdateMap_entries m). hits f g (f ns coll) (g key) e \<longrightarrow> fst e = ns \<and> fst (snd e) = coll \<and> fst (snd (snd e)) = key"
  shows "UpdateBatch_Get (copy_entries f g (UpdateMap_entries m) b) (f ns coll) (g key) =
    (case UpdateMap_Get m ns coll key of None \<Rightarrow> UpdateBatch_Get b (f ns coll) (g key) | Some v \<Rightarrow> Some v)"
proof -
  have e: "UpdateMap_Get m ns coll key = Some (snd (snd (snd e)))"
    if "e \<in> set (UpdateMap_entries m)" "hits f g (f ns coll) (g key) e" for e
    using that assms(2) mem_UpdateMap_entries [OF assms(1), of ns coll key "snd (snd (snd e))"]
    by (cases e rule: prod_cases4) auto
  show ?thesis
  proof (cases "UpdateMap_Get m ns coll key")
    case None
    with e show ?thesis by (auto intro!: Get_copy_miss)
  next
    case (Some v)
    then have "(ns, coll, key, v) \<in> set (UpdateMap_entries m)" by (simp add: mem_UpdateMap_entries [OF assms(1)])
    then have "\<exists>e \<in> set (UpdateMap_entries m). hits f g (f ns coll) (g key) e" by (rule bexI [rotated]) simp
    from Get_copy_hit [OF this, of v b] e Some show ?thesis by auto
  qed
qed

section \<open>Derived namespaces do not interfere\<close>

definition plain_ns :: "gostring \<Rightarrow> bool" where
  "plain_ns ns \<longleftrightarrow> CHR ''$'' \<notin> set ns"

lemma plain_append_inject:
  assumes "plain_ns a" "plain_ns b"
  shows "a @ CHR ''$'' # x = b @ CHR ''$'' # y \<longleftrightarrow> a = b \<and> x = y"
proof -
  have "takeWhile (\<lambda>c. c \<noteq> CHR ''$'') (a @ CHR ''$'' # x) = a" if "plain_ns a" for a x
    using that by (induction a) (auto simp: plain_ns_def)
  with assms show ?thesis by (metis append_same_eq list.inject same_append_eq)
qed

lemma derive_inject:
  assumes "plain_ns ns" "plain_ns ns'"
  shows "deriveHashedDataNs ns coll = deriveHashedDataNs ns' coll' \<longleftrightarrow> ns = ns' \<and> coll = coll'"
    and "derivePvtDataNs ns coll = derivePvtDataNs ns' coll' \<longleftrightarrow> ns = ns' \<and> coll = coll'"
    and "deriveHashedDataNs ns coll \<noteq> derivePvtDataNs ns' coll'"
    and "derivePvtDataNs ns coll \<noteq> deriveHashedDataNs ns' coll'"
  using plain_append_inject [OF assms]
  by (auto simp: deriveHashedDataNs_def derivePvtDataNs_def nsJoiner_def hashDataPrefix_def pvtDataPrefix_def)

lemma plain_ne_derive:
  "plain_ns ns \<Longrightarrow> ns \<noteq> deriveHashedDataNs ns' coll" "plain_ns ns \<Longrightarrow> ns \<noteq> derivePvtDataNs ns' coll"
  "plain_ns ns \<Longrightarrow> deriveHashedDataNs ns' coll \<noteq> ns" "plain_ns ns \<Longrightarrow> derivePvtDataNs ns' coll \<noteq> ns"
  by (auto simp: plain_ns_def deriveHashedDataNs_def derivePvtDataNs_def nsJoiner_def)

definition plain_updates :: "PrivUpdateBatch \<Rightarrow> bool" where
  "plain_updates u \<longleftrightarrow> wf_umap (HashUpdates u) \<and> wf_umap (PvtUpdates u) \<and>
     (\<forall>ns \<in> fst ` set (HashUpdates u) \<union> fst ` set (PvtUpdates u) \<union> fst ` set (Updates (PubUpdates u)). plain_ns ns)"

lemma entries_ns: "(ns, coll, key, vv) \<in> set (UpdateMap_entries b) \<Longrightarrow> ns \<in> fst ` set b"
  by (force simp: UpdateMap_entries_def)

lemma Get_dom: "UpdateBatch_Get b ns key = Some vv \<Longrightarrow> ns \<in> fst ` set (Updates b)"
  by (force simp: UpdateBatch_Get_def dest: map_of_SomeD split: option.splits)

lemma UpdateMap_Get_dom: "UpdateMap_Get b ns coll key = Some vv \<Longrightarrow> ns \<in> fst ` set b"
  by (force simp: UpdateMap_Get_def dest: map_of_SomeD split: option.splits)

lemma Get_combinedUpdates:
  fixes bks :: bool
  assumes "plain_updates u" and "plain_ns ns"
  defines "k \<equiv> (\<lambda>keyHash. if \<not> bks then base64_EncodeToString keyHash else keyHash)"
  shows "UpdateBatch_Get (combinedUpdates bks u) ns key = UpdateBatch_Get (PubUpdates u) ns key"
    and "UpdateBatch_Get (combinedUpdates bks u) (derivePvtDataNs ns coll) key = UpdateMap_Get (PvtUpdates u) ns coll key"
    and "UpdateBatch_Get (combinedUpdates bks u) (deriveHashedDataNs ns coll) (k keyHash) =
      UpdateMap_Get (HashUpdates u) ns coll keyHash"
proof -
  let ?p = "copy_entries derivePvtDataNs id (UpdateMap_entries (PvtUpdates u)) (PubUpdates u)"
  have comb: "combinedUpdates bks u = copy_entries deriveHashedDataNs k (UpdateMap_entries (HashUpdates u)) ?p"
    by (simp add: combinedUpdates_def addHashedUpdates_def addPvtUpdates_def copy_entries_def k_def)
  have kinj: "k a = k b \<longleftrightarrow> a = b" for a b by (simp add: k_def base64_inject)
  have wf: "wf_umap (HashUpdates u)" "wf_umap (PvtUpdates u)" using assms(1) by (auto simp: plain_updates_def)
  have plain: "plain_ns n" if "(n, c, x, vv) \<in> set (UpdateMap_entries (HashUpdates u)) \<or> (n, c, x, vv) \<in> set (UpdateMap_entries (PvtUpdates u))" for n c x vv
    using that assms(1) entries_ns [of n c x vv "HashUpdates u"] entries_ns [of n c x vv "PvtUpdates u"]
    unfolding plain_updates_def by (metis UnI1 UnI2)
  have pub_none: "UpdateBatch_Get (PubUpdates u) N K = None" if "\<not> plain_ns N" for N K
    using that assms(1) Get_dom [of "PubUpdates u" N K] unfolding plain_updates_def by (cases "UpdateBatch_Get (PubUpdates u) N K") auto
  have np: "\<not> plain_ns (derivePvtDataNs n c)" "\<not> plain_ns (deriveHashedDataNs n c)" for n c
    by (auto simp: plain_ns_def derivePvtDataNs_def deriveHashedDataNs_def nsJoiner_def)
  have plainH: "plain_ns (fst e)" if "e \<in> set (UpdateMap_entries (HashUpdates u))" for e
    using that plain by (cases e rule: prod_cases4) auto
  have plainP: "plain_ns (fst e)" if "e \<in> set (UpdateMap_entries (PvtUpdates u))" for e
    using that plain by (cases e rule: prod_cases4) auto
  show "UpdateBatch_Get (combinedUpdates bks u) ns key = UpdateBatch_Get (PubUpdates u) ns key"
    unfolding comb using plain_ne_derive [OF assms(2)] by (simp add: Get_copy_miss hits_def)
  have "UpdateBatch_Get (combinedUpdates bks u) (derivePvtDataNs ns coll) (id key) = UpdateBatch_Get ?p (derivePvtDataNs ns coll) (id key)"
    unfolding comb by (rule Get_copy_miss) (auto simp: hits_def derive_inject(3) [OF plainH assms(2)])
  also have "\<dots> = UpdateMap_Get (PvtUpdates u) ns coll key"
    using derive_inject(2) [OF plainP assms(2)]
    by (subst Get_copy_umap [OF wf(2)]) (auto simp: hits_def pub_none [OF np(1)] split: option.split)
  finally show "UpdateBatch_Get (combinedUpdates bks u) (derivePvtDataNs ns coll) key = UpdateMap_Get (PvtUpdates u) ns coll key"
    by simp
  have "UpdateBatch_Get ?p (deriveHashedDataNs ns coll) (k keyHash) = UpdateBatch_Get (PubUpdates u) (deriveHashedDataNs ns coll) (k keyHash)"
    by (rule Get_copy_miss) (auto simp: hits_def derive_inject(4) [OF plainP assms(2)])
  then have "UpdateBatch_Get ?p (deriveHashedDataNs ns coll) (k keyHash) = None"
    by (simp add: pub_none [OF np(2)])
  then show "UpdateBatch_Get (combinedUpdates bks u) (deriveHashedDataNs ns coll) (k keyHash) = UpdateMap_Get (HashUpdates u) ns coll keyHash"
    unfolding comb using derive_inject(1) [OF plainH assms(2)]
    by (subst Get_copy_umap [OF wf(1)]) (auto simp: hits_def kinj split: option.split)
qed

section \<open>The metadata hint\<close>

lemma map_of_fold_mark:
  "map_of (fold (\<lambda>e m. if P e then m else mput (f e) True m) es m0) k =
     (if \<exists>e \<in> set es. \<not> P e \<and> f e = k then Some True else map_of m0 k)"
  by (induction es arbitrary: m0) (auto simp: gomap_simps)

lemma map_of_filterNamespaces:
  assumes "wf_batch (PubUpdates u)" and "wf_umap (HashUpdates u)"
  shows "map_of (filterNamespacesThatHasMetadata u) ns =
    (if (\<exists>key vv. UpdateBatch_Get (PubUpdates u) ns key = Some vv \<and> vvMetadata vv \<noteq> None) \<or>
        (\<exists>coll key vv. UpdateMap_Get (HashUpdates u) ns coll key = Some vv \<and> vvMetadata vv \<noteq> None)
     then Some True else None)"
proof -
  let ?P = "\<lambda>e :: gostring \<times> VersionedValue. vvMetadata (snd e) = None"
  let ?pub = "fold (\<lambda>n m. fold (\<lambda>e m'. if ?P e then m' else mput n True m') (GetUpdates (PubUpdates u) n) m)"
  have pub: "map_of (?pub nss m0) ns =
      (if ns \<in> set nss \<and> (\<exists>e \<in> set (GetUpdates (PubUpdates u) ns). \<not> ?P e) then Some True else map_of m0 ns)" for nss m0
  proof (induction nss arbitrary: m0)
    case (Cons n nss)
    define E where "E n \<longleftrightarrow> (\<exists>e \<in> set (GetUpdates (PubUpdates u) n). \<not> ?P e)" for n
    have "map_of (?pub (n # nss) m0) ns =
        (if ns \<in> set nss \<and> E ns then Some True else if E n \<and> n = ns then Some True else map_of m0 ns)"
      by (simp only: fold_simps Cons map_of_fold_mark [of ?P "\<lambda>_. n"] E_def bex_simps)
    also have "\<dots> = (if ns \<in> set (n # nss) \<and> E ns then Some True else map_of m0 ns)"
      by (cases "n = ns"; cases "E ns") simp_all
    finally show ?case by (simp only: E_def)
  qed simp
  have e: "(\<exists>e \<in> set (GetUpdates (PubUpdates u) ns). \<not> ?P e) \<longleftrightarrow>
      (\<exists>key vv. UpdateBatch_Get (PubUpdates u) ns key = Some vv \<and> vvMetadata vv \<noteq> None)"
    unfolding Bex_def split_paired_Ex map_of_Some_mem [OF wf_GetUpdates [OF assms(1), of ns], symmetric] GetUpdates_map_of
    by simp
  have d: "ns \<in> set (GetUpdatedNamespaces (PubUpdates u))" if "UpdateBatch_Get (PubUpdates u) ns key = Some vv" for key vv
    using Get_dom [OF that] by (simp add: GetUpdatedNamespaces_def)
  have h: "(\<exists>e \<in> set (UpdateMap_entries (HashUpdates u)). vvMetadata (snd (snd (snd e))) \<noteq> None \<and> fst e = ns) \<longleftrightarrow>
      (\<exists>coll key vv. UpdateMap_Get (HashUpdates u) ns coll key = Some vv \<and> vvMetadata vv \<noteq> None)"
    unfolding Bex_def split_paired_Ex fst_conv snd_conv mem_UpdateMap_entries [OF assms(2)] by blast
  have def: "filterNamespacesThatHasMetadata u =
      fold (\<lambda>e m. if vvMetadata (snd (snd (snd e))) = None then m else mput (fst e) True m) (UpdateMap_entries (HashUpdates u))
        (?pub (GetUpdatedNamespaces (PubUpdates u)) [])"
    by (simp add: filterNamespacesThatHasMetadata_def case_prod_unfold)
  show ?thesis
    unfolding def map_of_fold_mark pub h e using d by (auto simp del: not_None_eq)
qed

lemma metadataEverUsedFor_mput: "metadataEverUsedFor (mput n True c) ns \<longleftrightarrow> ns = n \<or> metadataEverUsedFor c ns"
  by (auto simp: metadataEverUsedFor_def gomap_simps)

text \<open>The flag is set for the marked namespaces, in the cache and in what is written to the bookkeeping store.\<close>

lemma set_flags_fold:
  assumes "fold (\<lambda>(ns, _) (c, batch). if metadataEverUsedFor c ns then (c, batch) else (mput ns True c, batch @ [ns])) m (c, b) = (c', b')"
  shows "metadataEverUsedFor c' ns \<longleftrightarrow> metadataEverUsedFor c ns \<or> ns \<in> fst ` set m"
    and "ns \<in> set b' \<longleftrightarrow> ns \<in> set b \<or> (ns \<in> fst ` set m \<and> \<not> metadataEverUsedFor c ns)"
proof -
  have "(metadataEverUsedFor c' ns \<longleftrightarrow> metadataEverUsedFor c ns \<or> ns \<in> fst ` set m) \<and>
      (ns \<in> set b' \<longleftrightarrow> ns \<in> set b \<or> (ns \<in> fst ` set m \<and> \<not> metadataEverUsedFor c ns))"
    using assms
  proof (induction m arbitrary: c b)
    case (Cons p m)
    obtain n x where p: "p = (n, x)" by fastforce
    show ?case
    proof (cases "metadataEverUsedFor c n")
      case True
      with Cons.prems Cons.IH [of c b] p show ?thesis by auto
    next
      case False
      with Cons.prems Cons.IH [of "mput n True c" "b @ [n]"] p show ?thesis by (auto simp: metadataEverUsedFor_mput)
    qed
  qed simp
  then show "metadataEverUsedFor c' ns \<longleftrightarrow> metadataEverUsedFor c ns \<or> ns \<in> fst ` set m"
    and "ns \<in> set b' \<longleftrightarrow> ns \<in> set b \<or> (ns \<in> fst ` set m \<and> \<not> metadataEverUsedFor c ns)" by blast+
qed

lemma metadataEverUsedFor_newMetadataHint: "metadataEverUsedFor (newMetadataHint bk) ns \<longleftrightarrow> ns \<in> set bk"
proof -
  have "metadataEverUsedFor (fold (\<lambda>n c. mput n True c) bk c) ns \<longleftrightarrow> metadataEverUsedFor c ns \<or> ns \<in> set bk" for c
    by (induction bk arbitrary: c) (auto simp: metadataEverUsedFor_mput)
  then show ?thesis by (simp add: newMetadataHint_def metadataEverUsedFor_def [of "[]"])
qed

text \<open>What the optimisation relies on: where the hint is not set, no stored item carries metadata.\<close>

definition hint_sound :: "(gostring, bool) gomap \<Rightarrow> (gostring \<Rightarrow> gostring \<rightharpoonup> VersionedValue) \<Rightarrow> bool" where
  "hint_sound cache st \<longleftrightarrow>
     (\<forall>ns. plain_ns ns \<and> \<not> metadataEverUsedFor cache ns \<longrightarrow>
        (\<forall>key vv. st ns key = Some vv \<longrightarrow> vvMetadata vv = None) \<and>
        (\<forall>coll keyHash vv. st (deriveHashedDataNs ns coll) keyHash = Some vv \<longrightarrow> vvMetadata vv = None))"

lemma overlay_cases:
  "overlay st b ns key = Some vv \<Longrightarrow> UpdateBatch_Get b ns key = Some vv \<or> st ns key = Some vv"
  by (auto simp: overlay_def split: option.splits if_splits)

lemma Get_combined_hashed:
  assumes "plain_updates u" and "plain_ns ns"
    and "UpdateBatch_Get (combinedUpdates bks u) (deriveHashedDataNs ns coll) K = Some vv"
  obtains keyHash where "UpdateMap_Get (HashUpdates u) ns coll keyHash = Some vv"
proof -
  define k where "k = (\<lambda>keyHash. if \<not> bks then base64_EncodeToString keyHash else keyHash)"
  have "\<exists>keyHash. K = k keyHash"
  proof (rule ccontr)
    assume nk: "\<not> (\<exists>keyHash. K = k keyHash)"
    let ?p = "copy_entries derivePvtDataNs id (UpdateMap_entries (PvtUpdates u)) (PubUpdates u)"
    have comb: "combinedUpdates bks u = copy_entries deriveHashedDataNs k (UpdateMap_entries (HashUpdates u)) ?p"
      by (simp add: combinedUpdates_def addHashedUpdates_def addPvtUpdates_def copy_entries_def k_def)
    have "UpdateBatch_Get (combinedUpdates bks u) (deriveHashedDataNs ns coll) K = UpdateBatch_Get ?p (deriveHashedDataNs ns coll) K"
      unfolding comb by (rule Get_copy_miss) (use nk in \<open>auto simp: hits_def\<close>)
    also have "\<dots> = UpdateBatch_Get (PubUpdates u) (deriveHashedDataNs ns coll) K"
    proof (rule Get_copy_miss, rule ballI)
      fix e assume "e \<in> set (UpdateMap_entries (PvtUpdates u))"
      then have "plain_ns (fst e)"
        using assms(1) entries_ns [of "fst e" "fst (snd e)" "fst (snd (snd e))" "snd (snd (snd e))" "PvtUpdates u"]
        unfolding plain_updates_def by (metis UnI1 UnI2 prod.collapse)
      from derive_inject(4) [OF this assms(2)] show "\<not> hits derivePvtDataNs id (deriveHashedDataNs ns coll) K e"
        by (simp add: hits_def)
    qed
    also have "\<dots> = None"
      using Get_dom [of "PubUpdates u" "deriveHashedDataNs ns coll" K] assms(1)
      by (cases "UpdateBatch_Get (PubUpdates u) (deriveHashedDataNs ns coll) K")
         (auto simp: plain_updates_def dest: plain_ne_derive(1))
    finally show False using assms(3) by simp
  qed
  then obtain keyHash where "K = k keyHash" by blast
  with Get_combinedUpdates(3) [OF assms(1,2), of bks coll keyHash] assms(3) that show thesis
    by (simp add: k_def)
qed

lemma wf_batch_copy: "wf_batch b \<Longrightarrow> wf_batch (copy_entries f g es b)"
  by (induction es rule: rev_induct) (auto simp: copy_entries_def)

lemma wf_combinedUpdates: "wf_batch (PubUpdates u) \<Longrightarrow> wf_batch (combinedUpdates bks u)"
  unfolding combinedUpdates_def addHashedUpdates_def addPvtUpdates_def copy_entries_def [symmetric]
  by (intro wf_batch_copy [where g = id, unfolded id_def] wf_batch_copy)

lemma map_of_fst_mem: "map_of m k = Some v \<Longrightarrow> k \<in> fst ` set m"
  by (force dest: map_of_SomeD)

lemma hint_sound_apply:
  assumes "plain_updates u" and "wf_batch (PubUpdates u)" and "hint_sound cache st"
    and "setMetadataUsedFlag wb (u\<lparr>PubUpdates := combinedUpdates bks u\<rparr>) (cache, bk) = Inr (cache', bk')"
  shows "hint_sound cache' (overlay st (combinedUpdates bks u))"
proof -
  let ?u = "u\<lparr>PubUpdates := combinedUpdates bks u\<rparr>"
  let ?flt = "filterNamespacesThatHasMetadata ?u"
  obtain batch where "fold (\<lambda>(ns, _) (c, batch). if metadataEverUsedFor c ns then (c, batch) else (mput ns True c, batch @ [ns]))
      ?flt (cache, []) = (cache', batch)"
    using assms(4) by (auto simp: setMetadataUsedFlag_def Let_def bindR_Inr_iff split: prod.splits)
  note c' = set_flags_fold(1) [OF this]
  have flt: "map_of ?flt ns = Some True"
    if "(\<exists>key vv. UpdateBatch_Get (combinedUpdates bks u) ns key = Some vv \<and> vvMetadata vv \<noteq> None) \<or>
      (\<exists>coll key vv. UpdateMap_Get (HashUpdates u) ns coll key = Some vv \<and> vvMetadata vv \<noteq> None)" for ns
    using that assms(1) wf_combinedUpdates [OF assms(2), of bks]
    by (subst map_of_filterNamespaces) (auto simp: plain_updates_def)
  show ?thesis
    unfolding hint_sound_def
  proof (intro allI impI conjI)
    fix ns key vv
    assume ns: "plain_ns ns \<and> \<not> metadataEverUsedFor cache' ns" and "overlay st (combinedUpdates bks u) ns key = Some vv"
    then consider "UpdateBatch_Get (combinedUpdates bks u) ns key = Some vv" | "st ns key = Some vv"
      using overlay_cases by blast
    then show "vvMetadata vv = None"
    proof cases
      case 1
      with ns c' flt map_of_fst_mem show ?thesis by metis
    next
      case 2
      with ns assms(3) c' show ?thesis unfolding hint_sound_def by blast
    qed
  next
    fix ns coll keyHash vv
    assume ns: "plain_ns ns \<and> \<not> metadataEverUsedFor cache' ns"
      and "overlay st (combinedUpdates bks u) (deriveHashedDataNs ns coll) keyHash = Some vv"
    then consider "UpdateBatch_Get (combinedUpdates bks u) (deriveHashedDataNs ns coll) keyHash = Some vv"
      | "st (deriveHashedDataNs ns coll) keyHash = Some vv"
      using overlay_cases by blast
    then show "vvMetadata vv = None"
    proof cases
      case 1
      with ns obtain kh where "UpdateMap_Get (HashUpdates u) ns coll kh = Some vv"
        using Get_combined_hashed [OF assms(1)] by metis
      with ns c' flt map_of_fst_mem show ?thesis by metis
    next
      case 2
      with ns assms(3) c' show ?thesis unfolding hint_sound_def by blast
    qed
  qed
qed

section \<open>Properties\<close>

text \<open>The update of one item by an entry of a batch.\<close>

definition updated :: "VersionedValue option \<Rightarrow> VersionedValue option \<Rightarrow> VersionedValue option" where
  "updated new old = (case new of None \<Rightarrow> old | Some vv \<Rightarrow> if VersionedValue_IsDelete vv then None else Some vv)"

text \<open>
  C24. Public, private and hashed updates go into one batch without interfering: once the batch is applied, a public key
  holds what the public updates say, a private key what the private updates say, and a key hash what the hashed updates
  say, each under its own derived namespace and, for a database with text keys only, under the base 64 form of the hash.
  (Chaincode names contain no dollar sign.)
\<close>

theorem privacy_aware_updates_do_not_interfere:
  assumes "plain_updates u" and "plain_ns ns"
  shows "overlay st (combinedUpdates bks u) ns key = updated (UpdateBatch_Get (PubUpdates u) ns key) (st ns key) \<and>
    overlay st (combinedUpdates bks u) (derivePvtDataNs ns coll) key =
      updated (UpdateMap_Get (PvtUpdates u) ns coll key) (st (derivePvtDataNs ns coll) key) \<and>
    overlay st (combinedUpdates bks u) (deriveHashedDataNs ns coll) (if \<not> bks then base64_EncodeToString keyHash else keyHash) =
      updated (UpdateMap_Get (HashUpdates u) ns coll keyHash)
        (st (deriveHashedDataNs ns coll) (if \<not> bks then base64_EncodeToString keyHash else keyHash))"
  using Get_combinedUpdates [OF assms, of bks] by (simp add: overlay_def updated_def)

definition sample_priv_updates :: PrivUpdateBatch where
  "sample_priv_updates =
     \<lparr>PubUpdates = sample_batch, HashUpdates = UpdateMap_Delete [] ''ns'' ''c'' ''h'' (NewHeight 2 0), PvtUpdates = []\<rparr>"

lemma sample_priv_updates_ok: "plain_updates sample_priv_updates" "wf_batch (PubUpdates sample_priv_updates)" "plain_ns ''ns''"
proof -
  have wf: "wf_umap (HashUpdates sample_priv_updates)" "wf_umap (PvtUpdates sample_priv_updates)"
    by (simp_all add: sample_priv_updates_def UpdateMap_Delete_ok)
  have "map fst (HashUpdates sample_priv_updates) = [''ns'']" "map fst (PvtUpdates sample_priv_updates) = []"
    "map fst (Updates (PubUpdates sample_priv_updates)) = [''ns'']" by code_simp+
  then have "fst ` set (HashUpdates sample_priv_updates) = {''ns''}" "fst ` set (PvtUpdates sample_priv_updates) = {}"
    "fst ` set (Updates (PubUpdates sample_priv_updates)) = {''ns''}" by (simp_all flip: set_map)
  with wf show "plain_updates sample_priv_updates" by (simp add: plain_updates_def plain_ns_def)
  show "wf_batch (PubUpdates sample_priv_updates)" by (simp add: sample_priv_updates_def)
  show "plain_ns ''ns''" by (simp add: plain_ns_def)
qed

theorem privacy_aware_updates_do_not_interfere_witness:
  "overlay (\<lambda>_ _. None) (combinedUpdates False sample_priv_updates) (deriveHashedDataNs ''ns'' ''c'') (base64_EncodeToString ''h'') =
     updated (UpdateMap_Get (HashUpdates sample_priv_updates) ''ns'' ''c'' ''h'') None \<and>
   base64_EncodeToString ''h'' = ''aA==''"
proof
  show "overlay (\<lambda>_ _. None) (combinedUpdates False sample_priv_updates) (deriveHashedDataNs ''ns'' ''c'') (base64_EncodeToString ''h'') =
     updated (UpdateMap_Get (HashUpdates sample_priv_updates) ''ns'' ''c'' ''h'') None"
    by (rule privacy_aware_updates_do_not_interfere [OF sample_priv_updates_ok(1,3), of _ False,
        THEN conjunct2, THEN conjunct2, unfolded not_False_eq_True if_True])
  show "base64_EncodeToString ''h'' = ''aA==''" by (simp add: sextet_def base64_alphabet_def Let_def)
qed

text \<open>
  C25. The metadata hint stays sound when updates are committed: if no item of the namespaces without the hint carries
  metadata before, the same holds after, so that the short cut of \<open>GetStateMetadata\<close> and
  \<open>GetPrivateDataMetadataByHash\<close> never hides metadata. \<open>applyUpdates\<close> applies a batch to the state \<open>st\<close>.
\<close>

theorem metadata_hint_stays_sound:
  assumes "ApplyPrivacyAwareUpdates (\<lambda>b _ st. Inr (overlay st b)) writeBatch bks u height (st, cache, bk) = Inr (st', cache', bk')"
    and "plain_updates u" and "wf_batch (PubUpdates u)" and "hint_sound cache st"
  shows "hint_sound cache' st'"
  using assms(1) hint_sound_apply [OF assms(2-4)]
  by (auto simp: ApplyPrivacyAwareUpdates_def Let_def bindR_Inr_iff)

theorem metadata_hint_stays_sound_witness:
  "\<exists>st' cache' bk'. ApplyPrivacyAwareUpdates (\<lambda>b _ st. Inr (overlay st b)) (\<lambda>new old. Inr (old @ new)) True
     sample_priv_updates None ((\<lambda>_ _. None), [], []) = Inr (st', cache', bk') \<and> hint_sound cache' st'"
proof -
  have "hint_sound [] (\<lambda>_ _. None)" by (simp add: hint_sound_def)
  moreover obtain st' cache' bk' where "ApplyPrivacyAwareUpdates (\<lambda>b _ st. Inr (overlay st b)) (\<lambda>new old. Inr (old @ new)) True
     sample_priv_updates None ((\<lambda>_ _. None), [], []) = Inr (st', cache', bk')"
  proof -
    have "\<exists>r. ApplyPrivacyAwareUpdates (\<lambda>b _ st. Inr (overlay st b)) (\<lambda>new old. Inr (old @ new)) True
        sample_priv_updates None ((\<lambda>_ _. None), [], []) = Inr r"
      by (simp add: ApplyPrivacyAwareUpdates_def setMetadataUsedFlag_def case_prod_unfold Let_def)
    with that show thesis by (metis prod_cases3)
  qed
  ultimately show ?thesis using metadata_hint_stays_sound [OF _ sample_priv_updates_ok(1,2)] by blast
qed

end
