(* ===== verification/Tx_Ops.thy ===== *)
theory Tx_Ops
  imports Privacy_State
begin

unbundle bit_operations_syntax

text \<open>
  The writes of a transaction on top of the updates of the preceding transactions of the block:
  \<open>core/ledger/kvledger/txmgmt/validation/tx_ops.go\<close> and \<open>types.go\<close>. The flags of a key are an 8-bit number that the code
  adds to; \<open>statemetadata.Serialize\<close> (a \<open>proto.Marshal\<close>) and the hash function are parameters.
\<close>

section \<open>Operations on the keys of a transaction\<close>

record compositeKey =
  ck_ns :: gostring
  ck_coll :: gostring
  ck_key :: gostring

definition upsertVal :: u8 where "upsertVal = 1"

definition metadataUpdate :: u8 where "metadataUpdate = 2"

definition metadataDelete :: u8 where "metadataDelete = 4"

definition keyDelete :: u8 where "keyDelete = 8"

record keyOps =
  koFlag :: u8
  koValue :: "bytes option"
  koMetadata :: "bytes option"

type_synonym txOps = "(compositeKey, keyOps) gomap"

definition getOrCreateKeyEntry :: "txOps \<Rightarrow> compositeKey \<Rightarrow> keyOps" where
  "getOrCreateKeyEntry txops k =
     (case map_of txops k of None \<Rightarrow> \<lparr>koFlag = 0, koValue = None, koMetadata = None\<rparr> | Some keyops \<Rightarrow> keyops)"

definition txOps_upsert :: "compositeKey \<Rightarrow> bytes \<Rightarrow> txOps \<Rightarrow> txOps" where
  "txOps_upsert k val txops =
     (let keyops = getOrCreateKeyEntry txops k
      in mput k (keyops\<lparr>koFlag := koFlag keyops + upsertVal, koValue := Some val\<rparr>) txops)"

definition txOps_delete :: "compositeKey \<Rightarrow> txOps \<Rightarrow> txOps" where
  "txOps_delete k txops =
     (let keyops = getOrCreateKeyEntry txops k in mput k (keyops\<lparr>koFlag := koFlag keyops + keyDelete\<rparr>) txops)"

definition txOps_metadataUpdate :: "compositeKey \<Rightarrow> bytes \<Rightarrow> txOps \<Rightarrow> txOps" where
  "txOps_metadataUpdate k metadata txops =
     (let keyops = getOrCreateKeyEntry txops k
      in mput k (keyops\<lparr>koFlag := koFlag keyops + metadataUpdate, koMetadata := Some metadata\<rparr>) txops)"

definition txOps_metadataDelete :: "compositeKey \<Rightarrow> txOps \<Rightarrow> txOps" where
  "txOps_metadataDelete k txops =
     (let keyops = getOrCreateKeyEntry txops k in mput k (keyops\<lparr>koFlag := koFlag keyops + metadataDelete\<rparr>) txops)"

definition keyOps_isDelete :: "keyOps \<Rightarrow> bool" where
  "keyOps_isDelete keyops \<longleftrightarrow> koFlag keyops AND keyDelete = keyDelete"

definition isUpsertAndMetadataUpdate :: "keyOps \<Rightarrow> bool" where
  "isUpsertAndMetadataUpdate keyops \<longleftrightarrow>
     (if koFlag keyops AND upsertVal = upsertVal
      then koFlag keyops AND metadataUpdate = metadataUpdate \<or> koFlag keyops AND metadataDelete = metadataDelete
      else False)"

definition isOnlyUpsert :: "keyOps \<Rightarrow> bool" where
  "isOnlyUpsert keyops \<longleftrightarrow> koFlag keyops OR upsertVal = upsertVal"

definition applyKVWrite :: "gostring \<Rightarrow> gostring \<Rightarrow> KVWrite \<Rightarrow> txOps \<Rightarrow> txOps" where
  "applyKVWrite ns coll kvWrite txops =
     (if IsKVWriteDelete kvWrite
      then txOps_delete \<lparr>ck_ns = ns, ck_coll = coll, ck_key = kwKey kvWrite\<rparr> txops
      else txOps_upsert \<lparr>ck_ns = ns, ck_coll = coll, ck_key = kwKey kvWrite\<rparr> (kwValue kvWrite) txops)"

definition applyMetadata ::
  "(KVMetadataEntry list \<Rightarrow> bytes result) \<Rightarrow> gostring \<Rightarrow> gostring \<Rightarrow> KVMetadataWrite \<Rightarrow> txOps \<Rightarrow> txOps result" where
  "applyMetadata serialize ns coll metadataWrite txops =
     (if mwEntries metadataWrite = []
      then Inr (txOps_metadataDelete \<lparr>ck_ns = ns, ck_coll = coll, ck_key = mwKey metadataWrite\<rparr> txops)
      else bindR (serialize (mwEntries metadataWrite)) (\<lambda>metadataBytes.
             Inr (txOps_metadataUpdate \<lparr>ck_ns = ns, ck_coll = coll, ck_key = mwKey metadataWrite\<rparr> metadataBytes txops)))"

definition hashedKVWrite :: "(bytes \<Rightarrow> bytes) \<Rightarrow> KVWriteHash \<Rightarrow> KVWrite" where
  "hashedKVWrite hash w =
     \<lparr>kwKey = whKeyHash w, kwIsDelete = IsKVWriteHashDelete hash w, kwValue = whValueHash w\<rparr>"

definition hashedMetadataWrite :: "KVMetadataWriteHash \<Rightarrow> KVMetadataWrite" where
  "hashedMetadataWrite w = \<lparr>mwKey = mhKeyHash w, mwEntries = mhEntries w\<rparr>"

definition applyTxRwset ::
  "(KVMetadataEntry list \<Rightarrow> bytes result) \<Rightarrow> (bytes \<Rightarrow> bytes) \<Rightarrow> TxRwSet \<Rightarrow> txOps \<Rightarrow> txOps result" where
  "applyTxRwset serialize hash rwset =
     foldR (\<lambda>nsRWSet txops0.
       let ns = rwNameSpace nsRWSet;
           txops1 = fold (applyKVWrite ns '''') (Writes (rwKvRwSet nsRWSet)) txops0
       in bindR (foldR (applyMetadata serialize ns '''') (MetadataWrites (rwKvRwSet nsRWSet)) txops1) (\<lambda>txops2.
          foldR (\<lambda>collHashRWset txops3.
            let coll = crCollectionName collHashRWset;
                txops4 = fold (\<lambda>w. applyKVWrite ns coll (hashedKVWrite hash w)) (HashedWrites (crHashedRwSet collHashRWset)) txops3
            in foldR (\<lambda>w. applyMetadata serialize ns coll (hashedMetadataWrite w))
                 (HashedMetadataWrites (crHashedRwSet collHashRWset)) txops4)
            (rwCollHashedRwSets nsRWSet) txops2)) rwset"

section \<open>Merging with the latest state\<close>

record publicAndHashUpdates =
  publicUpdates :: PubUpdateBatch
  hashUpdates :: HashedUpdateBatch

definition newPubAndHashUpdates :: publicAndHashUpdates where
  "newPubAndHashUpdates = \<lparr>publicUpdates = NewPubUpdateBatch, hashUpdates = NewHashedUpdateBatch\<rparr>"

definition retrieveLatestState ::
  "compositeKey \<Rightarrow> publicAndHashUpdates \<Rightarrow> DB \<Rightarrow> VersionedValue option result" where
  "retrieveLatestState ck precedingUpdates db =
     (if ck_coll ck = '''' then
        (case UpdateBatch_Get (publicUpdates precedingUpdates) (ck_ns ck) (ck_key ck) of
           None \<Rightarrow> DB_GetState db (ck_ns ck) (ck_key ck)
         | Some vv \<Rightarrow> Inr (Some vv))
      else
        (case UpdateMap_Get (hashUpdates precedingUpdates) (ck_ns ck) (ck_coll ck) (ck_key ck) of
           None \<Rightarrow> GetValueHash db (ck_ns ck) (ck_coll ck) (ck_key ck)
         | Some vv \<Rightarrow> Inr (Some vv)))"

definition retrieveLatestMetadata ::
  "compositeKey \<Rightarrow> publicAndHashUpdates \<Rightarrow> DB \<Rightarrow> bytes option result" where
  "retrieveLatestMetadata ck precedingUpdates db =
     (if ck_coll ck = '''' then
        (case UpdateBatch_Get (publicUpdates precedingUpdates) (ck_ns ck) (ck_key ck) of
           Some vv \<Rightarrow> Inr (vvMetadata vv)
         | None \<Rightarrow> GetStateMetadata db (ck_ns ck) (ck_key ck))
      else
        (case UpdateMap_Get (hashUpdates precedingUpdates) (ck_ns ck) (ck_coll ck) (ck_key ck) of
           Some vv \<Rightarrow> Inr (vvMetadata vv)
         | None \<Rightarrow> GetPrivateDataMetadataByHash db (ck_ns ck) (ck_coll ck) (ck_key ck)))"

text \<open>The body of the loop of \<open>prepareTxOps\<close>: the operation with the latest state merged in, or \<^const>\<open>None\<close> when the
  key is removed from the operations.\<close>

definition mergeLatest ::
  "publicAndHashUpdates \<Rightarrow> DB \<Rightarrow> compositeKey \<Rightarrow> keyOps \<Rightarrow> keyOps option result" where
  "mergeLatest precedingUpdates db ck keyop =
     (if keyOps_isDelete keyop \<or> isUpsertAndMetadataUpdate keyop then Inr (Some keyop)
      else if isOnlyUpsert keyop then
        bindR (retrieveLatestMetadata ck precedingUpdates db) (\<lambda>latestMetadata.
          Inr (Some (keyop\<lparr>koMetadata := latestMetadata\<rparr>)))
      else
        bindR (retrieveLatestState ck precedingUpdates db) (\<lambda>latestVal.
          case latestVal of
            Some vv \<Rightarrow> Inr (Some (keyop\<lparr>koValue := vvValue vv\<rparr>))
          | None \<Rightarrow> Inr None))"

definition prepareTxOps ::
  "(KVMetadataEntry list \<Rightarrow> bytes result) \<Rightarrow> (bytes \<Rightarrow> bytes) \<Rightarrow> TxRwSet \<Rightarrow> publicAndHashUpdates \<Rightarrow> DB \<Rightarrow> txOps result" where
  "prepareTxOps serialize hash rwset precedingUpdates db =
     bindR (applyTxRwset serialize hash rwset []) (\<lambda>txops.
       foldR (\<lambda>(ck, keyop) acc.
         bindR (mergeLatest precedingUpdates db ck keyop) (\<lambda>r.
           Inr (case r of None \<Rightarrow> acc | Some keyop' \<Rightarrow> acc @ [(ck, keyop')]))) txops [])"

definition applyKeyOp :: "Height \<Rightarrow> compositeKey \<times> keyOps \<Rightarrow> publicAndHashUpdates \<Rightarrow> publicAndHashUpdates result" where
  "applyKeyOp txHeight = (\<lambda>(ck, keyops) u.
     if ck_coll ck = '''' then
       (if keyOps_isDelete keyops
        then Inr (u\<lparr>publicUpdates := UpdateBatch_Delete (publicUpdates u) (ck_ns ck) (ck_key ck) txHeight\<rparr>)
        else bindR (UpdateBatch_PutValAndMetadata (publicUpdates u) (ck_ns ck) (ck_key ck) (koValue keyops) (koMetadata keyops) txHeight)
               (\<lambda>b. Inr (u\<lparr>publicUpdates := b\<rparr>)))
     else
       (if keyOps_isDelete keyops
        then Inr (u\<lparr>hashUpdates := HashedUpdateBatch_Delete (hashUpdates u) (ck_ns ck) (ck_coll ck) (ck_key ck) txHeight\<rparr>)
        else bindR (PutValHashAndMetadata (hashUpdates u) (ck_ns ck) (ck_coll ck) (ck_key ck) (koValue keyops) (koMetadata keyops) txHeight)
               (\<lambda>b. Inr (u\<lparr>hashUpdates := b\<rparr>))))"

definition applyWriteSet ::
  "(KVMetadataEntry list \<Rightarrow> bytes result) \<Rightarrow> (bytes \<Rightarrow> bytes) \<Rightarrow> TxRwSet \<Rightarrow> Height \<Rightarrow> DB \<Rightarrow> bool \<Rightarrow>
   publicAndHashUpdates \<Rightarrow> publicAndHashUpdates result" where
  "applyWriteSet serialize hash txRWSet txHeight db containsPostOrderWrites u =
     (let u1 = u\<lparr>publicUpdates := (publicUpdates u)\<lparr>ContainsPostOrderWrites :=
                   ContainsPostOrderWrites (publicUpdates u) \<or> containsPostOrderWrites\<rparr>\<rparr>
      in bindR (prepareTxOps serialize hash txRWSet u1 db) (\<lambda>txops. foldR (applyKeyOp txHeight) txops u1))"

section \<open>Transactions of a block\<close>

type_synonym TxValidationCode = int

definition TxValidationCode_VALID :: TxValidationCode where "TxValidationCode_VALID = 0"

definition TxValidationCode_MVCC_READ_CONFLICT :: TxValidationCode where "TxValidationCode_MVCC_READ_CONFLICT = 11"

definition TxValidationCode_PHANTOM_READ_CONFLICT :: TxValidationCode where "TxValidationCode_PHANTOM_READ_CONFLICT = 12"

record transaction =
  txIndexInBlock :: nat
  txId :: gostring
  txRwset :: "TxRwSet option"
  txValidationCode :: TxValidationCode
  txContainsPostOrderWrites :: bool

record block =
  blkNum :: u64
  blkTxs :: "transaction list"

definition containsPvtWrites :: "transaction \<Rightarrow> bool result" where
  "containsPvtWrites t =
     (case txRwset t of
        None \<Rightarrow> Inl (Panic ''nil pointer dereference'')
      | Some nss \<Rightarrow> Inr (list_ex (\<lambda>ns. list_ex (\<lambda>coll. crPvtRwSetHash coll \<noteq> []) (rwCollHashedRwSets ns)) nss))"

text \<open>Unlike \<open>GetPvtDataHash\<close>, \<open>retrieveHash\<close> goes on to later entries of the same namespace.\<close>

fun retrieveHash_colls :: "CollHashedRwSet list \<Rightarrow> gostring \<Rightarrow> bytes option" where
  "retrieveHash_colls [] coll = None"
| "retrieveHash_colls (c # cs) coll = (if crCollectionName c = coll then Some (crPvtRwSetHash c) else retrieveHash_colls cs coll)"

fun retrieveHash_ns :: "TxRwSet \<Rightarrow> gostring \<Rightarrow> gostring \<Rightarrow> bytes" where
  "retrieveHash_ns [] ns coll = []"
| "retrieveHash_ns (n # nss) ns coll =
     (if rwNameSpace n \<noteq> ns then retrieveHash_ns nss ns coll
      else case retrieveHash_colls (rwCollHashedRwSets n) coll of
             None \<Rightarrow> retrieveHash_ns nss ns coll | Some h \<Rightarrow> h)"

definition retrieveHash :: "transaction \<Rightarrow> gostring \<Rightarrow> gostring \<Rightarrow> bytes" where
  "retrieveHash t ns coll = (case txRwset t of None \<Rightarrow> [] | Some nss \<Rightarrow> retrieveHash_ns nss ns coll)"

section \<open>The operations of a read-write set, key by key\<close>

datatype key_action = AUpsert bytes | ADelete | AMdUpdate bytes | AMdDelete

fun is_md :: "key_action \<Rightarrow> bool" where
  "is_md (AMdUpdate _) = True" | "is_md AMdDelete = True" | "is_md _ = False"

fun act :: "compositeKey \<times> key_action \<Rightarrow> txOps \<Rightarrow> txOps" where
  "act (ck, AUpsert v) = txOps_upsert ck v"
| "act (ck, ADelete) = txOps_delete ck"
| "act (ck, AMdUpdate m) = txOps_metadataUpdate ck m"
| "act (ck, AMdDelete) = txOps_metadataDelete ck"

definition write_action :: "gostring \<Rightarrow> gostring \<Rightarrow> KVWrite \<Rightarrow> compositeKey \<times> key_action" where
  "write_action ns coll w =
     (\<lparr>ck_ns = ns, ck_coll = coll, ck_key = kwKey w\<rparr>, if IsKVWriteDelete w then ADelete else AUpsert (kwValue w))"

definition md_action ::
  "(KVMetadataEntry list \<Rightarrow> bytes result) \<Rightarrow> gostring \<Rightarrow> gostring \<Rightarrow> KVMetadataWrite \<Rightarrow> (compositeKey \<times> key_action) result" where
  "md_action serialize ns coll w =
     (if mwEntries w = [] then Inr (\<lparr>ck_ns = ns, ck_coll = coll, ck_key = mwKey w\<rparr>, AMdDelete)
      else bindR (serialize (mwEntries w)) (\<lambda>b. Inr (\<lparr>ck_ns = ns, ck_coll = coll, ck_key = mwKey w\<rparr>, AMdUpdate b)))"

definition actions_at ::
  "(KVMetadataEntry list \<Rightarrow> bytes result) \<Rightarrow> gostring \<Rightarrow> gostring \<Rightarrow> KVWrite list \<Rightarrow> KVMetadataWrite list \<Rightarrow>
   (compositeKey \<times> key_action) list result" where
  "actions_at serialize ns coll ws ms =
     bindR (mapR (md_action serialize ns coll) ms) (\<lambda>mds. Inr (map (write_action ns coll) ws @ mds))"

definition coll_actions ::
  "(KVMetadataEntry list \<Rightarrow> bytes result) \<Rightarrow> (bytes \<Rightarrow> bytes) \<Rightarrow> gostring \<Rightarrow> CollHashedRwSet \<Rightarrow>
   (compositeKey \<times> key_action) list result" where
  "coll_actions serialize hash ns c =
     actions_at serialize ns (crCollectionName c) (map (hashedKVWrite hash) (HashedWrites (crHashedRwSet c)))
       (map hashedMetadataWrite (HashedMetadataWrites (crHashedRwSet c)))"

definition ns_actions ::
  "(KVMetadataEntry list \<Rightarrow> bytes result) \<Rightarrow> (bytes \<Rightarrow> bytes) \<Rightarrow> NsRwSet \<Rightarrow> (compositeKey \<times> key_action) list result" where
  "ns_actions serialize hash n =
     bindR (actions_at serialize (rwNameSpace n) '''' (Writes (rwKvRwSet n)) (MetadataWrites (rwKvRwSet n))) (\<lambda>pub.
     bindR (mapR (coll_actions serialize hash (rwNameSpace n)) (rwCollHashedRwSets n)) (\<lambda>colls. Inr (pub @ concat colls)))"

definition rwset_actions ::
  "(KVMetadataEntry list \<Rightarrow> bytes result) \<Rightarrow> (bytes \<Rightarrow> bytes) \<Rightarrow> TxRwSet \<Rightarrow> (compositeKey \<times> key_action) list result" where
  "rwset_actions serialize hash rwset = bindR (mapR (ns_actions serialize hash) rwset) (\<lambda>l. Inr (concat l))"

lemma foldR_mapR:
  assumes "\<And>x s. f x s = bindR (g x) (\<lambda>a. Inr (h a s))"
  shows "foldR f xs s = bindR (mapR g xs) (\<lambda>as. Inr (fold h as s))"
proof (induction xs arbitrary: s)
  case (Cons x xs)
  then show ?case by (cases "g x") (simp_all add: assms bindR_assoc)
qed simp

lemma fold_concat_lists: "fold (fold f) ls s = fold f (concat ls) s"
  by (induction ls arbitrary: s) simp_all

lemma applyKVWrite_act: "applyKVWrite ns coll w = act (write_action ns coll w)"
  by (simp add: fun_eq_iff applyKVWrite_def write_action_def)

lemma applyKVWrite_fun: "applyKVWrite ns coll = (\<lambda>w. act (write_action ns coll w))"
  by (simp add: fun_eq_iff applyKVWrite_act)

lemma applyMetadata_act:
  "applyMetadata serialize ns coll w s = bindR (md_action serialize ns coll w) (\<lambda>a. Inr (act a s))"
  by (cases "serialize (mwEntries w)") (simp_all add: applyMetadata_def md_action_def)

lemma actions_at_act:
  "foldR (applyMetadata serialize ns coll) ms (fold (applyKVWrite ns coll) ws s) =
   bindR (actions_at serialize ns coll ws ms) (\<lambda>as. Inr (fold act as s))"
  unfolding foldR_mapR [of "applyMetadata serialize ns coll", OF applyMetadata_act]
  by (cases "mapR (md_action serialize ns coll) ms")
     (simp_all add: actions_at_def applyKVWrite_fun fold_map comp_def)

lemma foldR_map: "foldR f (map g xs) s = foldR (\<lambda>x. f (g x)) xs s"
proof (induction xs arbitrary: s)
  case (Cons x xs)
  then show ?case by (cases "f (g x) s") simp_all
qed simp

lemma coll_actions_act:
  "foldR (\<lambda>w. applyMetadata serialize ns (crCollectionName c) (hashedMetadataWrite w)) (HashedMetadataWrites (crHashedRwSet c))
      (fold (\<lambda>w. applyKVWrite ns (crCollectionName c) (hashedKVWrite hash w)) (HashedWrites (crHashedRwSet c)) s) =
   bindR (coll_actions serialize hash ns c) (\<lambda>as. Inr (fold act as s))"
  unfolding coll_actions_def actions_at_act [symmetric] by (simp add: fold_map comp_def foldR_map)

lemma ns_actions_act:
  "(let ns = rwNameSpace n; t1 = fold (applyKVWrite ns '''') (Writes (rwKvRwSet n)) s
    in bindR (foldR (applyMetadata serialize ns '''') (MetadataWrites (rwKvRwSet n)) t1) (\<lambda>t2.
       foldR (\<lambda>c t3. let coll = crCollectionName c;
             t4 = fold (\<lambda>w. applyKVWrite ns coll (hashedKVWrite hash w)) (HashedWrites (crHashedRwSet c)) t3
         in foldR (\<lambda>w. applyMetadata serialize ns coll (hashedMetadataWrite w)) (HashedMetadataWrites (crHashedRwSet c)) t4)
         (rwCollHashedRwSets n) t2)) =
   bindR (ns_actions serialize hash n) (\<lambda>as. Inr (fold act as s))"
proof (cases "actions_at serialize (rwNameSpace n) '''' (Writes (rwKvRwSet n)) (MetadataWrites (rwKvRwSet n))")
  case (Inr pub)
  have f: "foldR (\<lambda>c t. bindR (coll_actions serialize hash (rwNameSpace n) c) (\<lambda>as. Inr (fold act as t))) cs t =
      bindR (mapR (coll_actions serialize hash (rwNameSpace n)) cs) (\<lambda>ls. Inr (fold act (concat ls) t))" for cs t
    by (subst foldR_mapR [where g = "coll_actions serialize hash (rwNameSpace n)" and h = "fold act"])
       (simp_all add: fold_concat_lists)
  show ?thesis
    unfolding Let_def actions_at_act coll_actions_act Inr
    by (cases "mapR (coll_actions serialize hash (rwNameSpace n)) (rwCollHashedRwSets n)")
       (simp_all add: ns_actions_def Inr f)
qed (simp add: Let_def actions_at_act ns_actions_def)

lemma applyTxRwset_actions:
  "applyTxRwset serialize hash rwset s = bindR (rwset_actions serialize hash rwset) (\<lambda>as. Inr (fold act as s))"
  unfolding applyTxRwset_def
  by (subst foldR_mapR [where g = "ns_actions serialize hash" and h = "fold act", OF ns_actions_act])
     (cases "mapR (ns_actions serialize hash) rwset", simp_all add: rwset_actions_def fold_concat_lists)

text \<open>The write and the metadata write of a key, in a list with at most one of each per key.\<close>

definition wact :: "(compositeKey \<times> key_action) list \<Rightarrow> compositeKey \<Rightarrow> key_action option" where
  "wact acts = map_of (filter (\<lambda>p. \<not> is_md (snd p)) acts)"

definition mact :: "(compositeKey \<times> key_action) list \<Rightarrow> compositeKey \<Rightarrow> key_action option" where
  "mact acts = map_of (filter (\<lambda>p. is_md (snd p)) acts)"

definition wf_acts :: "(compositeKey \<times> key_action) list \<Rightarrow> bool" where
  "wf_acts acts \<longleftrightarrow> wf_map (filter (\<lambda>p. \<not> is_md (snd p)) acts) \<and> wf_map (filter (\<lambda>p. is_md (snd p)) acts)"

fun wflag :: "key_action option \<Rightarrow> u8" where
  "wflag (Some (AUpsert _)) = upsertVal" | "wflag (Some ADelete) = keyDelete" | "wflag _ = 0"

fun mflag :: "key_action option \<Rightarrow> u8" where
  "mflag (Some (AMdUpdate _)) = metadataUpdate" | "mflag (Some AMdDelete) = metadataDelete" | "mflag _ = 0"

definition combine :: "key_action option \<Rightarrow> key_action option \<Rightarrow> keyOps" where
  "combine w m =
     \<lparr>koFlag = wflag w + mflag m,
      koValue = (case w of Some (AUpsert v) \<Rightarrow> Some v | _ \<Rightarrow> None),
      koMetadata = (case m of Some (AMdUpdate b) \<Rightarrow> Some b | _ \<Rightarrow> None)\<rparr>"

lemma wact_kind: "wact acts ck = Some a \<Longrightarrow> \<not> is_md a" and mact_kind: "mact acts ck = Some a \<Longrightarrow> is_md a"
  by (auto simp: wact_def mact_def dest: map_of_SomeD)

lemma wact_mact_Nil [simp]: "wact [] ck = None" "mact [] ck = None"
  by (simp_all add: wact_def mact_def)

lemma getOrCreate_act:
  "getOrCreateKeyEntry (act (k, a) t) ck =
     (if ck \<noteq> k then getOrCreateKeyEntry t ck
      else let o1 = getOrCreateKeyEntry t k in
           case a of AUpsert v \<Rightarrow> o1\<lparr>koFlag := koFlag o1 + upsertVal, koValue := Some v\<rparr>
           | ADelete \<Rightarrow> o1\<lparr>koFlag := koFlag o1 + keyDelete\<rparr>
           | AMdUpdate m \<Rightarrow> o1\<lparr>koFlag := koFlag o1 + metadataUpdate, koMetadata := Some m\<rparr>
           | AMdDelete \<Rightarrow> o1\<lparr>koFlag := koFlag o1 + metadataDelete\<rparr>)"
  by (cases a) (simp_all add: getOrCreateKeyEntry_def [of "mput _ _ _"] txOps_upsert_def txOps_delete_def
      txOps_metadataUpdate_def txOps_metadataDelete_def gomap_simps Let_def getOrCreateKeyEntry_def [of t ck])

lemma map_of_act_None: "map_of (act (k, a) t) ck = None \<longleftrightarrow> ck \<noteq> k \<and> map_of t ck = None"
  by (cases a) (simp_all add: txOps_upsert_def txOps_delete_def txOps_metadataUpdate_def txOps_metadataDelete_def
      gomap_simps Let_def)

lemma wf_map_act: "wf_map t \<Longrightarrow> wf_map (act p t)"
  by (cases p rule: act.cases)
     (simp_all add: txOps_upsert_def txOps_delete_def txOps_metadataUpdate_def txOps_metadataDelete_def Let_def)

lemma map_of_filter_snoc:
  assumes "wf_map (filter P (xs @ [(k, a)]))"
  shows "map_of (filter P (xs @ [(k, a)])) ck = (if ck = k \<and> P (k, a) then Some a else map_of (filter P xs) ck)"
    and "P (k, a) \<Longrightarrow> map_of (filter P xs) k = None"
proof -
  show n: "map_of (filter P xs) k = None" if "P (k, a)"
    using assms that by (auto simp: map_of_eq_None_iff)
  show "map_of (filter P (xs @ [(k, a)])) ck = (if ck = k \<and> P (k, a) then Some a else map_of (filter P xs) ck)"
    using n by (cases "P (k, a)"; cases "ck = k") (simp_all add: map_add_def split: option.split)
qed

lemma wact_snoc:
  assumes "wf_acts (acts @ [(k, a)])"
  shows "wact (acts @ [(k, a)]) ck = (if ck = k \<and> \<not> is_md a then Some a else wact acts ck)"
    and "\<not> is_md a \<Longrightarrow> wact acts k = None"
  using map_of_filter_snoc [of "\<lambda>p. \<not> is_md (snd p)" acts k a] assms unfolding wact_def wf_acts_def by simp_all

lemma mact_snoc:
  assumes "wf_acts (acts @ [(k, a)])"
  shows "mact (acts @ [(k, a)]) ck = (if ck = k \<and> is_md a then Some a else mact acts ck)"
    and "is_md a \<Longrightarrow> mact acts k = None"
  using map_of_filter_snoc [of "\<lambda>p. is_md (snd p)" acts k a] assms unfolding mact_def wf_acts_def by simp_all

lemma wf_acts_snoc: "wf_acts (acts @ [p]) \<Longrightarrow> wf_acts acts"
  by (cases "is_md (snd p)") (auto simp: wf_acts_def)

lemma fold_act:
  assumes "wf_acts acts"
  shows "getOrCreateKeyEntry (fold act acts []) ck = combine (wact acts ck) (mact acts ck)"
    and "map_of (fold act acts []) ck = None \<longleftrightarrow> wact acts ck = None \<and> mact acts ck = None"
    and "wf_map (fold act acts [])"
  using assms
proof (induction acts arbitrary: ck rule: rev_induct)
  case Nil
  {
    case 1 show ?case by (simp add: getOrCreateKeyEntry_def combine_def)
  next
    case 2 show ?case by simp
  next
    case 3 show ?case by simp
  }
next
  case (snoc p acts)
  obtain k a where p: "p = (k, a)" by fastforce
  {
    case 1
    then have wf: "wf_acts (acts @ [(k, a)])" by (simp add: p)
    note IH = snoc(1) [OF wf_acts_snoc [OF wf]]
    have "getOrCreateKeyEntry (fold act (acts @ [p]) []) ck = getOrCreateKeyEntry (act (k, a) (fold act acts [])) ck"
      by (simp add: p)
    then show ?case
      using wact_snoc [OF wf] mact_snoc [OF wf]
      unfolding getOrCreate_act by (cases a) (auto simp: p IH combine_def Let_def)
  next
    case 2
    then have wf: "wf_acts (acts @ [(k, a)])" by (simp add: p)
    have "map_of (fold act (acts @ [p]) []) ck = None \<longleftrightarrow> ck \<noteq> k \<and> map_of (fold act acts []) ck = None"
      using map_of_act_None [of k a "fold act acts []" ck] by (simp add: p)
    then show ?case
      using snoc(2) [OF wf_acts_snoc [OF wf], of ck] wact_snoc(1) [OF wf, of ck] mact_snoc(1) [OF wf, of ck]
      by (cases "is_md a") (auto simp: p simp del: not_None_eq)
  next
    case 3
    with snoc(3) [OF wf_acts_snoc] show ?case by (simp add: wf_map_act)
  }
qed

lemma fold_act_Some:
  assumes "wf_acts acts" and "map_of (fold act acts []) ck = Some ko"
  shows "ko = combine (wact acts ck) (mact acts ck)"
  using fold_act(1) [OF assms(1), of ck] assms(2) by (simp add: getOrCreateKeyEntry_def)

section \<open>The effect of a write set\<close>

text \<open>What the pending updates of the block, and the committed state, hold for a key of the operations.\<close>

definition pending :: "publicAndHashUpdates \<Rightarrow> compositeKey \<Rightarrow> VersionedValue option" where
  "pending u ck =
     (if ck_coll ck = '''' then UpdateBatch_Get (publicUpdates u) (ck_ns ck) (ck_key ck)
      else UpdateMap_Get (hashUpdates u) (ck_ns ck) (ck_coll ck) (ck_key ck))"

definition committed :: "(gostring \<Rightarrow> gostring \<rightharpoonup> VersionedValue) \<Rightarrow> DB \<Rightarrow> compositeKey \<Rightarrow> VersionedValue option" where
  "committed st db ck =
     (if ck_coll ck = '''' then st (ck_ns ck) (ck_key ck)
      else st (deriveHashedDataNs (ck_ns ck) (ck_coll ck)) (keyHashStr db (ck_key ck)))"

definition raw_latest :: "VersionedValue option \<Rightarrow> VersionedValue option \<Rightarrow> VersionedValue option" where
  "raw_latest p c = (case p of None \<Rightarrow> c | Some vv \<Rightarrow> Some vv)"

fun md_bytes :: "key_action option \<Rightarrow> bytes option" where
  "md_bytes (Some (AMdUpdate b)) = Some b" | "md_bytes _ = None"

text \<open>The entry a transaction at height \<open>h\<close> leaves for a key with pending entry \<open>p\<close> and committed value \<open>c\<close>, when it has
  the write \<open>w\<close> and the metadata write \<open>m\<close> for it. A metadata-only write of an absent key leaves nothing.\<close>

definition new_entry ::
  "Height \<Rightarrow> VersionedValue option \<Rightarrow> VersionedValue option \<Rightarrow> key_action option \<Rightarrow> key_action option \<Rightarrow> VersionedValue option" where
  "new_entry h p c w m =
     (case w of
        Some ADelete \<Rightarrow> Some \<lparr>vvValue = None, vvMetadata = None, vvVersion = Some h\<rparr>
      | Some (AUpsert v) \<Rightarrow>
          Some \<lparr>vvValue = Some v,
                vvMetadata = (if m = None then Option.bind (raw_latest p c) vvMetadata else md_bytes m),
                vvVersion = Some h\<rparr>
      | _ \<Rightarrow>
          (if m = None then p
           else case raw_latest p c of
                  None \<Rightarrow> p
                | Some vv \<Rightarrow> Some \<lparr>vvValue = vvValue vv, vvMetadata = md_bytes m, vvVersion = Some h\<rparr>))"

text \<open>The case in which the commit panics: only metadata is written, and a preceding transaction deleted the key.\<close>

definition md_on_deleted :: "VersionedValue option \<Rightarrow> key_action option \<Rightarrow> key_action option \<Rightarrow> bool" where
  "md_on_deleted p w m \<longleftrightarrow> w = None \<and> m \<noteq> None \<and> (\<exists>vv. p = Some vv \<and> VersionedValue_IsDelete vv)"

definition ready :: "(gostring \<Rightarrow> gostring \<rightharpoonup> VersionedValue) \<Rightarrow> DB \<Rightarrow> bool" where
  "ready st db \<longleftrightarrow> vdb_answers (dbVersioned db) st \<and> hint_sound (dbMetadataHint db) st"

lemma retrieveLatestState_ok:
  "ready st db \<Longrightarrow> retrieveLatestState ck u db = Inr (raw_latest (pending u ck) (committed st db ck))"
  by (auto simp: retrieveLatestState_def raw_latest_def pending_def committed_def ready_def DB_GetState_def GetValueHash_def
      vdb_answersD split: option.split)

lemma hinted_metadata:
  assumes "ready st db" and "plain_ns ns"
  shows "GetStateMetadata db ns key = Inr (Option.bind (st ns key) vvMetadata)"
    and "GetPrivateDataMetadataByHash db ns coll kh =
      Inr (Option.bind (st (deriveHashedDataNs ns coll) (keyHashStr db kh)) vvMetadata)"
proof -
  note r = assms(1) [unfolded ready_def hint_sound_def]
  show "GetStateMetadata db ns key = Inr (Option.bind (st ns key) vvMetadata)"
    using r assms(2) by (cases "st ns key") (auto simp: GetStateMetadata_def DB_GetState_def vdb_answersD)
  show "GetPrivateDataMetadataByHash db ns coll kh =
      Inr (Option.bind (st (deriveHashedDataNs ns coll) (keyHashStr db kh)) vvMetadata)"
    using r assms(2) by (cases "st (deriveHashedDataNs ns coll) (keyHashStr db kh)")
      (auto simp: GetPrivateDataMetadataByHash_def GetValueHash_def DB_GetState_def vdb_answersD)
qed

lemma retrieveLatestMetadata_ok:
  assumes "ready st db" and "plain_ns (ck_ns ck)"
  shows "retrieveLatestMetadata ck u db = Inr (Option.bind (raw_latest (pending u ck) (committed st db ck)) vvMetadata)"
  by (simp add: retrieveLatestMetadata_def raw_latest_def pending_def committed_def hinted_metadata [OF assms] split: option.split)

definition entry_of :: "Height \<Rightarrow> keyOps \<Rightarrow> VersionedValue" where
  "entry_of h ko =
     (if keyOps_isDelete ko then \<lparr>vvValue = None, vvMetadata = None, vvVersion = Some h\<rparr>
      else \<lparr>vvValue = koValue ko, vvMetadata = koMetadata ko, vvVersion = Some h\<rparr>)"

definition merged :: "VersionedValue option \<Rightarrow> VersionedValue option \<Rightarrow> key_action option \<Rightarrow> key_action option \<Rightarrow> keyOps option" where
  "merged p c w m =
     (let ko = combine w m in
      case w of
        Some ADelete \<Rightarrow> Some ko
      | Some (AUpsert v) \<Rightarrow>
          Some (if m = None then ko\<lparr>koMetadata := Option.bind (raw_latest p c) vvMetadata\<rparr> else ko)
      | _ \<Rightarrow> map_option (\<lambda>vv. ko\<lparr>koValue := vvValue vv\<rparr>) (raw_latest p c))"

definition kinds_ok :: "key_action option \<Rightarrow> key_action option \<Rightarrow> bool" where
  "kinds_ok w m \<longleftrightarrow> (w \<noteq> None \<or> m \<noteq> None) \<and> (\<forall>a. w = Some a \<longrightarrow> \<not> is_md a) \<and> (\<forall>a. m = Some a \<longrightarrow> is_md a)"

lemma kinds_ok_cases:
  assumes "kinds_ok w m"
  shows "w = None \<or> w = Some ADelete \<or> (\<exists>v. w = Some (AUpsert v))"
    and "m = None \<or> m = Some AMdDelete \<or> (\<exists>v. m = Some (AMdUpdate v))"
    and "w \<noteq> None \<or> m \<noteq> None"
proof -
  show "w = None \<or> w = Some ADelete \<or> (\<exists>v. w = Some (AUpsert v))"
    using assms by (cases "the w") (auto simp: kinds_ok_def)
  show "m = None \<or> m = Some AMdDelete \<or> (\<exists>v. m = Some (AMdUpdate v))"
    using assms by (cases "the m") (auto simp: kinds_ok_def)
  show "w \<noteq> None \<or> m \<noteq> None" using assms by (simp add: kinds_ok_def)
qed

text \<open>With one write and one metadata write at most, the flags tell the operations of a key apart.\<close>

lemma flags_ok:
  assumes "kinds_ok w m"
  shows "keyOps_isDelete (combine w m) \<longleftrightarrow> w = Some ADelete"
    and "isUpsertAndMetadataUpdate (combine w m) \<longleftrightarrow> (\<exists>v. w = Some (AUpsert v)) \<and> m \<noteq> None"
    and "isOnlyUpsert (combine w m) \<longleftrightarrow> (\<exists>v. w = Some (AUpsert v)) \<and> m = None"
  using kinds_ok_cases [OF assms]
  by (auto simp: combine_def keyOps_isDelete_def isUpsertAndMetadataUpdate_def isOnlyUpsert_def keyDelete_def
      upsertVal_def metadataUpdate_def metadataDelete_def)

lemma mergeLatest_ok:
  assumes "ready st db" and "plain_ns (ck_ns ck)" and "kinds_ok w m"
  shows "mergeLatest u db ck (combine w m) = Inr (merged (pending u ck) (committed st db ck) w m)"
  unfolding mergeLatest_def flags_ok [OF assms(3)] retrieveLatestState_ok [OF assms(1)]
    retrieveLatestMetadata_ok [OF assms(1,2)]
  using kinds_ok_cases(1,3) [OF assms(3)]
  by (cases "raw_latest (pending u ck) (committed st db ck)") (auto simp: merged_def Let_def)

lemma entry_of_merged:
  assumes "kinds_ok w m"
  shows "(case merged p c w m of None \<Rightarrow> p | Some ko \<Rightarrow> Some (entry_of h ko)) = new_entry h p c w m"
proof -
  have "entry_of h ((combine w m)\<lparr>koMetadata := b\<rparr>) = (entry_of h (combine w m))\<lparr>vvMetadata := b\<rparr>"
    "entry_of h ((combine w m)\<lparr>koValue := b\<rparr>) = (entry_of h (combine w m))\<lparr>vvValue := b\<rparr>" if "w \<noteq> Some ADelete" for b
    using that flags_ok(1) [OF assms] by (simp_all add: entry_of_def keyOps_isDelete_def)
  moreover have "entry_of h (combine w m) = \<lparr>vvValue = (case w of Some (AUpsert v) \<Rightarrow> Some v | _ \<Rightarrow> None),
      vvMetadata = (if w = Some ADelete then None else md_bytes m), vvVersion = Some h\<rparr>"
    using kinds_ok_cases [OF assms] unfolding entry_of_def flags_ok(1) [OF assms] by (auto simp: combine_def)
  ultimately show ?thesis
    using kinds_ok_cases [OF assms]
    by (cases "raw_latest p c") (auto simp: merged_def new_entry_def Let_def)
qed

lemma merged_panics:
  assumes "kinds_ok w m" and "\<And>vv. c = Some vv \<Longrightarrow> vvValue vv \<noteq> None"
  shows "(\<exists>ko. merged p c w m = Some ko \<and> \<not> keyOps_isDelete ko \<and> koValue ko = None) \<longleftrightarrow> md_on_deleted p w m"
  using kinds_ok_cases [OF assms(1)] assms(2)
  by (auto simp: merged_def Let_def md_on_deleted_def raw_latest_def combine_def keyOps_isDelete_def keyDelete_def
      upsertVal_def metadataUpdate_def metadataDelete_def VersionedValue_IsDelete_def split: option.splits)

section \<open>Applying the prepared operations\<close>

definition wf_updates :: "publicAndHashUpdates \<Rightarrow> bool" where
  "wf_updates u \<longleftrightarrow> wf_batch (publicUpdates u) \<and> wf_umap (hashUpdates u)"

definition nil_put :: "keyOps \<Rightarrow> bool" where
  "nil_put ko \<longleftrightarrow> \<not> keyOps_isDelete ko \<and> koValue ko = None"

lemma applyKeyOp_panic: "nil_put ko \<Longrightarrow> \<exists>m. applyKeyOp h (ck, ko) u = Inl (Panic m)"
  by (simp add: nil_put_def applyKeyOp_def PutValHashAndMetadata_def UpdateMap_PutValAndMetadata_def
      UpdateBatch_PutValAndMetadata_def)

lemma applyKeyOp_ok:
  assumes "\<not> nil_put ko" and "wf_updates u"
  shows "\<exists>u'. applyKeyOp h (ck, ko) u = Inr u' \<and> wf_updates u' \<and>
    (\<forall>ck'. pending u' ck' = (if ck' = ck then Some (entry_of h ko) else pending u ck'))"
proof (cases "keyOps_isDelete ko")
  case True
  with assms(2) show ?thesis
    by (auto simp: applyKeyOp_def wf_updates_def pending_def entry_of_def HashedUpdateBatch_Delete_def UpdateMap_Delete_ok)
next
  case False
  with assms(1) obtain v where v: "koValue ko = Some v" by (auto simp: nil_put_def)
  obtain b where b: "UpdateMap_PutValAndMetadata (hashUpdates u) (ck_ns ck) (ck_coll ck) (ck_key ck) (Some v) (koMetadata ko) h = Inr b"
    using UpdateMap_Put_Inr by blast
  show ?thesis
    using False v assms(2) UpdateMap_Put_ok [OF _ b] b
    by (auto simp: applyKeyOp_def wf_updates_def pending_def entry_of_def PutValHashAndMetadata_def
        UpdateBatch_PutValAndMetadata_def)
qed

lemma foldR_applyKeyOp_panic:
  assumes "(ck, ko) \<in> set ops" and "nil_put ko" and "wf_updates u"
  shows "\<exists>m. foldR (applyKeyOp h) ops u = Inl (Panic m)"
  using assms
proof (induction ops arbitrary: u)
  case (Cons p ops)
  obtain ck0 ko0 where p: "p = (ck0, ko0)" by fastforce
  show ?case
  proof (cases "nil_put ko0")
    case True
    with applyKeyOp_panic [OF True, of h ck0 u] show ?thesis by (auto simp: p)
  next
    case False
    with applyKeyOp_ok [OF False Cons.prems(3), of h ck0] Cons show ?thesis by (auto simp: p)
  qed
qed simp

lemma foldR_applyKeyOp_ok:
  assumes "\<forall>p \<in> set ops. \<not> nil_put (snd p)" and "wf_map ops" and "wf_updates u"
  shows "\<exists>u'. foldR (applyKeyOp h) ops u = Inr u' \<and> wf_updates u' \<and>
    (\<forall>ck. pending u' ck = (case map_of ops ck of None \<Rightarrow> pending u ck | Some ko \<Rightarrow> Some (entry_of h ko)))"
  using assms
proof (induction ops arbitrary: u)
  case (Cons p ops)
  obtain ck0 ko0 where p: "p = (ck0, ko0)" by fastforce
  then obtain u1 where u1: "applyKeyOp h (ck0, ko0) u = Inr u1" "wf_updates u1"
      "\<forall>ck'. pending u1 ck' = (if ck' = ck0 then Some (entry_of h ko0) else pending u ck')"
    using applyKeyOp_ok [of ko0 u h ck0] Cons.prems by auto
  with Cons.IH [OF _ _ u1(2)] Cons.prems obtain u' where "foldR (applyKeyOp h) ops u1 = Inr u'" "wf_updates u'"
    "\<forall>ck. pending u' ck = (case map_of ops ck of None \<Rightarrow> pending u1 ck | Some ko \<Rightarrow> Some (entry_of h ko))"
    by auto
  moreover have "map_of ops ck0 = None" using Cons.prems(2) p by (simp add: map_of_eq_None_iff)
  ultimately show ?case using u1 by (auto simp: p split: option.split)
qed simp

lemma collect_ops:
  assumes "\<And>ck ko. (ck, ko) \<in> set ops \<Longrightarrow> f ck ko = Inr (g ck ko)"
  shows "foldR (\<lambda>(ck, ko) acc. bindR (f ck ko) (\<lambda>r. Inr (case r of None \<Rightarrow> acc | Some k \<Rightarrow> acc @ [(ck, k)]))) ops acc =
    Inr (acc @ List.map_filter (\<lambda>(ck, ko). map_option (Pair ck) (g ck ko)) ops)"
  using assms
proof (induction ops arbitrary: acc)
  case (Cons p ops)
  then show ?case by (cases p) (auto simp: map_filter_simps split: option.split)
qed (simp add: map_filter_simps)

lemma map_filter_ops:
  assumes "wf_map ops"
  shows "map_of (List.map_filter (\<lambda>(ck, ko). map_option (Pair ck) (g ck ko)) ops) ck = Option.bind (map_of ops ck) (g ck)"
    and "wf_map (List.map_filter (\<lambda>(ck, ko). map_option (Pair ck) (g ck ko)) ops)"
proof -
  have s: "fst ` set (List.map_filter (\<lambda>(ck, ko). map_option (Pair ck) (g ck ko)) ops) \<subseteq> fst ` set ops" for ops
    by (induction ops) (auto simp: map_filter_simps split: option.split)
  show "map_of (List.map_filter (\<lambda>(ck, ko). map_option (Pair ck) (g ck ko)) ops) ck = Option.bind (map_of ops ck) (g ck)"
    using assms
  proof (induction ops)
    case (Cons p ops)
    then show ?case using s [of ops]
      by (cases p; cases "g (fst p) (snd p)")
         (auto simp: map_filter_simps map_of_eq_None_iff [THEN iffD2] simp del: not_None_eq)
  qed (simp add: map_filter_simps)
  show "wf_map (List.map_filter (\<lambda>(ck, ko). map_option (Pair ck) (g ck ko)) ops)"
    using assms
  proof (induction ops)
    case (Cons p ops)
    then show ?case using s [of ops]
      by (cases p; cases "g (fst p) (snd p)") (auto simp: map_filter_simps)
  qed (simp add: map_filter_simps)
qed

lemma kinds_ok_acts: "wact acts ck \<noteq> None \<or> mact acts ck \<noteq> None \<Longrightarrow> kinds_ok (wact acts ck) (mact acts ck)"
  using wact_kind [of acts ck] mact_kind [of acts ck] by (auto simp: kinds_ok_def)

definition plain_acts :: "(compositeKey \<times> key_action) list \<Rightarrow> bool" where
  "plain_acts acts \<longleftrightarrow> (\<forall>p \<in> set acts. plain_ns (ck_ns (fst p)))"

lemma plain_acts_at: "plain_acts acts \<Longrightarrow> wact acts ck \<noteq> None \<or> mact acts ck \<noteq> None \<Longrightarrow> plain_ns (ck_ns ck)"
  by (fastforce simp: plain_acts_def wact_def mact_def dest: map_of_SomeD)

text \<open>The operations prepared for a write set, as a map.\<close>

lemma prepareTxOps_ok:
  assumes "ready st db" and "rwset_actions serialize hash rwset = Inr acts" and "wf_acts acts" and "plain_acts acts"
  shows "\<exists>ops. prepareTxOps serialize hash rwset u db = Inr ops \<and> wf_map ops \<and>
    (\<forall>ck. map_of ops ck =
       (if wact acts ck = None \<and> mact acts ck = None then None
        else merged (pending u ck) (committed st db ck) (wact acts ck) (mact acts ck)))"
proof -
  let ?t = "fold act acts []"
  let ?g = "\<lambda>ck (ko :: keyOps). merged (pending u ck) (committed st db ck) (wact acts ck) (mact acts ck)"
  have a: "applyTxRwset serialize hash rwset [] = Inr ?t"
    using assms(2) by (simp add: applyTxRwset_actions)
  have "mergeLatest u db ck ko = Inr (?g ck ko)" if "(ck, ko) \<in> set ?t" for ck ko
  proof -
    have m: "map_of ?t ck = Some ko" using that fold_act(3) [OF assms(3)] by simp
    then have k: "wact acts ck \<noteq> None \<or> mact acts ck \<noteq> None" using fold_act(2) [OF assms(3), of ck] by auto
    show ?thesis
      unfolding fold_act_Some [OF assms(3) m]
      by (rule mergeLatest_ok [OF assms(1) plain_acts_at [OF assms(4) k] kinds_ok_acts [OF k]])
  qed
  note c = collect_ops [where f = "mergeLatest u db" and g = ?g and acc = "[]", OF this]
  note f = map_filter_ops [OF fold_act(3) [OF assms(3)], of ?g]
  have "Option.bind (map_of ?t ck) (?g ck) = (if wact acts ck = None \<and> mact acts ck = None then None
        else merged (pending u ck) (committed st db ck) (wact acts ck) (mact acts ck))" for ck
    using fold_act(2) [OF assms(3), of ck] by (cases "map_of ?t ck") auto
  with c f a show ?thesis by (simp add: prepareTxOps_def)
qed

lemma applyWriteSet_cases:
  assumes "ready st db" and "rwset_actions serialize hash rwset = Inr acts" and "wf_acts acts" and "plain_acts acts"
    and "wf_updates u"
  shows "if \<exists>ck. md_on_deleted (pending u ck) (wact acts ck) (mact acts ck)
    then \<exists>m. applyWriteSet serialize hash rwset h db post u = Inl (Panic m)
    else \<exists>u'. applyWriteSet serialize hash rwset h db post u = Inr u' \<and> wf_updates u' \<and>
      (\<forall>ck. pending u' ck = new_entry h (pending u ck) (committed st db ck) (wact acts ck) (mact acts ck))"
proof -
  define u1 where "u1 = u\<lparr>publicUpdates := (publicUpdates u)\<lparr>ContainsPostOrderWrites :=
                   ContainsPostOrderWrites (publicUpdates u) \<or> post\<rparr>\<rparr>"
  have wf: "wf_updates u1" and p: "pending u1 = pending u"
    using assms(5) by (auto simp: u1_def wf_updates_def wf_batch_def pending_def UpdateBatch_Get_def)
  let ?w = "wact acts" and ?m = "mact acts"
  let ?g = "\<lambda>ck. merged (pending u ck) (committed st db ck) (?w ck) (?m ck)"
  obtain ops where ops: "prepareTxOps serialize hash rwset u1 db = Inr ops" "wf_map ops"
    "\<And>ck. map_of ops ck = (if ?w ck = None \<and> ?m ck = None then None else ?g ck)"
    using prepareTxOps_ok [OF assms(1-4), of u1] unfolding p by blast
  have run: "applyWriteSet serialize hash rwset h db post u = foldR (applyKeyOp h) ops u1"
    using ops(1) by (simp add: applyWriteSet_def u1_def Let_def)
  have c: "committed st db ck = Some vv \<Longrightarrow> vvValue vv \<noteq> None" for ck vv
    using assms(1) by (auto simp: committed_def ready_def dest: vdb_answersD(5) split: if_splits)
  have nil: "(\<exists>ko. map_of ops ck = Some ko \<and> nil_put ko) \<longleftrightarrow> md_on_deleted (pending u ck) (?w ck) (?m ck)" for ck
  proof (cases "?w ck = None \<and> ?m ck = None")
    case False
    then have k: "?w ck \<noteq> None \<or> ?m ck \<noteq> None" by simp
    have "map_of ops ck = ?g ck" unfolding ops(3) by (rule if_not_P [OF False])
    then show ?thesis
      using merged_panics [of "?w ck" "?m ck" "committed st db ck" "pending u ck", OF kinds_ok_acts [OF k] c]
      by (simp add: nil_put_def)
  qed (simp add: ops(3) md_on_deleted_def)
  have new: "(case map_of ops ck of None \<Rightarrow> pending u ck | Some ko \<Rightarrow> Some (entry_of h ko)) =
      new_entry h (pending u ck) (committed st db ck) (?w ck) (?m ck)" for ck
  proof (cases "?w ck = None \<and> ?m ck = None")
    case False
    then have k: "?w ck \<noteq> None \<or> ?m ck \<noteq> None" by simp
    have "map_of ops ck = ?g ck" unfolding ops(3) by (rule if_not_P [OF False])
    then show ?thesis using entry_of_merged [OF kinds_ok_acts [OF k]] by simp
  qed (simp add: ops(3) new_entry_def)
  show ?thesis
  proof (cases "\<exists>ck. md_on_deleted (pending u ck) (?w ck) (?m ck)")
    case True
    then obtain ck ko where "(ck, ko) \<in> set ops" "nil_put ko" using nil map_of_SomeD by metis
    with True foldR_applyKeyOp_panic [OF _ _ wf] show ?thesis by (simp add: run)
  next
    case False
    then have "\<forall>p \<in> set ops. \<not> nil_put (snd p)" using nil ops(2) by fastforce
    from foldR_applyKeyOp_ok [OF this ops(2) wf, of h, unfolded p new] False show ?thesis by (simp add: run)
  qed
qed

section \<open>Properties\<close>

text \<open>
  C22. Applying a write set that has at most one write and one metadata write per key: a deletion leaves a delete marker
  whatever happens to the metadata; a value written alone keeps the latest metadata of the key, pending or committed;
  value and metadata written together replace both; metadata written alone keeps the latest value and has no effect on a
  key that does not exist; every other key keeps its pending entry. The version of each entry is the transaction's height.
  Holds for public data and for hashed private data alike, unless a key written only in its metadata was deleted earlier
  in the block.
\<close>

theorem write_set_effect:
  assumes "ready st db" and "rwset_actions serialize hash rwset = Inr acts" and "wf_acts acts" and "plain_acts acts"
    and "wf_updates u" and "\<And>ck. \<not> md_on_deleted (pending u ck) (wact acts ck) (mact acts ck)"
  shows "\<exists>u'. applyWriteSet serialize hash rwset h db post u = Inr u' \<and> wf_updates u' \<and>
    (\<forall>ck. pending u' ck = new_entry h (pending u ck) (committed st db ck) (wact acts ck) (mact acts ck))"
  using applyWriteSet_cases [OF assms(1-5), of h post] assms(6) by simp

definition sample_updates :: publicAndHashUpdates where
  "sample_updates = \<lparr>publicUpdates = sample_batch, hashUpdates = []\<rparr>"

definition sample_db :: DB where
  "sample_db = \<lparr>dbVersioned = mem_db NewUpdateBatch, dbLoadCommittedVersions = None, dbMetadataHint = []\<rparr>"

definition sample_rwset :: "gostring \<Rightarrow> TxRwSet" where
  "sample_rwset k =
     [\<lparr>rwNameSpace = ''ns'',
       rwKvRwSet = \<lparr>Reads = [], RangeQueriesInfo = [],
         Writes = [\<lparr>kwKey = ''a'', kwIsDelete = False, kwValue = ''9''\<rparr>],
         MetadataWrites = [\<lparr>mwKey = k, mwEntries = [\<lparr>meName = ''n'', meValue = ''v''\<rparr>]\<rparr>]\<rparr>,
       rwCollHashedRwSets = []\<rparr>]"

lemma sample_db_ready: "ready (\<lambda>_ _. None) sample_db"
proof -
  have "overlay (\<lambda>_ _. None) NewUpdateBatch = (\<lambda>_ _. None)" by (simp add: fun_eq_iff overlay_def)
  with mem_db_answers [OF wf_batch_New] show ?thesis by (simp add: ready_def sample_db_def hint_sound_def)
qed

lemma sample_updates_ok: "wf_updates sample_updates" by (simp add: wf_updates_def sample_updates_def)

abbreviation sample_acts :: "gostring \<Rightarrow> (compositeKey \<times> key_action) list" where
  "sample_acts k \<equiv> [(\<lparr>ck_ns = ''ns'', ck_coll = [], ck_key = ''a''\<rparr>, AUpsert ''9''),
     (\<lparr>ck_ns = ''ns'', ck_coll = [], ck_key = k\<rparr>, AMdUpdate ''m'')]"

lemma sample_rwset_ok:
  "rwset_actions (\<lambda>_. Inr ''m'') (\<lambda>x. x) (sample_rwset k) = Inr (sample_acts k)"
  "wf_acts (sample_acts k)" "plain_acts (sample_acts k)"
  by (simp_all add: rwset_actions_def ns_actions_def actions_at_def sample_rwset_def write_action_def md_action_def
      IsKVWriteDelete_def wf_acts_def plain_acts_def plain_ns_def)

lemma pending_sample_updates: "pending sample_updates ck = (if ck_coll ck = '''' \<and> ck_ns ck = ''ns'' then
     (if ck_key ck = ''a'' then Some (vv_at ''1'' 2 0) else if ck_key ck = ''c'' then Some (vv_at ''3'' 2 2)
      else if ck_key ck = ''b'' then Some \<lparr>vvValue = None, vvMetadata = None, vvVersion = Some (NewHeight 2 1)\<rparr> else None) else None)"
  by (simp add: pending_def sample_updates_def sample_batch_def UpdateMap_Get_def)

theorem write_set_effect_witness:
  "\<exists>u'. applyWriteSet (\<lambda>_. Inr ''m'') (\<lambda>x. x) (sample_rwset ''c'') (NewHeight 2 3) sample_db False sample_updates = Inr u' \<and>
     pending u' \<lparr>ck_ns = ''ns'', ck_coll = '''', ck_key = ''a''\<rparr> = Some (vv_at ''9'' 2 3) \<and>
     pending u' \<lparr>ck_ns = ''ns'', ck_coll = '''', ck_key = ''c''\<rparr> =
       Some \<lparr>vvValue = Some ''3'', vvMetadata = Some ''m'', vvVersion = Some (NewHeight 2 3)\<rparr>"
proof -
  have "\<not> md_on_deleted (pending sample_updates ck) (wact (sample_acts ''c'') ck) (mact (sample_acts ''c'') ck)" for ck
    by (simp add: md_on_deleted_def wact_def mact_def pending_sample_updates VersionedValue_IsDelete_def)
  from write_set_effect [OF sample_db_ready sample_rwset_ok sample_updates_ok this, of "NewHeight 2 3" False]
  show ?thesis by (fastforce simp: new_entry_def wact_def mact_def pending_sample_updates raw_latest_def)
qed

text \<open>
  C23. When a transaction writes only the metadata of a key that an earlier transaction of the block deleted, applying its
  write set panics: the delete marker is taken for the latest value, and its nil value is refused by the batch.
\<close>

theorem metadata_write_of_deleted_key_panics:
  assumes "ready st db" and "rwset_actions serialize hash rwset = Inr acts" and "wf_acts acts" and "plain_acts acts"
    and "wf_updates u" and "md_on_deleted (pending u ck) (wact acts ck) (mact acts ck)"
  shows "\<exists>m. applyWriteSet serialize hash rwset h db post u = Inl (Panic m)"
  using applyWriteSet_cases [OF assms(1-5), of h post] assms(6) by (auto split: if_splits)

theorem metadata_write_of_deleted_key_panics_witness:
  "\<exists>m. applyWriteSet (\<lambda>_. Inr ''m'') (\<lambda>x. x) (sample_rwset ''b'') (NewHeight 2 3) sample_db False sample_updates = Inl (Panic m)"
proof -
  have "md_on_deleted (pending sample_updates \<lparr>ck_ns = ''ns'', ck_coll = '''', ck_key = ''b''\<rparr>)
      (wact (sample_acts ''b'') \<lparr>ck_ns = ''ns'', ck_coll = '''', ck_key = ''b''\<rparr>)
      (mact (sample_acts ''b'') \<lparr>ck_ns = ''ns'', ck_coll = '''', ck_key = ''b''\<rparr>)"
    by (simp add: md_on_deleted_def wact_def mact_def pending_sample_updates VersionedValue_IsDelete_def)
  from metadata_write_of_deleted_key_panics [OF sample_db_ready sample_rwset_ok sample_updates_ok this] show ?thesis .
qed

end
