(* ===== verification/Mvcc_Validator.thy ===== *)
theory Mvcc_Validator
  imports Range_Query_Validator Tx_Ops
begin

text \<open>
  The validator of \<open>core/ledger/kvledger/txmgmt/validation/validator.go\<close>: the transactions of a block are checked one
  after the other against the committed state and the updates of the preceding valid ones, and the updates of the valid
  ones are collected. The result is related to serial execution: a valid transaction read what it would have read when
  executed alone after the valid transactions before it.
\<close>

section \<open>The validator\<close>

record validator =
  vDb :: DB
  vHashFunc :: "bytes \<Rightarrow> bytes result"

text \<open>Code outside the component: the serialisation of query reads and of metadata entries, and the hash of an empty
  value by which a hashed deletion is recognised.\<close>

record validator_libs =
  vlSerializeReads :: "KVRead list \<Rightarrow> bytes result"
  vlSerializeMetadata :: "KVMetadataEntry list \<Rightarrow> bytes result"
  vlHash :: "bytes \<Rightarrow> bytes"

text \<open>A loop that stops at the first error and at the first invalid item.\<close>

fun allR :: "('a \<Rightarrow> bool result) \<Rightarrow> 'a list \<Rightarrow> bool result" where
  "allR f [] = Inr True"
| "allR f (x # xs) = bindR (f x) (\<lambda>valid. if valid then allR f xs else Inr False)"

definition add_new :: "'a \<Rightarrow> 'a list \<Rightarrow> 'a list" where
  "add_new x xs = (if x \<in> set xs then xs else xs @ [x])"

definition collectReadKeys ::
  "NsRwSet \<Rightarrow> (gostring \<times> gostring) list \<times> HashedCompositeKey list \<Rightarrow> (gostring \<times> gostring) list \<times> HashedCompositeKey list" where
  "collectReadKeys nsRWSet = (\<lambda>(pubKeys, hashedKeys).
     (fold (\<lambda>kvRead. add_new (rwNameSpace nsRWSet, krKey kvRead)) (Reads (rwKvRwSet nsRWSet)) pubKeys,
      fold (\<lambda>coll. fold (\<lambda>r. add_new \<lparr>hckNamespace = rwNameSpace nsRWSet, hckCollectionName = crCollectionName coll,
                                       hckKeyHash = rhKeyHash r\<rparr>)
                     (HashedReads (crHashedRwSet coll)))
        (rwCollHashedRwSets nsRWSet) hashedKeys))"

definition preLoadCommittedVersionOfRSet :: "validator \<Rightarrow> block \<Rightarrow> unit result" where
  "preLoadCommittedVersionOfRSet v blk =
     bindR (foldR (\<lambda>tx keys. case txRwset tx of
                None \<Rightarrow> Inl (Panic ''nil pointer dereference'')
              | Some nss \<Rightarrow> Inr (fold collectReadKeys nss keys)) (blkTxs blk) ([], [])) (\<lambda>(pubKeys, hashedKeys).
       if pubKeys \<noteq> [] \<or> hashedKeys \<noteq> []
       then LoadCommittedVersionsOfPubAndHashedKeys (vDb v) pubKeys hashedKeys
       else Inr ())"

definition validateKVRead :: "validator \<Rightarrow> gostring \<Rightarrow> PubUpdateBatch \<Rightarrow> KVRead \<Rightarrow> bool result" where
  "validateKVRead v ns updates kvRead =
     (let readVersion = NewVersion (krVersion kvRead) in
      if UpdateBatch_Exists updates ns (krKey kvRead) then Inr False
      else bindR (db_GetVersion (dbVersioned (vDb v)) ns (krKey kvRead)) (\<lambda>committedVersion.
             if \<not> AreSame committedVersion readVersion then Inr False else Inr True))"

definition validateReadSet :: "validator \<Rightarrow> gostring \<Rightarrow> KVRead list \<Rightarrow> PubUpdateBatch \<Rightarrow> bool result" where
  "validateReadSet v ns kvReads updates = allR (validateKVRead v ns updates) kvReads"

definition validateRangeQuery ::
  "validator_libs \<Rightarrow> validator \<Rightarrow> gostring \<Rightarrow> PubUpdateBatch \<Rightarrow> RangeQueryInfo \<Rightarrow> bool result" where
  "validateRangeQuery libs v ns updates rangeQueryInfo =
     (let includeEndKey = (\<not> rqItrExhausted rangeQueryInfo) in
      bindR (newCombinedIterator (dbVersioned (vDb v)) updates ns (rqStartKey rangeQueryInfo) (rqEndKey rangeQueryInfo)
               includeEndKey) (\<lambda>combinedItr.
        if GetReadsMerkleHashes rangeQueryInfo \<noteq> None
        then rangeQueryHashValidator_validate (vlSerializeReads libs) (vHashFunc v) rangeQueryInfo
               (combinedIterator_results combinedItr)
        else rangeQueryResultsValidator_validate rangeQueryInfo (combinedIterator_results combinedItr)))"

definition validateRangeQueries ::
  "validator_libs \<Rightarrow> validator \<Rightarrow> gostring \<Rightarrow> RangeQueryInfo list \<Rightarrow> PubUpdateBatch \<Rightarrow> bool result" where
  "validateRangeQueries libs v ns rangeQueriesInfo updates = allR (validateRangeQuery libs v ns updates) rangeQueriesInfo"

definition validateKVReadHash ::
  "validator \<Rightarrow> gostring \<Rightarrow> gostring \<Rightarrow> HashedUpdateBatch \<Rightarrow> KVReadHash \<Rightarrow> bool result" where
  "validateKVReadHash v ns coll updates kvReadHash =
     (let readHashVersion = NewVersion (rhVersion kvReadHash) in
      if HashedUpdateBatch_Contains updates ns coll (rhKeyHash kvReadHash) then Inr False
      else bindR (GetKeyHashVersion (vDb v) ns coll (rhKeyHash kvReadHash)) (\<lambda>committedVersion.
             if \<not> AreSame committedVersion readHashVersion then Inr False else Inr True))"

definition validateCollHashedReadSet ::
  "validator \<Rightarrow> gostring \<Rightarrow> gostring \<Rightarrow> KVReadHash list \<Rightarrow> HashedUpdateBatch \<Rightarrow> bool result" where
  "validateCollHashedReadSet v ns coll kvReadHashes updates = allR (validateKVReadHash v ns coll updates) kvReadHashes"

definition validateNsHashedReadSets ::
  "validator \<Rightarrow> gostring \<Rightarrow> CollHashedRwSet list \<Rightarrow> HashedUpdateBatch \<Rightarrow> bool result" where
  "validateNsHashedReadSets v ns collHashedRWSets updates =
     allR (\<lambda>c. validateCollHashedReadSet v ns (crCollectionName c) (HashedReads (crHashedRwSet c)) updates) collHashedRWSets"

fun validateTx :: "validator_libs \<Rightarrow> validator \<Rightarrow> TxRwSet \<Rightarrow> publicAndHashUpdates \<Rightarrow> TxValidationCode result" where
  "validateTx libs v [] updates = Inr TxValidationCode_VALID"
| "validateTx libs v (nsRWSet # nss) updates =
     (let ns = rwNameSpace nsRWSet in
      bindR (validateReadSet v ns (Reads (rwKvRwSet nsRWSet)) (publicUpdates updates)) (\<lambda>valid.
      if \<not> valid then Inr TxValidationCode_MVCC_READ_CONFLICT
      else bindR (validateRangeQueries libs v ns (RangeQueriesInfo (rwKvRwSet nsRWSet)) (publicUpdates updates)) (\<lambda>valid.
      if \<not> valid then Inr TxValidationCode_PHANTOM_READ_CONFLICT
      else bindR (validateNsHashedReadSets v ns (rwCollHashedRwSets nsRWSet) (hashUpdates updates)) (\<lambda>valid.
      if \<not> valid then Inr TxValidationCode_MVCC_READ_CONFLICT
      else validateTx libs v nss updates))))"

definition validateEndorserTX ::
  "validator_libs \<Rightarrow> validator \<Rightarrow> TxRwSet \<Rightarrow> bool \<Rightarrow> publicAndHashUpdates \<Rightarrow> TxValidationCode result" where
  "validateEndorserTX libs v txRWSet doMVCCValidation updates =
     (if doMVCCValidation then validateTx libs v txRWSet updates else Inr TxValidationCode_VALID)"

section \<open>Tracking purged keys\<close>

record AppInitiatedPurgeUpdate =
  puCompositeKey :: HashedCompositeKey
  puVersion :: Height

type_synonym pvtdataPurgeTracker = "(HashedCompositeKey, AppInitiatedPurgeUpdate) gomap"

definition newPvtdataPurgeTracker :: pvtdataPurgeTracker where
  "newPvtdataPurgeTracker = []"

definition pvtdataPurgeTracker_update :: "TxRwSet \<Rightarrow> Height \<Rightarrow> pvtdataPurgeTracker \<Rightarrow> pvtdataPurgeTracker" where
  "pvtdataPurgeTracker_update rwset ver =
     fold (\<lambda>ns. fold (\<lambda>coll. fold (\<lambda>w m.
         let ck = \<lparr>hckNamespace = rwNameSpace ns, hckCollectionName = crCollectionName coll, hckKeyHash = whKeyHash w\<rparr>
         in if whIsPurge w then mput ck \<lparr>puCompositeKey = ck, puVersion = ver\<rparr> m else m)
       (HashedWrites (crHashedRwSet coll))) (rwCollHashedRwSets ns)) rwset"

definition getUpdates :: "pvtdataPurgeTracker \<Rightarrow> AppInitiatedPurgeUpdate list" where
  "getUpdates m = map snd m"

section \<open>Validating a block\<close>

text \<open>The transactions are returned with the codes the loop sets.\<close>

fun validate_txs ::
  "validator_libs \<Rightarrow> validator \<Rightarrow> u64 \<Rightarrow> bool \<Rightarrow> transaction list \<Rightarrow> publicAndHashUpdates \<Rightarrow> pvtdataPurgeTracker \<Rightarrow>
   (transaction list \<times> publicAndHashUpdates \<times> pvtdataPurgeTracker) result" where
  "validate_txs libs v num doMVCCValidation [] updates purgeTracker = Inr ([], updates, purgeTracker)"
| "validate_txs libs v num doMVCCValidation (tx # txs) updates purgeTracker =
     (case txRwset tx of
        None \<Rightarrow> Inl (Panic ''nil pointer dereference'')
      | Some rwset \<Rightarrow>
          bindR (validateEndorserTX libs v rwset doMVCCValidation updates) (\<lambda>validationCode.
          let tx' = tx\<lparr>txValidationCode := validationCode\<rparr> in
          bindR (if validationCode = TxValidationCode_VALID
                 then let committingTxHeight = NewHeight num (word_of_nat (txIndexInBlock tx)) in
                      bindR (applyWriteSet (vlSerializeMetadata libs) (vlHash libs) rwset committingTxHeight (vDb v)
                               (txContainsPostOrderWrites tx) updates) (\<lambda>updates'.
                      Inr (updates', pvtdataPurgeTracker_update rwset committingTxHeight purgeTracker))
                 else Inr (updates, purgeTracker)) (\<lambda>(updates', purgeTracker').
          bindR (validate_txs libs v num doMVCCValidation txs updates' purgeTracker') (\<lambda>(txs', r).
          Inr (tx' # txs', r)))))"

definition validateAndPrepareBatch ::
  "validator_libs \<Rightarrow> validator \<Rightarrow> block \<Rightarrow> bool \<Rightarrow>
   (transaction list \<times> publicAndHashUpdates \<times> AppInitiatedPurgeUpdate list) result" where
  "validateAndPrepareBatch libs v blk doMVCCValidation =
     bindR (if IsBulkOptimizable (vDb v) then preLoadCommittedVersionOfRSet v blk else Inr ()) (\<lambda>_.
     bindR (validate_txs libs v (blkNum blk) doMVCCValidation (blkTxs blk) newPubAndHashUpdates newPvtdataPurgeTracker)
       (\<lambda>(txs, updates, purgeTracker). Inr (txs, updates, getUpdates purgeTracker)))"

section \<open>Serial execution\<close>

type_synonym kv_state = "compositeKey \<Rightarrow> VersionedValue option"

text \<open>The state in which the updates collected so far are applied to the committed state.\<close>

definition latest :: "(gostring \<Rightarrow> gostring \<rightharpoonup> VersionedValue) \<Rightarrow> DB \<Rightarrow> publicAndHashUpdates \<Rightarrow> kv_state" where
  "latest st db u ck = updated (pending u ck) (committed st db ck)"

text \<open>The effect of one transaction's writes on a state.\<close>

definition write_effect ::
  "Height \<Rightarrow> VersionedValue option \<Rightarrow> key_action option \<Rightarrow> key_action option \<Rightarrow> VersionedValue option" where
  "write_effect h old w m =
     (case w of
        Some ADelete \<Rightarrow> None
      | Some (AUpsert v) \<Rightarrow>
          Some \<lparr>vvValue = Some v, vvMetadata = (if m = None then Option.bind old vvMetadata else md_bytes m),
                vvVersion = Some h\<rparr>
      | _ \<Rightarrow> if m = None then old else map_option (\<lambda>vv. vv\<lparr>vvMetadata := md_bytes m, vvVersion := Some h\<rparr>) old)"

definition tx_actions :: "validator_libs \<Rightarrow> transaction \<Rightarrow> (compositeKey \<times> key_action) list" where
  "tx_actions libs t =
     (case txRwset t of
        None \<Rightarrow> []
      | Some rwset \<Rightarrow> (case rwset_actions (vlSerializeMetadata libs) (vlHash libs) rwset of Inl _ \<Rightarrow> [] | Inr acts \<Rightarrow> acts))"

definition execute :: "validator_libs \<Rightarrow> u64 \<Rightarrow> transaction \<Rightarrow> kv_state \<Rightarrow> kv_state" where
  "execute libs num t \<sigma> ck =
     write_effect (NewHeight num (word_of_nat (txIndexInBlock t))) (\<sigma> ck)
       (wact (tx_actions libs t) ck) (mact (tx_actions libs t) ck)"

text \<open>Executing the valid transactions of a block one after the other.\<close>

definition execute_valid :: "validator_libs \<Rightarrow> u64 \<Rightarrow> transaction list \<Rightarrow> kv_state \<Rightarrow> kv_state" where
  "execute_valid libs num = fold (\<lambda>t \<sigma>. if txValidationCode t = TxValidationCode_VALID then execute libs num t \<sigma> else \<sigma>)"

text \<open>A transaction reads from a state what it has recorded: the versions of the keys and key hashes, and the results of
  the range queries, given by their keys and versions or by a summary of them.\<close>

abbreviation pub_key :: "gostring \<Rightarrow> gostring \<Rightarrow> compositeKey" where
  "pub_key ns k \<equiv> \<lparr>ck_ns = ns, ck_coll = [], ck_key = k\<rparr>"

definition key_read_ok :: "kv_state \<Rightarrow> gostring \<Rightarrow> KVRead \<Rightarrow> bool" where
  "key_read_ok \<sigma> ns r \<longleftrightarrow> Option.bind (\<sigma> (pub_key ns (krKey r))) vvVersion = NewVersion (krVersion r)"

definition hash_read_ok :: "kv_state \<Rightarrow> gostring \<Rightarrow> gostring \<Rightarrow> KVReadHash \<Rightarrow> bool" where
  "hash_read_ok \<sigma> ns coll r \<longleftrightarrow>
     Option.bind (\<sigma> \<lparr>ck_ns = ns, ck_coll = coll, ck_key = rhKeyHash r\<rparr>) vvVersion = NewVersion (rhVersion r)"

definition query_results :: "kv_state \<Rightarrow> gostring \<Rightarrow> RangeQueryInfo \<Rightarrow> VersionedKV list" where
  "query_results \<sigma> ns q =
     range_scan ns (rqStartKey q) (rqEndKey q) (\<lambda>k. \<sigma> (pub_key ns k)) @
     end_key_item ns (rqEndKey q) (\<not> rqItrExhausted q) (\<lambda>k. \<sigma> (pub_key ns k))"

definition query_ok :: "validator_libs \<Rightarrow> (bytes \<Rightarrow> bytes result) \<Rightarrow> kv_state \<Rightarrow> gostring \<Rightarrow> RangeQueryInfo \<Rightarrow> bool" where
  "query_ok libs hashFunc \<sigma> ns q \<longleftrightarrow>
     (case GetReadsMerkleHashes q of
        None \<Rightarrow> map kv_version (query_results \<sigma> ns q) = map read_version (GetRawReads_KvReads q)
      | Some inM \<Rightarrow>
          bindR (NewRangeQueryResultsHelper True (msMaxDegree inM)) (\<lambda>h.
            merkle_summary (vlSerializeReads libs) hashFunc h (query_results \<sigma> ns q)) = Inr (Some inM))"

definition reads_ok :: "validator_libs \<Rightarrow> (bytes \<Rightarrow> bytes result) \<Rightarrow> kv_state \<Rightarrow> TxRwSet \<Rightarrow> bool" where
  "reads_ok libs hashFunc \<sigma> rwset \<longleftrightarrow>
     (\<forall>n \<in> set rwset.
        (\<forall>r \<in> set (Reads (rwKvRwSet n)). key_read_ok \<sigma> (rwNameSpace n) r) \<and>
        (\<forall>q \<in> set (RangeQueriesInfo (rwKvRwSet n)). query_ok libs hashFunc \<sigma> (rwNameSpace n) q) \<and>
        (\<forall>c \<in> set (rwCollHashedRwSets n). \<forall>r \<in> set (HashedReads (crHashedRwSet c)).
           hash_read_ok \<sigma> (rwNameSpace n) (crCollectionName c) r))"

section \<open>One transaction\<close>

lemma allR_True_iff: "allR f xs = Inr True \<longleftrightarrow> (\<forall>x \<in> set xs. f x = Inr True)"
proof (induction xs)
  case (Cons x xs)
  then show ?case by (cases "f x") auto
qed simp

lemma latest_pub: "(\<lambda>k. latest st db u (pub_key ns k)) = overlay st (publicUpdates u) ns"
  by (simp add: fun_eq_iff latest_def pending_def committed_def overlay_def updated_def)

lemma validateKVRead_True:
  assumes "ready st (vDb v)"
  shows "validateKVRead v ns (publicUpdates u) r = Inr True \<longleftrightarrow>
    pending u (pub_key ns (krKey r)) = None \<and> key_read_ok (latest st (vDb v) u) ns r"
  using assms by (auto simp: validateKVRead_def Let_def Exists_iff ready_def vdb_answersD(2) key_read_ok_def latest_def
      updated_def pending_def committed_def simp del: not_None_eq split: if_splits)

lemma validateKVReadHash_True:
  assumes "ready st (vDb v)" and "coll \<noteq> []"
  shows "validateKVReadHash v ns coll (hashUpdates u) r = Inr True \<longleftrightarrow>
    pending u \<lparr>ck_ns = ns, ck_coll = coll, ck_key = rhKeyHash r\<rparr> = None \<and> hash_read_ok (latest st (vDb v) u) ns coll r"
  using assms by (auto simp: validateKVReadHash_def Let_def HashedUpdateBatch_Contains_def UpdateMap_Contains_iff ready_def
      GetKeyHashVersion_def vdb_answersD(2) hash_read_ok_def latest_def updated_def pending_def committed_def
      simp del: not_None_eq split: if_splits)

lemma if_chain_True:
  "(if a then x else if b then y else if c then Inr False else if d then Inl e else if f then Inr False else z) = Inr True \<Longrightarrow>
   x = Inr True \<or> y = Inr True \<or> z = Inr True"
  by (auto split: if_splits)

lemma hash_validate_sound:
  "hash_validate_loop ser hash inM h lm (map Inr kvs) = Inr True \<Longrightarrow> merkle_summary ser hash h kvs = Inr (Some inM)"
proof (induction kvs arbitrary: h lm)
  case Nil
  then show ?case by (auto simp: merkle_summary_def bindR_Inr_iff)
next
  case (Cons kv kvs)
  then obtain h' where h': "AddResult ser hash (NewKVRead (ckKey kv) (vvVersion (kvVal kv))) h = Inr h'"
    by (cases "AddResult ser hash (NewKVRead (ckKey kv) (vvVersion (kvVal kv))) h") simp_all
  note run = Cons.prems [simplified list.map hash_validate_loop.simps h' bindR_simps]
  then obtain m where m: "GetMerkleSummary h' = Inr (Some m)"
    by (cases "GetMerkleSummary h'"; cases "projr (GetMerkleSummary h')") simp_all
  have "\<exists>lm'. hash_validate_loop ser hash inM h' lm' (map Inr kvs) = Inr True"
    using if_chain_True [OF run [unfolded m bindR_simps option.case Let_def]] by blast
  with Cons.IH h' show ?case by (auto simp: merkle_summary_Cons)
qed

lemma results_validate_sound:
  "bindR (ResultsIterator_Next (map Inr kvs)) (\<lambda>(result, itr). results_validate_loop rs result itr) = Inr True \<Longrightarrow>
   map kv_version kvs = map read_version rs"
proof (induction rs arbitrary: kvs)
  case Nil
  then show ?case by (cases kvs) auto
next
  case (Cons r rs)
  then show ?case
    by (cases kvs; cases "krVersion r")
       (auto simp: kv_version_def read_version_def NewVersion_def convertToVersionHeight_def split: if_splits)
qed

lemma results_validate_sound':
  assumes "rangeQueryResultsValidator_validate q (map Inr kvs) = Inr True"
  shows "map kv_version kvs = map read_version (GetRawReads_KvReads q)"
proof (rule results_validate_sound)
  show "bindR (ResultsIterator_Next (map Inr kvs)) (\<lambda>(result, itr). results_validate_loop (GetRawReads_KvReads q) result itr) = Inr True"
    using assms by (cases "GetRawReads_KvReads q")
      (auto simp: rangeQueryResultsValidator_validate_def Let_def bindR_Inr_iff)
qed

lemma validateRangeQuery_sound:
  assumes "ready st (vDb v)" and "wf_updates u" and ns: "nz ns" and v: "validateRangeQuery libs v ns (publicUpdates u) q = Inr True"
  shows "query_ok libs (vHashFunc v) (latest st (vDb v) u) ns q"
proof -
  have db: "vdb_answers (dbVersioned (vDb v)) st" and wf: "wf_batch (publicUpdates u)"
    using assms(1,2) by (simp_all add: ready_def wf_updates_def)
  obtain itr where itr: "newCombinedIterator (dbVersioned (vDb v)) (publicUpdates u) ns (rqStartKey q) (rqEndKey q)
      (\<not> rqItrExhausted q) = Inr itr"
    and res: "combinedIterator_results itr = map Inr (query_results (latest st (vDb v) u) ns q)"
    unfolding query_results_def latest_pub by (rule combined_iterator_correct [OF db wf ns])
  show ?thesis
    using v unfolding validateRangeQuery_def Let_def itr
    by (cases "GetReadsMerkleHashes q")
       (auto simp: res query_ok_def rangeQueryHashValidator_validate_def bindR_Inr_iff intro: results_validate_sound' hash_validate_sound)
qed

text \<open>Namespaces have no zero byte and collections have a name.\<close>

definition well_named :: "TxRwSet \<Rightarrow> bool" where
  "well_named rwset \<longleftrightarrow>
     (\<forall>n \<in> set rwset. nz (rwNameSpace n) \<and> (\<forall>c \<in> set (rwCollHashedRwSets n). crCollectionName c \<noteq> []))"

text \<open>No key the transaction reads has been written by the updates.\<close>

definition reads_untouched :: "publicAndHashUpdates \<Rightarrow> TxRwSet \<Rightarrow> bool" where
  "reads_untouched u rwset \<longleftrightarrow>
     (\<forall>n \<in> set rwset.
        (\<forall>r \<in> set (Reads (rwKvRwSet n)). pending u (pub_key (rwNameSpace n) (krKey r)) = None) \<and>
        (\<forall>c \<in> set (rwCollHashedRwSets n). \<forall>r \<in> set (HashedReads (crHashedRwSet c)).
           pending u \<lparr>ck_ns = rwNameSpace n, ck_coll = crCollectionName c, ck_key = rhKeyHash r\<rparr> = None))"

lemma validateTx_VALID_iff:
  "validateTx libs v rwset u = Inr TxValidationCode_VALID \<longleftrightarrow>
     (\<forall>n \<in> set rwset.
        validateReadSet v (rwNameSpace n) (Reads (rwKvRwSet n)) (publicUpdates u) = Inr True \<and>
        validateRangeQueries libs v (rwNameSpace n) (RangeQueriesInfo (rwKvRwSet n)) (publicUpdates u) = Inr True \<and>
        validateNsHashedReadSets v (rwNameSpace n) (rwCollHashedRwSets n) (hashUpdates u) = Inr True)"
proof (induction rwset)
  case (Cons n nss)
  have "TxValidationCode_VALID \<noteq> TxValidationCode_MVCC_READ_CONFLICT" "TxValidationCode_VALID \<noteq> TxValidationCode_PHANTOM_READ_CONFLICT"
    by (simp_all add: TxValidationCode_VALID_def TxValidationCode_MVCC_READ_CONFLICT_def TxValidationCode_PHANTOM_READ_CONFLICT_def)
  then show ?case using Cons.IH by (auto simp: Let_def bindR_Inr_iff split: if_splits)
qed simp

lemma validateTx_sound:
  assumes "ready st (vDb v)" and "wf_updates u" and "well_named rwset"
    and "validateTx libs v rwset u = Inr TxValidationCode_VALID"
  shows "reads_ok libs (vHashFunc v) (latest st (vDb v) u) rwset" and "reads_untouched u rwset"
proof -
  have c: "crCollectionName c \<noteq> []" if "n \<in> set rwset" "c \<in> set (rwCollHashedRwSets n)" for n c
    using assms(3) that by (simp add: well_named_def)
  note v = assms(4) [unfolded validateTx_VALID_iff validateReadSet_def validateRangeQueries_def validateNsHashedReadSets_def
      validateCollHashedReadSet_def allR_True_iff validateKVRead_True [OF assms(1)]]
  have h: "pending u \<lparr>ck_ns = rwNameSpace n, ck_coll = crCollectionName c, ck_key = rhKeyHash r\<rparr> = None \<and>
      hash_read_ok (latest st (vDb v) u) (rwNameSpace n) (crCollectionName c) r"
    if "n \<in> set rwset" "c \<in> set (rwCollHashedRwSets n)" "r \<in> set (HashedReads (crHashedRwSet c))" for n c r
    using v that validateKVReadHash_True [OF assms(1) c [OF that(1,2)]] by blast
  show "reads_ok libs (vHashFunc v) (latest st (vDb v) u) rwset"
    unfolding reads_ok_def using v h validateRangeQuery_sound [OF assms(1,2)] assms(3) by (auto simp: well_named_def)
  show "reads_untouched u rwset"
    unfolding reads_untouched_def using v h by blast
qed

text \<open>A delete marker carries no metadata.\<close>

definition bare_marker :: "VersionedValue option \<Rightarrow> bool" where
  "bare_marker p \<longleftrightarrow> (\<forall>vv. p = Some vv \<and> VersionedValue_IsDelete vv \<longrightarrow> vvMetadata vv = None)"

definition coherent :: "publicAndHashUpdates \<Rightarrow> bool" where
  "coherent u \<longleftrightarrow> wf_updates u \<and> (\<forall>ck. bare_marker (pending u ck))"

lemma new_entry_refines:
  assumes "\<not> md_on_deleted p w m" and "\<And>a. w = Some a \<Longrightarrow> \<not> is_md a" and "\<And>vv. c = Some vv \<Longrightarrow> vvValue vv \<noteq> None"
    and "bare_marker p"
  shows "updated (new_entry h p c w m) c = write_effect h (updated p c) w m" and "bare_marker (new_entry h p c w m)"
proof -
  have w: "w = None \<or> w = Some ADelete \<or> (\<exists>v. w = Some (AUpsert v))"
  proof (cases w)
    case (Some a)
    with assms(2) have "\<not> is_md a" by blast
    with Some show ?thesis by (cases a) simp_all
  qed simp
  have c: "c = None \<or> (\<exists>vv y. c = Some vv \<and> vvValue vv = Some y)"
  proof (cases c)
    case (Some vv)
    with assms(3) have "vvValue vv \<noteq> None" by blast
    with Some show ?thesis by blast
  qed simp
  have p: "p = None \<or> (\<exists>vv. p = Some vv \<and> vvValue vv = None \<and> vvMetadata vv = None) \<or> (\<exists>vv y. p = Some vv \<and> vvValue vv = Some y)"
    using assms(4) by (cases p) (auto simp: bare_marker_def VersionedValue_IsDelete_def simp del: not_None_eq not_Some_eq)
  note defs = updated_def new_entry_def write_effect_def raw_latest_def VersionedValue_IsDelete_def bare_marker_def
  have nd: "w \<noteq> None \<or> m = None \<or> \<not> (\<exists>vv. p = Some vv \<and> vvValue vv = None)"
    using assms(1) unfolding md_on_deleted_def VersionedValue_IsDelete_def by argo
  show "updated (new_entry h p c w m) c = write_effect h (updated p c) w m"
  proof (cases "w = None \<and> m \<noteq> None")
    case True
    with nd p c show ?thesis by (auto simp: defs simp del: not_None_eq)
  next
    case False
    with w p c show ?thesis by (auto simp: defs simp del: not_None_eq)
  qed
  show "bare_marker (new_entry h p c w m)"
  proof (cases "w = None \<and> m \<noteq> None")
    case True
    with nd p c show ?thesis by (auto simp: defs simp del: not_None_eq)
  next
    case False
    with w p c show ?thesis by (auto simp: defs simp del: not_None_eq)
  qed
qed

definition tx_wf :: "validator_libs \<Rightarrow> transaction \<Rightarrow> bool" where
  "tx_wf libs t \<longleftrightarrow>
     (\<exists>rwset acts. txRwset t = Some rwset \<and> well_named rwset \<and>
        rwset_actions (vlSerializeMetadata libs) (vlHash libs) rwset = Inr acts \<and> wf_acts acts \<and> plain_acts acts)"

lemma applyWriteSet_executes:
  assumes "ready st db" and "tx_wf libs t" and "coherent u" and "txRwset t = Some rwset"
    and "applyWriteSet (vlSerializeMetadata libs) (vlHash libs) rwset (NewHeight num (word_of_nat (txIndexInBlock t))) db post u = Inr u'"
  shows "coherent u'" and "latest st db u' = execute libs num t (latest st db u)"
proof -
  obtain acts where acts: "rwset_actions (vlSerializeMetadata libs) (vlHash libs) rwset = Inr acts" "wf_acts acts" "plain_acts acts"
    using assms(2,4) by (auto simp: tx_wf_def)
  have t: "tx_actions libs t = acts" using acts(1) assms(4) by (simp add: tx_actions_def)
  have wf: "wf_updates u" and bare: "\<And>ck. bare_marker (pending u ck)" using assms(3) by (simp_all add: coherent_def)
  note cases = applyWriteSet_cases [OF assms(1) acts wf, of "NewHeight num (word_of_nat (txIndexInBlock t))" post, unfolded assms(5)]
  then have nd: "\<not> md_on_deleted (pending u ck) (wact acts ck) (mact acts ck)" for ck by (auto split: if_splits)
  have p: "pending u' ck = new_entry (NewHeight num (word_of_nat (txIndexInBlock t))) (pending u ck) (committed st db ck)
      (wact acts ck) (mact acts ck)" for ck
    using cases nd by auto
  have c: "committed st db ck = Some vv \<Longrightarrow> vvValue vv \<noteq> None" for ck vv
    using assms(1) by (auto simp: committed_def ready_def dest: vdb_answersD(5) split: if_splits)
  have "bare_marker (pending u' ck)" for ck
    unfolding p by (rule new_entry_refines(2) [OF nd wact_kind c bare])
  with cases nd show "coherent u'" by (auto simp: coherent_def)
  show "latest st db u' = execute libs num t (latest st db u)"
  proof
    fix ck
    show "latest st db u' ck = execute libs num t (latest st db u) ck"
      unfolding latest_def execute_def t p by (rule new_entry_refines(1) [OF nd wact_kind c bare])
  qed
qed

section \<open>A block\<close>

lemma execute_valid_Nil: "execute_valid libs num [] \<sigma> = \<sigma>"
  by (simp add: execute_valid_def)

lemma execute_valid_Cons:
  "execute_valid libs num (t # ts) \<sigma> =
     execute_valid libs num ts (if txValidationCode t = TxValidationCode_VALID then execute libs num t \<sigma> else \<sigma>)"
  by (simp add: execute_valid_def)

lemma execute_code [simp]: "execute libs num (t\<lparr>txValidationCode := c\<rparr>) = execute libs num t"
  by (simp add: fun_eq_iff execute_def tx_actions_def)

lemma validate_txs_serial:
  assumes "ready st (vDb v)" and "\<forall>t \<in> set txs. tx_wf libs t" and "coherent u"
    and "validate_txs libs v num mvcc txs u pt = Inr (txs', u', pt')"
  shows "coherent u' \<and> list_all2 (\<lambda>t t'. t' = t\<lparr>txValidationCode := txValidationCode t'\<rparr>) txs txs' \<and>
    latest st (vDb v) u' = execute_valid libs num txs' (latest st (vDb v) u) \<and>
    (\<forall>i rwset. i < length txs' \<and> mvcc \<and> txValidationCode (txs' ! i) = TxValidationCode_VALID \<and> txRwset (txs' ! i) = Some rwset \<longrightarrow>
       reads_ok libs (vHashFunc v) (execute_valid libs num (take i txs') (latest st (vDb v) u)) rwset)"
  using assms(2-)
proof (induction txs arbitrary: u pt txs')
  case Nil
  then show ?case by (simp add: execute_valid_def)
next
  case (Cons t txs)
  let ?h = "NewHeight num (word_of_nat (txIndexInBlock t))"
  from Cons.prems(1) obtain rwset where rw: "txRwset t = Some rwset" "well_named rwset" and twf: "tx_wf libs t"
    by (auto simp: tx_wf_def)
  from Cons.prems(3) [unfolded validate_txs.simps rw option.case Let_def] obtain c u1 pt1 ts where
    c: "validateEndorserTX libs v rwset mvcc u = Inr c" and
    u1: "(if c = TxValidationCode_VALID
           then bindR (applyWriteSet (vlSerializeMetadata libs) (vlHash libs) rwset ?h (vDb v) (txContainsPostOrderWrites t) u)
                  (\<lambda>u'. Inr (u', pvtdataPurgeTracker_update rwset ?h pt))
           else Inr (u, pt)) = Inr (u1, pt1)" and
    rest: "validate_txs libs v num mvcc txs u1 pt1 = Inr (ts, u', pt')" and
    txs': "txs' = t\<lparr>txValidationCode := c\<rparr> # ts"
    by (auto simp: bindR_Inr_iff)
  have ok1: "coherent u1" and l1: "latest st (vDb v) u1 =
      (if c = TxValidationCode_VALID then execute libs num t (latest st (vDb v) u) else latest st (vDb v) u)"
    using u1 Cons.prems(2) applyWriteSet_executes [OF assms(1) twf Cons.prems(2) rw(1)]
    by (auto simp: bindR_Inr_iff split: if_splits)
  note IH = Cons.IH [OF _ ok1 rest]
  have r0: "reads_ok libs (vHashFunc v) (latest st (vDb v) u) rwset" if mvcc "c = TxValidationCode_VALID"
    using validateTx_sound(1) [OF assms(1) _ rw(2)] Cons.prems(2) c that by (simp add: validateEndorserTX_def coherent_def)
  have step: "execute_valid libs num (t\<lparr>txValidationCode := c\<rparr> # ts0) (latest st (vDb v) u) = execute_valid libs num ts0 (latest st (vDb v) u1)" for ts0
    by (simp add: execute_valid_Cons l1)
  show ?case
    using IH Cons.prems(1) r0 rw(1)
    by (auto simp: txs' step less_Suc_eq_0_disj execute_valid_Nil)
qed

lemma pending_new [simp]: "pending newPubAndHashUpdates ck = None"
  by (simp add: pending_def newPubAndHashUpdates_def NewPubUpdateBatch_def)

lemma coherent_new [simp]: "coherent newPubAndHashUpdates"
  by (simp add: coherent_def bare_marker_def) (simp add: wf_updates_def newPubAndHashUpdates_def NewPubUpdateBatch_def)

lemma latest_new: "latest st db newPubAndHashUpdates = committed st db"
  by (simp add: fun_eq_iff latest_def updated_def)

lemma validateTx_complete:
  assumes "ready st (vDb v)" and "wf_updates u" and "well_named rwset"
    and "reads_ok libs (vHashFunc v) (latest st (vDb v) u) rwset" and "reads_untouched u rwset"
    and raw: "\<forall>n \<in> set rwset. \<forall>q \<in> set (RangeQueriesInfo (rwKvRwSet n)).
      GetReadsMerkleHashes q = None \<and> (\<forall>r \<in> set (GetRawReads_KvReads q). krVersion r \<noteq> None)"
  shows "validateTx libs v rwset u = Inr TxValidationCode_VALID"
proof -
  have db: "vdb_answers (dbVersioned (vDb v)) st" and wf: "wf_batch (publicUpdates u)"
    using assms(1,2) by (simp_all add: ready_def wf_updates_def)
  have q: "validateRangeQuery libs v (rwNameSpace n) (publicUpdates u) q = Inr True"
    if "n \<in> set rwset" "q \<in> set (RangeQueriesInfo (rwKvRwSet n))" for n q
  proof -
    have ns: "nz (rwNameSpace n)" using assms(3) that by (simp add: well_named_def)
    obtain itr where itr: "newCombinedIterator (dbVersioned (vDb v)) (publicUpdates u) (rwNameSpace n) (rqStartKey q)
        (rqEndKey q) (\<not> rqItrExhausted q) = Inr itr"
      and res: "combinedIterator_results itr = map Inr (query_results (latest st (vDb v) u) (rwNameSpace n) q)"
      unfolding query_results_def latest_pub by (rule combined_iterator_correct [OF db wf ns])
    have r: "GetReadsMerkleHashes q = None" "\<forall>r \<in> set (GetRawReads_KvReads q). krVersion r \<noteq> None"
      using raw that by blast+
    have "query_ok libs (vHashFunc v) (latest st (vDb v) u) (rwNameSpace n) q"
      using assms(4) that by (simp add: reads_ok_def)
    then show ?thesis
      by (simp add: validateRangeQuery_def itr res r(1) query_ok_def results_validate_exact [OF r(2)])
  qed
  have h: "validateKVReadHash v (rwNameSpace n) (crCollectionName c) (hashUpdates u) r = Inr True"
    if "n \<in> set rwset" "c \<in> set (rwCollHashedRwSets n)" "r \<in> set (HashedReads (crHashedRwSet c))" for n c r
  proof -
    have "crCollectionName c \<noteq> []" using assms(3) that by (simp add: well_named_def)
    from validateKVReadHash_True [OF assms(1) this] assms(4,5) that show ?thesis
      by (simp add: reads_ok_def reads_untouched_def)
  qed
  show ?thesis
    unfolding validateTx_VALID_iff validateReadSet_def validateRangeQueries_def validateNsHashedReadSets_def
      validateCollHashedReadSet_def allR_True_iff validateKVRead_True [OF assms(1)]
    using q h assms(4,5) by (auto simp: reads_ok_def reads_untouched_def)
qed

section \<open>Purged keys\<close>

definition purge_keys :: "TxRwSet \<Rightarrow> HashedCompositeKey list" where
  "purge_keys rwset =
     concat (map (\<lambda>ns. concat (map (\<lambda>coll.
         map (\<lambda>w. \<lparr>hckNamespace = rwNameSpace ns, hckCollectionName = crCollectionName coll, hckKeyHash = whKeyHash w\<rparr>)
           (filter whIsPurge (HashedWrites (crHashedRwSet coll)))) (rwCollHashedRwSets ns))) rwset)"

lemma fold_concat_map: "fold f (concat (map g xs)) = fold (\<lambda>x. fold f (g x)) xs"
  by (induction xs) (simp_all add: fun_eq_iff)

lemma fold_map_filter: "fold f (map g (filter P xs)) = fold (\<lambda>x s. if P x then f (g x) s else s) xs"
  by (induction xs) (simp_all add: fun_eq_iff)

lemma purge_update_keys:
  "pvtdataPurgeTracker_update rwset h m = fold (\<lambda>ck. mput ck \<lparr>puCompositeKey = ck, puVersion = h\<rparr>) (purge_keys rwset) m"
  by (simp add: pvtdataPurgeTracker_update_def purge_keys_def fold_concat_map fold_map_filter Let_def)

lemma map_of_purge_update:
  "map_of (pvtdataPurgeTracker_update rwset h m) ck =
     (if ck \<in> set (purge_keys rwset) then Some \<lparr>puCompositeKey = ck, puVersion = h\<rparr> else map_of m ck)"
proof -
  have "map_of (fold (\<lambda>ck. mput ck \<lparr>puCompositeKey = ck, puVersion = h\<rparr>) ks m) ck =
      (if ck \<in> set ks then Some \<lparr>puCompositeKey = ck, puVersion = h\<rparr> else map_of m ck)" for ks
    by (induction ks arbitrary: m) (simp_all add: gomap_simps)
  then show ?thesis by (simp add: purge_update_keys)
qed

lemma wf_purge_update: "wf_map m \<Longrightarrow> wf_map (pvtdataPurgeTracker_update rwset h m)"
proof -
  have "wf_map m \<Longrightarrow> wf_map (fold (\<lambda>ck. mput ck \<lparr>puCompositeKey = ck, puVersion = h\<rparr>) ks m)" for ks
    by (induction ks arbitrary: m) simp_all
  then show "wf_map m \<Longrightarrow> wf_map (pvtdataPurgeTracker_update rwset h m)" by (simp add: purge_update_keys)
qed

text \<open>The last transaction of a list that is valid and purges a key.\<close>

definition last_purge :: "transaction list \<Rightarrow> HashedCompositeKey \<Rightarrow> nat option" where
  "last_purge txs ck =
     fold (\<lambda>t r. if txValidationCode t = TxValidationCode_VALID \<and> (\<exists>rwset. txRwset t = Some rwset \<and> ck \<in> set (purge_keys rwset))
                  then Some (txIndexInBlock t) else r) txs None"

lemma validate_txs_purges:
  assumes "validate_txs libs v num mvcc txs u pt = Inr (txs', u', pt')" and "wf_map pt"
  shows "wf_map pt' \<and> map_of pt' ck =
    fold (\<lambda>t r. if txValidationCode t = TxValidationCode_VALID \<and> (\<exists>rwset. txRwset t = Some rwset \<and> ck \<in> set (purge_keys rwset))
                 then Some \<lparr>puCompositeKey = ck, puVersion = NewHeight num (word_of_nat (txIndexInBlock t))\<rparr> else r) txs' (map_of pt ck)"
  using assms
proof (induction txs arbitrary: u pt txs')
  case Nil
  then show ?case by simp
next
  case (Cons t txs)
  let ?h = "NewHeight num (word_of_nat (txIndexInBlock t))"
  from Cons.prems(1) obtain rwset where rw: "txRwset t = Some rwset" by (auto split: option.splits)
  from Cons.prems(1) [unfolded validate_txs.simps rw option.case Let_def] obtain c u1 pt1 ts where
    pt1: "(if c = TxValidationCode_VALID
           then bindR (applyWriteSet (vlSerializeMetadata libs) (vlHash libs) rwset ?h (vDb v) (txContainsPostOrderWrites t) u)
                  (\<lambda>u'. Inr (u', pvtdataPurgeTracker_update rwset ?h pt))
           else Inr (u, pt)) = Inr (u1, pt1)" and
    rest: "validate_txs libs v num mvcc txs u1 pt1 = Inr (ts, u', pt')" and
    txs': "txs' = t\<lparr>txValidationCode := c\<rparr> # ts"
    by (auto simp: bindR_Inr_iff)
  have "pt1 = (if c = TxValidationCode_VALID then pvtdataPurgeTracker_update rwset ?h pt else pt)"
    using pt1 by (auto simp: bindR_Inr_iff split: if_splits)
  then have "wf_map pt1" and "map_of pt1 ck = (if c = TxValidationCode_VALID \<and> ck \<in> set (purge_keys rwset)
      then Some \<lparr>puCompositeKey = ck, puVersion = ?h\<rparr> else map_of pt ck)"
    using Cons.prems(2) by (simp_all add: wf_purge_update map_of_purge_update)
  with Cons.IH [OF rest] show ?case by (simp add: txs' rw)
qed

lemma last_purge_fold:
  "fold (\<lambda>t r. if txValidationCode t = TxValidationCode_VALID \<and> (\<exists>rwset. txRwset t = Some rwset \<and> ck \<in> set (purge_keys rwset))
                 then Some (f (txIndexInBlock t)) else r) txs None = map_option f (last_purge txs ck)"
proof -
  have "fold (\<lambda>t r. if P t then Some (f (txIndexInBlock t)) else r) txs (map_option f r) =
      map_option f (fold (\<lambda>t r. if P t then Some (txIndexInBlock t) else r) txs r)" for P r
  proof (induction txs arbitrary: r)
    case (Cons t txs)
    have "(if P t then Some (f (txIndexInBlock t)) else map_option f r) = map_option f (if P t then Some (txIndexInBlock t) else r)" by simp
    with Cons.IH show ?case by simp
  qed simp
  from this [where r = None] show ?thesis by (simp add: last_purge_def)
qed

section \<open>Properties\<close>

text \<open>
  C1. Validation of a block is serialisable. The updates it prepares, applied to the committed state, give the state
  that results from executing the valid transactions alone, one after the other in block order, each with its own height;
  and with MVCC validation each valid transaction has recorded exactly what it would read at its turn: the versions of all
  keys and key hashes, and the complete results of all range queries (no phantoms), or their Merkle summary.
\<close>

theorem block_validation_is_serialisable:
  assumes "ready st (vDb v)" and "\<forall>t \<in> set (blkTxs blk). tx_wf libs t"
    and "validateAndPrepareBatch libs v blk mvcc = Inr (txs, u, purges)"
  shows "list_all2 (\<lambda>t t'. t' = t\<lparr>txValidationCode := txValidationCode t'\<rparr>) (blkTxs blk) txs \<and>
    latest st (vDb v) u = execute_valid libs (blkNum blk) txs (committed st (vDb v)) \<and>
    (\<forall>i rwset. i < length txs \<and> mvcc \<and> txValidationCode (txs ! i) = TxValidationCode_VALID \<and> txRwset (txs ! i) = Some rwset \<longrightarrow>
       reads_ok libs (vHashFunc v) (execute_valid libs (blkNum blk) (take i txs) (committed st (vDb v))) rwset)"
proof -
  from assms(3) obtain pt where "validate_txs libs v (blkNum blk) mvcc (blkTxs blk) newPubAndHashUpdates newPvtdataPurgeTracker = Inr (txs, u, pt)"
    by (auto simp: validateAndPrepareBatch_def bindR_Inr_iff)
  from validate_txs_serial [OF assms(1,2) coherent_new this] show ?thesis by (simp add: latest_new)
qed

definition sample_tx :: "nat \<Rightarrow> KVRead list \<Rightarrow> KVWrite list \<Rightarrow> transaction" where
  "sample_tx i rs ws =
     \<lparr>txIndexInBlock = i, txId = ''tx'',
      txRwset = Some [\<lparr>rwNameSpace = ''ns'',
        rwKvRwSet = \<lparr>Reads = rs, RangeQueriesInfo = [], Writes = ws, MetadataWrites = []\<rparr>, rwCollHashedRwSets = []\<rparr>],
      txValidationCode = TxValidationCode_VALID, txContainsPostOrderWrites = False\<rparr>"

definition sample_libs :: validator_libs where
  "sample_libs = \<lparr>vlSerializeReads = (\<lambda>_. Inr ''r''), vlSerializeMetadata = (\<lambda>_. Inr ''m''), vlHash = (\<lambda>x. x)\<rparr>"

definition sample_validator :: validator where
  "sample_validator = \<lparr>vDb = sample_db, vHashFunc = (\<lambda>x. Inr x)\<rparr>"

text \<open>Three transactions: the first writes \<open>a\<close>, the second has read \<open>a\<close> before that, the third writes without reading.\<close>

definition sample_block :: block where
  "sample_block =
     \<lparr>blkNum = 7, blkTxs = [sample_tx 0 [] [\<lparr>kwKey = ''a'', kwIsDelete = False, kwValue = ''1''\<rparr>],
        sample_tx 1 [NewKVRead ''a'' None] [\<lparr>kwKey = ''b'', kwIsDelete = False, kwValue = ''2''\<rparr>],
        sample_tx 2 [NewKVRead ''c'' None] [\<lparr>kwKey = ''c'', kwIsDelete = False, kwValue = ''3''\<rparr>]]\<rparr>"

lemma sample_block_wf: "\<forall>t \<in> set (blkTxs sample_block). tx_wf sample_libs t"
  by (simp add: sample_block_def sample_tx_def tx_wf_def sample_libs_def well_named_def nz_def rwset_actions_def
      ns_actions_def actions_at_def write_action_def IsKVWriteDelete_def wf_acts_def plain_acts_def plain_ns_def)

lemma sample_block_codes:
  "map_sum id (\<lambda>(txs, _). map txValidationCode txs) (validateAndPrepareBatch sample_libs sample_validator sample_block True) =
     Inr [0, 11, 0]"
  by code_simp

theorem block_validation_is_serialisable_witness:
  "\<exists>txs u purges. validateAndPrepareBatch sample_libs sample_validator sample_block True = Inr (txs, u, purges) \<and>
     map txValidationCode txs = [0, 11, 0] \<and>
     latest (\<lambda>_ _. None) sample_db u = execute_valid sample_libs 7 txs (committed (\<lambda>_ _. None) sample_db)"
proof -
  from sample_block_codes obtain txs u purges where
    r: "validateAndPrepareBatch sample_libs sample_validator sample_block True = Inr (txs, u, purges)" "map txValidationCode txs = [0, 11, 0]"
    by (cases "validateAndPrepareBatch sample_libs sample_validator sample_block True") auto
  have "ready (\<lambda>_ _. None) (vDb sample_validator)" using sample_db_ready by (simp add: sample_validator_def)
  from block_validation_is_serialisable [OF this sample_block_wf r(1)] r show ?thesis
    by (auto simp: sample_validator_def sample_block_def)
qed

text \<open>
  C2. No transaction is rejected without a reason: when the state with the preceding updates still shows what the
  transaction has read, no key it read has been written by those updates, and its range queries are recorded by their
  results, then it is valid.
\<close>

theorem unaffected_transaction_is_valid:
  assumes "ready st (vDb v)" and "wf_updates u" and "well_named rwset"
    and "reads_ok libs (vHashFunc v) (latest st (vDb v) u) rwset" and "reads_untouched u rwset"
    and "\<forall>n \<in> set rwset. \<forall>q \<in> set (RangeQueriesInfo (rwKvRwSet n)).
      GetReadsMerkleHashes q = None \<and> (\<forall>r \<in> set (GetRawReads_KvReads q). krVersion r \<noteq> None)"
  shows "validateTx libs v rwset u = Inr TxValidationCode_VALID"
  by (rule validateTx_complete [OF assms])

theorem unaffected_transaction_is_valid_witness:
  "validateTx sample_libs sample_validator (the (txRwset (sample_tx 0 [NewKVRead ''d'' None] []))) sample_updates = Inr TxValidationCode_VALID"
proof -
  have r: "ready (\<lambda>_ _. None) (vDb sample_validator)" using sample_db_ready by (simp add: sample_validator_def)
  show ?thesis
    by (rule unaffected_transaction_is_valid [OF r sample_updates_ok])
       (simp_all add: sample_tx_def well_named_def nz_def reads_ok_def reads_untouched_def key_read_ok_def latest_def
          pending_sample_updates updated_def committed_def NewKVRead_def newProtoVersion_def NewVersion_def)
qed

text \<open>
  C26. The purge updates of a block name every key hash at most once: exactly those that a valid transaction purges, each
  with the height of the last valid transaction that does.
\<close>

theorem purge_updates_are_the_last_valid_purges:
  assumes "validateAndPrepareBatch libs v blk mvcc = Inr (txs, u, purges)"
  shows "distinct (map puCompositeKey purges) \<and>
    (\<forall>ck h. \<lparr>puCompositeKey = ck, puVersion = h\<rparr> \<in> set purges \<longleftrightarrow>
       (\<exists>i. last_purge txs ck = Some i \<and> h = NewHeight (blkNum blk) (word_of_nat i)))"
proof -
  from assms obtain pt where r: "validate_txs libs v (blkNum blk) mvcc (blkTxs blk) newPubAndHashUpdates newPvtdataPurgeTracker = Inr (txs, u, pt)"
    and p: "purges = map snd pt"
    by (auto simp: validateAndPrepareBatch_def bindR_Inr_iff getUpdates_def)
  have pt: "wf_map pt \<and> map_of pt ck =
      map_option (\<lambda>i. \<lparr>puCompositeKey = ck, puVersion = NewHeight (blkNum blk) (word_of_nat i)\<rparr>) (last_purge txs ck)" for ck
    using validate_txs_purges [OF r, of ck] last_purge_fold [of ck
        "\<lambda>i. \<lparr>puCompositeKey = ck, puVersion = NewHeight (blkNum blk) (word_of_nat i)\<rparr>" txs]
    by (simp add: newPvtdataPurgeTracker_def)
  let ?e = "\<lambda>k i. \<lparr>puCompositeKey = k, puVersion = NewHeight (blkNum blk) (word_of_nat i)\<rparr>"
  have mem: "(k, x) \<in> set pt \<longleftrightarrow> (\<exists>i. last_purge txs k = Some i \<and> ?e k i = x)" for k x
    using pt [of k] by (simp only: map_of_Some_mem [symmetric] map_option_eq_Some)
  then have key: "puCompositeKey (snd q) = fst q" if "q \<in> set pt" for q
    using that by (metis prod.collapse AppInitiatedPurgeUpdate.select_convs(1))
  then have "map puCompositeKey purges = map fst pt" unfolding p by simp
  moreover have "\<lparr>puCompositeKey = ck, puVersion = h\<rparr> \<in> set purges \<longleftrightarrow> (ck, \<lparr>puCompositeKey = ck, puVersion = h\<rparr>) \<in> set pt" for ck h
    unfolding p set_map image_iff using key by (metis prod.collapse snd_conv AppInitiatedPurgeUpdate.select_convs(1))
  moreover have "(ck, \<lparr>puCompositeKey = ck, puVersion = h\<rparr>) \<in> set pt \<longleftrightarrow>
       (\<exists>i. last_purge txs ck = Some i \<and> h = NewHeight (blkNum blk) (word_of_nat i))" for ck h
    unfolding mem by auto
  ultimately show ?thesis using pt by simp
qed

theorem purge_updates_are_the_last_valid_purges_witness:
  "\<exists>txs u purges. validateAndPrepareBatch sample_libs sample_validator sample_block True = Inr (txs, u, purges) \<and>
     distinct (map puCompositeKey purges)"
proof -
  from sample_block_codes obtain txs u purges where
    "validateAndPrepareBatch sample_libs sample_validator sample_block True = Inr (txs, u, purges)"
    by (cases "validateAndPrepareBatch sample_libs sample_validator sample_block True") auto
  with purge_updates_are_the_last_valid_purges [OF this] show ?thesis by blast
qed

end
