(* ===== verification/Protoutil.thy ===== *)
theory Protoutil
  imports Rwset
begin

text \<open>
  The protocol messages of envelopes, transactions, proposals and blocks, and the helpers of
  \<open>protoutil/unmarshalers.go\<close>, \<open>protoutil/commonutils.go\<close> and \<open>protoutil/signeddata.go\<close>. Protobuf encoding is a
  parameter, one codec for each message type; an absent and an empty \<open>bytes\<close> field are not told apart, as in the encoding.
  Sub-messages are optional. An error is named by its format string; the time of day and random bytes are arguments.
\<close>

section \<open>Messages\<close>

type_synonym Timestamp = "int \<times> int"

record Header =
  hdChannelHeader :: bytes
  hdSignatureHeader :: bytes

record ChannelHeader =
  chType :: int
  chVersion :: int
  chTimestamp :: "Timestamp option"
  chChannelId :: gostring
  chTxId :: gostring
  chEpoch :: u64
  chExtension :: bytes
  chTlsCertHash :: bytes

record SignatureHeader =
  shCreator :: bytes
  shNonce :: bytes

record Payload =
  pyHeader :: "Header option"
  pyData :: bytes

record Envelope =
  evPayload :: bytes
  evSignature :: bytes

record BlockHeader =
  bhNumber :: u64
  bhPreviousHash :: bytes
  bhDataHash :: bytes

record Block =
  bkHeader :: "BlockHeader option"
  bkData :: "bytes list option"
  bkMetadata :: "bytes list option"

record MetadataSignature =
  msSignatureHeader :: bytes
  msSignature :: bytes

record Metadata =
  mdValue :: bytes
  mdSignatures :: "MetadataSignature list"

record OrdererBlockMetadata =
  obLastConfig :: "u64 option"
  obConsenterMetadata :: bytes

record ChaincodeID =
  ciPath :: gostring
  ciName :: gostring
  ciVersion :: gostring

record ChaincodeInput =
  inArgs :: "bytes list"
  inDecorations :: "(gostring, bytes) gomap"
  inIsInit :: bool

record ChaincodeSpec =
  csType :: int
  csChaincodeId :: "ChaincodeID option"
  csInput :: "ChaincodeInput option"
  csTimeout :: int

text \<open>A \<open>ChaincodeInvocationSpec\<close> has the specification as its only field.\<close>

type_synonym ChaincodeInvocationSpec = "ChaincodeSpec option"

type_synonym ChaincodeHeaderExtension = "ChaincodeID option"

record Proposal =
  prHeader :: bytes
  prPayload :: bytes
  prExtension :: bytes

record SignedProposal =
  spProposalBytes :: bytes
  spSignature :: bytes

record ChaincodeProposalPayload =
  cpInput :: bytes
  cpTransientMap :: "(gostring, bytes) gomap"

record Response =
  rsStatus :: int
  rsMessage :: gostring
  rsPayload :: bytes

record ProposalResponsePayload =
  ppProposalHash :: bytes
  ppExtension :: bytes

record Endorsement =
  enEndorser :: bytes
  enSignature :: bytes

record ProposalResponse =
  reVersion :: int
  reResponse :: "Response option"
  rePayload :: bytes
  reEndorsement :: "Endorsement option"

record ChaincodeAction =
  caResults :: bytes
  caEvents :: bytes
  caResponse :: "Response option"
  caChaincodeId :: "ChaincodeID option"

record TransactionAction =
  taHeader :: bytes
  taPayload :: bytes

type_synonym Transaction = "TransactionAction list"

record ChaincodeEndorsedAction =
  eaProposalResponsePayload :: bytes
  eaEndorsements :: "Endorsement list"

record ChaincodeActionPayload =
  apChaincodeProposalPayload :: bytes
  apAction :: "ChaincodeEndorsedAction option"

record ConfigSignature =
  cgSignatureHeader :: bytes
  cgSignature :: bytes

record ConfigUpdateEnvelope =
  cuConfigUpdate :: bytes
  cuSignatures :: "ConfigSignature list"

section \<open>Encoding\<close>

record proto_codecs =
  pbEnvelope :: "Envelope codec"
  pbPayload :: "Payload codec"
  pbHeader :: "Header codec"
  pbChannelHeader :: "ChannelHeader codec"
  pbSignatureHeader :: "SignatureHeader codec"
  pbTransaction :: "Transaction codec"
  pbChaincodeActionPayload :: "ChaincodeActionPayload codec"
  pbProposalResponsePayload :: "ProposalResponsePayload codec"
  pbChaincodeAction :: "ChaincodeAction codec"
  pbProposal :: "Proposal codec"
  pbChaincodeProposalPayload :: "ChaincodeProposalPayload codec"
  pbChaincodeHeaderExtension :: "ChaincodeHeaderExtension codec"
  pbChaincodeInvocationSpec :: "ChaincodeInvocationSpec codec"
  pbResponse :: "Response codec"
  pbProposalResponse :: "ProposalResponse codec"
  pbChaincodeID :: "ChaincodeID codec"
  pbBlock :: "Block codec"
  pbMetadata :: "Metadata codec"
  pbLastConfig :: "u64 codec"
  pbOrdererBlockMetadata :: "OrdererBlockMetadata codec"
  pbConfigUpdateEnvelope :: "ConfigUpdateEnvelope codec"

text \<open>\<open>errors.Wrap\<close> and \<open>errors.WithMessage\<close> put a text before that of the error; a call that panics on error.\<close>

definition wrapR :: "string \<Rightarrow> 'a result \<Rightarrow> 'a result" where
  "wrapR msg r = (case r of Inl (Err e) \<Rightarrow> Inl (Err (msg @ '': '' @ e)) | _ \<Rightarrow> r)"

definition orPanic :: "'a result \<Rightarrow> 'a result" where
  "orPanic r = (case r of Inl (Err e) \<Rightarrow> Inl (Panic e) | _ \<Rightarrow> r)"

lemma wrapR_Inr [simp]: "wrapR m (Inr x) = Inr x" "wrapR m r = Inr x \<longleftrightarrow> r = Inr x"
  by (auto simp: wrapR_def split: sum.splits fault.splits)

lemma orPanic_Inr [simp]: "orPanic (Inr x) = Inr x" "orPanic r = Inr x \<longleftrightarrow> r = Inr x"
  by (auto simp: orPanic_def split: sum.splits fault.splits)

lemma orPanic_no_Err [simp]: "orPanic r \<noteq> Inl (Err e)"
  by (auto simp: orPanic_def split: sum.splits fault.splits)

definition MarshalOrPanic :: "'a codec \<Rightarrow> 'a \<Rightarrow> bytes result" where
  "MarshalOrPanic c x = orPanic (pMarshal c x)"

section \<open>Unmarshalers\<close>

definition UnmarshalBlock :: "proto_codecs \<Rightarrow> bytes \<Rightarrow> Block result" where
  "UnmarshalBlock pb b = wrapR ''error unmarshalling Block'' (pUnmarshal (pbBlock pb) b)"

definition UnmarshalChaincodeInvocationSpec :: "proto_codecs \<Rightarrow> bytes \<Rightarrow> ChaincodeInvocationSpec result" where
  "UnmarshalChaincodeInvocationSpec pb b =
     wrapR ''error unmarshalling ChaincodeInvocationSpec'' (pUnmarshal (pbChaincodeInvocationSpec pb) b)"

definition UnmarshalPayload :: "proto_codecs \<Rightarrow> bytes \<Rightarrow> Payload result" where
  "UnmarshalPayload pb b = wrapR ''error unmarshalling Payload'' (pUnmarshal (pbPayload pb) b)"

definition UnmarshalEnvelope :: "proto_codecs \<Rightarrow> bytes \<Rightarrow> Envelope result" where
  "UnmarshalEnvelope pb b = wrapR ''error unmarshalling Envelope'' (pUnmarshal (pbEnvelope pb) b)"

definition UnmarshalChannelHeader :: "proto_codecs \<Rightarrow> bytes \<Rightarrow> ChannelHeader result" where
  "UnmarshalChannelHeader pb b = wrapR ''error unmarshalling ChannelHeader'' (pUnmarshal (pbChannelHeader pb) b)"

definition UnmarshalChaincodeID :: "proto_codecs \<Rightarrow> bytes \<Rightarrow> ChaincodeID result" where
  "UnmarshalChaincodeID pb b = wrapR ''error unmarshalling ChaincodeID'' (pUnmarshal (pbChaincodeID pb) b)"

definition UnmarshalSignatureHeader :: "proto_codecs \<Rightarrow> bytes \<Rightarrow> SignatureHeader result" where
  "UnmarshalSignatureHeader pb b = wrapR ''error unmarshalling SignatureHeader'' (pUnmarshal (pbSignatureHeader pb) b)"

definition UnmarshalHeader :: "proto_codecs \<Rightarrow> bytes \<Rightarrow> Header result" where
  "UnmarshalHeader pb b = wrapR ''error unmarshalling Header'' (pUnmarshal (pbHeader pb) b)"

definition UnmarshalChaincodeHeaderExtension :: "proto_codecs \<Rightarrow> bytes \<Rightarrow> ChaincodeHeaderExtension result" where
  "UnmarshalChaincodeHeaderExtension pb b =
     wrapR ''error unmarshalling ChaincodeHeaderExtension'' (pUnmarshal (pbChaincodeHeaderExtension pb) b)"

definition UnmarshalProposalResponse :: "proto_codecs \<Rightarrow> bytes \<Rightarrow> ProposalResponse result" where
  "UnmarshalProposalResponse pb b = wrapR ''error unmarshalling ProposalResponse'' (pUnmarshal (pbProposalResponse pb) b)"

definition UnmarshalChaincodeAction :: "proto_codecs \<Rightarrow> bytes \<Rightarrow> ChaincodeAction result" where
  "UnmarshalChaincodeAction pb b = wrapR ''error unmarshalling ChaincodeAction'' (pUnmarshal (pbChaincodeAction pb) b)"

definition UnmarshalResponse :: "proto_codecs \<Rightarrow> bytes \<Rightarrow> Response result" where
  "UnmarshalResponse pb b = wrapR ''error unmarshalling Response'' (pUnmarshal (pbResponse pb) b)"

definition UnmarshalProposalResponsePayload :: "proto_codecs \<Rightarrow> bytes \<Rightarrow> ProposalResponsePayload result" where
  "UnmarshalProposalResponsePayload pb b =
     wrapR ''error unmarshalling ProposalResponsePayload'' (pUnmarshal (pbProposalResponsePayload pb) b)"

definition UnmarshalProposal :: "proto_codecs \<Rightarrow> bytes \<Rightarrow> Proposal result" where
  "UnmarshalProposal pb b = wrapR ''error unmarshalling Proposal'' (pUnmarshal (pbProposal pb) b)"

definition UnmarshalTransaction :: "proto_codecs \<Rightarrow> bytes \<Rightarrow> Transaction result" where
  "UnmarshalTransaction pb b = wrapR ''error unmarshalling Transaction'' (pUnmarshal (pbTransaction pb) b)"

definition UnmarshalChaincodeActionPayload :: "proto_codecs \<Rightarrow> bytes \<Rightarrow> ChaincodeActionPayload result" where
  "UnmarshalChaincodeActionPayload pb b =
     wrapR ''error unmarshalling ChaincodeActionPayload'' (pUnmarshal (pbChaincodeActionPayload pb) b)"

definition UnmarshalChaincodeProposalPayload :: "proto_codecs \<Rightarrow> bytes \<Rightarrow> ChaincodeProposalPayload result" where
  "UnmarshalChaincodeProposalPayload pb b =
     wrapR ''error unmarshalling ChaincodeProposalPayload'' (pUnmarshal (pbChaincodeProposalPayload pb) b)"

definition UnmarshalTxReadWriteSet :: "rwset_codecs \<Rightarrow> bytes \<Rightarrow> TxReadWriteSet result" where
  "UnmarshalTxReadWriteSet cd b = wrapR ''error unmarshalling TxReadWriteSet'' (pUnmarshal (txReadWriteSet_codec cd) b)"

definition UnmarshalKVRWSet :: "rwset_codecs \<Rightarrow> bytes \<Rightarrow> KVRWSet result" where
  "UnmarshalKVRWSet cd b = wrapR ''error unmarshalling KVRWSet'' (pUnmarshal (kvRWSet_codec cd) b)"

definition UnmarshalHashedRWSet :: "rwset_codecs \<Rightarrow> bytes \<Rightarrow> HashedRWSet result" where
  "UnmarshalHashedRWSet cd b = wrapR ''error unmarshalling HashedRWSet'' (pUnmarshal (hashedRWSet_codec cd) b)"

definition UnmarshalPayloadOrPanic :: "proto_codecs \<Rightarrow> bytes \<Rightarrow> Payload result" where
  "UnmarshalPayloadOrPanic pb b = orPanic (UnmarshalPayload pb b)"

definition UnmarshalEnvelopeOrPanic :: "proto_codecs \<Rightarrow> bytes \<Rightarrow> Envelope result" where
  "UnmarshalEnvelopeOrPanic pb b = orPanic (UnmarshalEnvelope pb b)"

definition UnmarshalBlockOrPanic :: "proto_codecs \<Rightarrow> bytes \<Rightarrow> Block result" where
  "UnmarshalBlockOrPanic pb b = orPanic (UnmarshalBlock pb b)"

definition UnmarshalChannelHeaderOrPanic :: "proto_codecs \<Rightarrow> bytes \<Rightarrow> ChannelHeader result" where
  "UnmarshalChannelHeaderOrPanic pb b = orPanic (UnmarshalChannelHeader pb b)"

definition UnmarshalSignatureHeaderOrPanic :: "proto_codecs \<Rightarrow> bytes \<Rightarrow> SignatureHeader result" where
  "UnmarshalSignatureHeaderOrPanic pb b = orPanic (UnmarshalSignatureHeader pb b)"

definition GetEnvelopeFromBlock :: "proto_codecs \<Rightarrow> bytes \<Rightarrow> Envelope result" where
  "GetEnvelopeFromBlock pb data = wrapR ''error unmarshalling Envelope'' (pUnmarshal (pbEnvelope pb) data)"

section \<open>Common helpers\<close>

definition HeaderType_CONFIG :: int where "HeaderType_CONFIG = 1"
definition HeaderType_CONFIG_UPDATE :: int where "HeaderType_CONFIG_UPDATE = 2"
definition HeaderType_ENDORSER_TRANSACTION :: int where "HeaderType_ENDORSER_TRANSACTION = 3"
definition HeaderType_ORDERER_TRANSACTION :: int where "HeaderType_ORDERER_TRANSACTION = 4"

definition UnmarshalEnvelopeOfType ::
  "proto_codecs \<Rightarrow> 'm codec \<Rightarrow> Envelope \<Rightarrow> int \<Rightarrow> (ChannelHeader \<times> 'm) result" where
  "UnmarshalEnvelopeOfType pb c envelope headerType =
     bindR (UnmarshalPayload pb (evPayload envelope)) (\<lambda>payload.
       case pyHeader payload of
         None \<Rightarrow> Inl (Err ''envelope must have a Header'')
       | Some h \<Rightarrow>
           bindR (UnmarshalChannelHeader pb (hdChannelHeader h)) (\<lambda>chdr.
             if chType chdr \<noteq> headerType then Inl (Err ''invalid type %s, expected %s'')
             else bindR (wrapR ''error unmarshalling message for type %s'' (pUnmarshal c (pyData payload)))
                    (\<lambda>message. Inr (chdr, message))))"

definition ExtractEnvelope :: "proto_codecs \<Rightarrow> Block \<Rightarrow> int \<Rightarrow> Envelope result" where
  "ExtractEnvelope pb block index =
     (case bkData block of
        None \<Rightarrow> Inl (Err ''block data is nil'')
      | Some data \<Rightarrow>
          if index < 0 \<or> index \<ge> int (length data) then Inl (Err ''envelope index out of bounds'')
          else wrapR ''block data does not carry an envelope at index %d'' (GetEnvelopeFromBlock pb (data ! nat index)))"

definition ExtractEnvelopeOrPanic :: "proto_codecs \<Rightarrow> Block \<Rightarrow> int \<Rightarrow> Envelope result" where
  "ExtractEnvelopeOrPanic pb block index = orPanic (ExtractEnvelope pb block index)"

definition MakeChannelHeader :: "int \<Rightarrow> int \<Rightarrow> int \<Rightarrow> gostring \<Rightarrow> u64 \<Rightarrow> ChannelHeader" where
  "MakeChannelHeader now headerType version chainID epoch =
     \<lparr>chType = headerType, chVersion = version, chTimestamp = Some (now, 0), chChannelId = chainID, chTxId = [],
      chEpoch = epoch, chExtension = [], chTlsCertHash = []\<rparr>"

definition MakeSignatureHeader :: "bytes \<Rightarrow> bytes \<Rightarrow> SignatureHeader" where
  "MakeSignatureHeader serializedCreatorCertChain nonce = \<lparr>shCreator = serializedCreatorCertChain, shNonce = nonce\<rparr>"

definition MakePayloadHeader :: "proto_codecs \<Rightarrow> ChannelHeader \<Rightarrow> SignatureHeader \<Rightarrow> Header result" where
  "MakePayloadHeader pb ch sh =
     bindR (MarshalOrPanic (pbChannelHeader pb) ch) (\<lambda>c.
     bindR (MarshalOrPanic (pbSignatureHeader pb) sh) (\<lambda>s. Inr \<lparr>hdChannelHeader = c, hdSignatureHeader = s\<rparr>))"

text \<open>A signer gives its serialised identity and signs bytes.\<close>

record Signer =
  sgSerialize :: "bytes result"
  sgSign :: "bytes \<Rightarrow> bytes result"

definition CreateNonce :: "bytes result \<Rightarrow> bytes result" where
  "CreateNonce random = wrapR ''error generating random nonce'' (wrapR ''error getting random bytes'' random)"

definition NewSignatureHeader :: "bytes result \<Rightarrow> Signer \<Rightarrow> SignatureHeader result" where
  "NewSignatureHeader random id0 =
     bindR (sgSerialize id0) (\<lambda>creator. bindR (CreateNonce random) (\<lambda>nonce. Inr \<lparr>shCreator = creator, shNonce = nonce\<rparr>))"

definition NewSignatureHeaderOrPanic :: "bytes result \<Rightarrow> Signer option \<Rightarrow> SignatureHeader result" where
  "NewSignatureHeaderOrPanic random id0 =
     (case id0 of None \<Rightarrow> Inl (Panic ''invalid signer. cannot be nil'')
      | Some s \<Rightarrow> orPanic (wrapR ''failed generating a new SignatureHeader'' (NewSignatureHeader random s)))"

definition SignOrPanic :: "Signer option \<Rightarrow> bytes \<Rightarrow> bytes result" where
  "SignOrPanic signer msg =
     (case signer of None \<Rightarrow> Inl (Panic ''invalid signer. cannot be nil'')
      | Some s \<Rightarrow> orPanic (wrapR ''failed generating signature'' (sgSign s msg)))"

definition IsConfigBlock :: "proto_codecs \<Rightarrow> Block \<Rightarrow> bool" where
  "IsConfigBlock pb block =
     (case bkData block of
        Some [marshaledEnvelope] \<Rightarrow>
          (case GetEnvelopeFromBlock pb marshaledEnvelope of
             Inl _ \<Rightarrow> False
           | Inr envelope \<Rightarrow>
               (case UnmarshalPayload pb (evPayload envelope) of
                  Inl _ \<Rightarrow> False
                | Inr payload \<Rightarrow>
                    (case pyHeader payload of
                       None \<Rightarrow> False
                     | Some h \<Rightarrow>
                         (case UnmarshalChannelHeader pb (hdChannelHeader h) of
                            Inl _ \<Rightarrow> False
                          | Inr hdr \<Rightarrow> chType hdr = HeaderType_CONFIG \<or> chType hdr = HeaderType_ORDERER_TRANSACTION))))
      | _ \<Rightarrow> False)"

definition ChannelHeader_of :: "proto_codecs \<Rightarrow> Envelope option \<Rightarrow> ChannelHeader result" where
  "ChannelHeader_of pb env =
     (case env of
        None \<Rightarrow> Inl (Err ''Invalid envelope payload. can't be nil'')
      | Some e \<Rightarrow>
          bindR (UnmarshalPayload pb (evPayload e)) (\<lambda>envPayload.
            case pyHeader envPayload of
              None \<Rightarrow> Inl (Err ''header not set'')
            | Some h \<Rightarrow>
                if hdChannelHeader h = [] then Inl (Err ''channel header not set'')
                else wrapR ''error unmarshalling channel header'' (UnmarshalChannelHeader pb (hdChannelHeader h))))"

definition ChannelID_of :: "proto_codecs \<Rightarrow> Envelope option \<Rightarrow> gostring result" where
  "ChannelID_of pb env =
     bindR (wrapR ''error retrieving channel header'' (ChannelHeader_of pb env)) (\<lambda>chdr. Inr (chChannelId chdr))"

definition EnvelopeToConfigUpdate :: "proto_codecs \<Rightarrow> Envelope \<Rightarrow> ConfigUpdateEnvelope result" where
  "EnvelopeToConfigUpdate pb configtx =
     bindR (UnmarshalEnvelopeOfType pb (pbConfigUpdateEnvelope pb) configtx HeaderType_CONFIG_UPDATE) (\<lambda>(_, u). Inr u)"

section \<open>Signed data\<close>

record SignedData =
  sdData :: bytes
  sdIdentity :: bytes
  sdSignature :: bytes

definition ConfigUpdateEnvelopeAsSignedData ::
  "proto_codecs \<Rightarrow> ConfigUpdateEnvelope option \<Rightarrow> SignedData list result" where
  "ConfigUpdateEnvelopeAsSignedData pb ce =
     (case ce of
        None \<Rightarrow> Inl (Err ''No signatures for nil SignedConfigItem'')
      | Some ce \<Rightarrow>
          mapR (\<lambda>configSig.
            bindR (pUnmarshal (pbSignatureHeader pb) (cgSignatureHeader configSig)) (\<lambda>sigHeader.
              Inr \<lparr>sdData = cgSignatureHeader configSig @ cuConfigUpdate ce, sdIdentity = shCreator sigHeader,
                   sdSignature = cgSignature configSig\<rparr>)) (cuSignatures ce))"

definition EnvelopeAsSignedData :: "proto_codecs \<Rightarrow> Envelope option \<Rightarrow> SignedData list result" where
  "EnvelopeAsSignedData pb env =
     (case env of
        None \<Rightarrow> Inl (Err ''No signatures for nil Envelope'')
      | Some e \<Rightarrow>
          bindR (pUnmarshal (pbPayload pb) (evPayload e)) (\<lambda>payload.
            case pyHeader payload of
              None \<Rightarrow> Inl (Err ''Missing Header'')
            | Some h \<Rightarrow>
                bindR (wrapR ''GetSignatureHeaderFromBytes failed, err %s'' (pUnmarshal (pbSignatureHeader pb) (hdSignatureHeader h)))
                  (\<lambda>shdr. Inr [\<lparr>sdData = evPayload e, sdIdentity = shCreator shdr, sdSignature = evSignature e\<rparr>])))"

section \<open>Reading back\<close>

lemma codec_ok_single: "codec_ok c [x] \<longleftrightarrow> (\<forall>b. pMarshal c x = Inr b \<longrightarrow> pUnmarshal c b = Inr x)"
  by (simp add: codec_ok_def)

lemma MarshalOrPanic_Inr_iff [simp]: "MarshalOrPanic c x = Inr b \<longleftrightarrow> pMarshal c x = Inr b"
  by (simp add: MarshalOrPanic_def)

lemmas unmarshal_defs =
  UnmarshalBlock_def UnmarshalChaincodeInvocationSpec_def UnmarshalPayload_def UnmarshalEnvelope_def
  UnmarshalChannelHeader_def UnmarshalSignatureHeader_def UnmarshalHeader_def UnmarshalChaincodeHeaderExtension_def
  UnmarshalChaincodeAction_def UnmarshalProposalResponsePayload_def UnmarshalProposal_def UnmarshalTransaction_def
  UnmarshalChaincodeActionPayload_def UnmarshalChaincodeProposalPayload_def GetEnvelopeFromBlock_def

end
