(* ===== verification/Protoutil_Tx.thy ===== *)
theory Protoutil_Tx
  imports Protoutil
begin

text \<open>
  Proposals, endorsements and transactions: \<open>protoutil/txutils.go\<close> and \<open>protoutil/proputils.go\<close>. A client makes a
  proposal, endorsers answer with signed responses, the client assembles a transaction, and committers take it apart. The
  lemmas relate the two ends: what is taken out of the transaction is what was endorsed, and no transient data is in it.
  The hash function is a parameter.
\<close>

section \<open>Serialisation of single messages\<close>

definition GetBytesChaincodeProposalPayload :: "proto_codecs \<Rightarrow> ChaincodeProposalPayload \<Rightarrow> bytes result" where
  "GetBytesChaincodeProposalPayload pb cpp =
     wrapR ''error marshaling ChaincodeProposalPayload'' (pMarshal (pbChaincodeProposalPayload pb) cpp)"

definition GetBytesResponse :: "proto_codecs \<Rightarrow> Response \<Rightarrow> bytes result" where
  "GetBytesResponse pb res = wrapR ''error marshaling Response'' (pMarshal (pbResponse pb) res)"

definition GetBytesChaincodeActionPayload :: "proto_codecs \<Rightarrow> ChaincodeActionPayload \<Rightarrow> bytes result" where
  "GetBytesChaincodeActionPayload pb cap =
     wrapR ''error marshaling ChaincodeActionPayload'' (pMarshal (pbChaincodeActionPayload pb) cap)"

definition GetBytesProposalResponse :: "proto_codecs \<Rightarrow> ProposalResponse \<Rightarrow> bytes result" where
  "GetBytesProposalResponse pb pr = wrapR ''error marshaling ProposalResponse'' (pMarshal (pbProposalResponse pb) pr)"

definition GetBytesHeader :: "proto_codecs \<Rightarrow> Header \<Rightarrow> bytes result" where
  "GetBytesHeader pb hdr = wrapR ''error marshaling Header'' (pMarshal (pbHeader pb) hdr)"

definition GetBytesSignatureHeader :: "proto_codecs \<Rightarrow> SignatureHeader \<Rightarrow> bytes result" where
  "GetBytesSignatureHeader pb hdr = wrapR ''error marshaling SignatureHeader'' (pMarshal (pbSignatureHeader pb) hdr)"

definition GetBytesTransaction :: "proto_codecs \<Rightarrow> Transaction \<Rightarrow> bytes result" where
  "GetBytesTransaction pb tx = wrapR ''error unmarshalling Transaction'' (pMarshal (pbTransaction pb) tx)"

definition GetBytesPayload :: "proto_codecs \<Rightarrow> Payload \<Rightarrow> bytes result" where
  "GetBytesPayload pb payl = wrapR ''error marshaling Payload'' (pMarshal (pbPayload pb) payl)"

definition GetBytesEnvelope :: "proto_codecs \<Rightarrow> Envelope \<Rightarrow> bytes result" where
  "GetBytesEnvelope pb env = wrapR ''error marshaling Envelope'' (pMarshal (pbEnvelope pb) env)"

definition GetBytesProposalResponsePayload ::
  "proto_codecs \<Rightarrow> bytes \<Rightarrow> Response option \<Rightarrow> bytes \<Rightarrow> bytes \<Rightarrow> ChaincodeID option \<Rightarrow> bytes result" where
  "GetBytesProposalResponsePayload pb hash response result event ccid =
     bindR (wrapR ''error marshaling ChaincodeAction'' (pMarshal (pbChaincodeAction pb)
        \<lparr>caResults = result, caEvents = event, caResponse = response, caChaincodeId = ccid\<rparr>)) (\<lambda>cActBytes.
     wrapR ''error marshaling ProposalResponsePayload''
       (pMarshal (pbProposalResponsePayload pb) \<lparr>ppProposalHash = hash, ppExtension = cActBytes\<rparr>))"

definition GetBytesProposalPayloadForTx :: "proto_codecs \<Rightarrow> ChaincodeProposalPayload \<Rightarrow> bytes result" where
  "GetBytesProposalPayloadForTx pb payload =
     GetBytesChaincodeProposalPayload pb \<lparr>cpInput = cpInput payload, cpTransientMap = []\<rparr>"

section \<open>Hashes and identifiers\<close>

definition GetProposalHash2 :: "(bytes \<Rightarrow> bytes) \<Rightarrow> Header option \<Rightarrow> bytes \<Rightarrow> bytes result" where
  "GetProposalHash2 sha256 header ccPropPayl =
     (case header of
        None \<Rightarrow> Inl (Err ''nil arguments'')
      | Some h \<Rightarrow>
          if hdChannelHeader h = [] \<or> hdSignatureHeader h = [] \<or> ccPropPayl = [] then Inl (Err ''nil arguments'')
          else Inr (sha256 (hdChannelHeader h @ hdSignatureHeader h @ ccPropPayl)))"

definition GetProposalHash1 :: "proto_codecs \<Rightarrow> (bytes \<Rightarrow> bytes) \<Rightarrow> Header option \<Rightarrow> bytes \<Rightarrow> bytes result" where
  "GetProposalHash1 pb sha256 header ccPropPayl =
     (case header of
        None \<Rightarrow> Inl (Err ''nil arguments'')
      | Some h \<Rightarrow>
          if hdChannelHeader h = [] \<or> hdSignatureHeader h = [] \<or> ccPropPayl = [] then Inl (Err ''nil arguments'')
          else bindR (UnmarshalChaincodeProposalPayload pb ccPropPayl) (\<lambda>cpp.
               bindR (GetBytesProposalPayloadForTx pb cpp) (\<lambda>ppBytes.
               Inr (sha256 (hdChannelHeader h @ hdSignatureHeader h @ ppBytes)))))"

definition hexDigit :: "nat \<Rightarrow> char" where
  "hexDigit n = ''0123456789abcdef'' ! n"

definition hex_EncodeToString :: "bytes \<Rightarrow> gostring" where
  "hex_EncodeToString bs = concat (map (\<lambda>b. [hexDigit (of_char b div 16), hexDigit (of_char b mod 16)]) bs)"

definition ComputeTxID :: "(bytes \<Rightarrow> bytes) \<Rightarrow> bytes \<Rightarrow> bytes \<Rightarrow> gostring" where
  "ComputeTxID sha256 nonce creator = hex_EncodeToString (sha256 (nonce @ creator))"

definition CheckTxID :: "(bytes \<Rightarrow> bytes) \<Rightarrow> gostring \<Rightarrow> bytes \<Rightarrow> bytes \<Rightarrow> unit result" where
  "CheckTxID sha256 txid nonce creator =
     (if txid \<noteq> ComputeTxID sha256 nonce creator then Inl (Err ''invalid txid. got [%s], expected [%s]'') else Inr ())"

definition SetTxID :: "(bytes \<Rightarrow> bytes) \<Rightarrow> ChannelHeader \<Rightarrow> SignatureHeader \<Rightarrow> ChannelHeader" where
  "SetTxID sha256 channelHeader signatureHeader =
     channelHeader\<lparr>chTxId := ComputeTxID sha256 (shNonce signatureHeader) (shCreator signatureHeader)\<rparr>"

definition GetOrComputeTxIDFromEnvelope :: "proto_codecs \<Rightarrow> (bytes \<Rightarrow> bytes) \<Rightarrow> bytes \<Rightarrow> gostring result" where
  "GetOrComputeTxIDFromEnvelope pb sha256 txEnvelopBytes =
     bindR (wrapR ''error getting txID from envelope'' (UnmarshalEnvelope pb txEnvelopBytes)) (\<lambda>txEnvelope.
     bindR (wrapR ''error getting txID from payload'' (UnmarshalPayload pb (evPayload txEnvelope))) (\<lambda>txPayload.
     case pyHeader txPayload of
       None \<Rightarrow> Inl (Err ''error getting txID from header: payload header is nil'')
     | Some h \<Rightarrow>
         bindR (wrapR ''error getting txID from channel header'' (UnmarshalChannelHeader pb (hdChannelHeader h))) (\<lambda>chdr.
         if chTxId chdr \<noteq> [] then Inr (chTxId chdr)
         else bindR (wrapR ''error getting nonce and creator for computing txID''
                       (UnmarshalSignatureHeader pb (hdSignatureHeader h))) (\<lambda>sighdr.
              Inr (ComputeTxID sha256 (shNonce sighdr) (shCreator sighdr))))))"

section \<open>Proposals\<close>

definition CreateChaincodeProposalWithTxIDNonceAndTransient ::
  "proto_codecs \<Rightarrow> Timestamp result \<Rightarrow> gostring \<Rightarrow> int \<Rightarrow> gostring \<Rightarrow> ChaincodeInvocationSpec \<Rightarrow> bytes \<Rightarrow> bytes \<Rightarrow>
   (gostring, bytes) gomap \<Rightarrow> (Proposal \<times> gostring) result" where
  "CreateChaincodeProposalWithTxIDNonceAndTransient pb now txid typ channelID cis nonce creator transientMap =
     (case cis of
        None \<Rightarrow> Inl (Panic ''nil pointer dereference'')
      | Some spec \<Rightarrow>
          bindR (wrapR ''error marshaling ChaincodeHeaderExtension''
                   (pMarshal (pbChaincodeHeaderExtension pb) (csChaincodeId spec))) (\<lambda>ccHdrExtBytes.
          bindR (wrapR ''error marshaling ChaincodeInvocationSpec'' (pMarshal (pbChaincodeInvocationSpec pb) cis)) (\<lambda>cisBytes.
          bindR (wrapR ''error marshaling ChaincodeProposalPayload''
                   (pMarshal (pbChaincodeProposalPayload pb) \<lparr>cpInput = cisBytes, cpTransientMap = transientMap\<rparr>)) (\<lambda>ccPropPayloadBytes.
          bindR (wrapR ''error validating Timestamp'' now) (\<lambda>timestamp.
          bindR (MarshalOrPanic (pbChannelHeader pb)
                   \<lparr>chType = typ, chVersion = 0, chTimestamp = Some timestamp, chChannelId = channelID, chTxId = txid,
                    chEpoch = 0, chExtension = ccHdrExtBytes, chTlsCertHash = []\<rparr>) (\<lambda>ch.
          bindR (MarshalOrPanic (pbSignatureHeader pb) \<lparr>shCreator = creator, shNonce = nonce\<rparr>) (\<lambda>sh.
          bindR (pMarshal (pbHeader pb) \<lparr>hdChannelHeader = ch, hdSignatureHeader = sh\<rparr>) (\<lambda>hdrBytes.
          Inr (\<lparr>prHeader = hdrBytes, prPayload = ccPropPayloadBytes, prExtension = []\<rparr>, txid)))))))))"

definition CreateChaincodeProposalWithTxIDAndTransient ::
  "proto_codecs \<Rightarrow> (bytes \<Rightarrow> bytes) \<Rightarrow> Timestamp result \<Rightarrow> bytes result \<Rightarrow> int \<Rightarrow> gostring \<Rightarrow> ChaincodeInvocationSpec \<Rightarrow> bytes \<Rightarrow>
   gostring \<Rightarrow> (gostring, bytes) gomap \<Rightarrow> (Proposal \<times> gostring) result" where
  "CreateChaincodeProposalWithTxIDAndTransient pb sha256 now random typ channelID cis creator txid transientMap =
     bindR (wrapR ''error getting random bytes'' random) (\<lambda>nonce.
       CreateChaincodeProposalWithTxIDNonceAndTransient pb now
         (if txid = [] then ComputeTxID sha256 nonce creator else txid) typ channelID cis nonce creator transientMap)"

definition CreateChaincodeProposalWithTransient ::
  "proto_codecs \<Rightarrow> (bytes \<Rightarrow> bytes) \<Rightarrow> Timestamp result \<Rightarrow> bytes result \<Rightarrow> int \<Rightarrow> gostring \<Rightarrow> ChaincodeInvocationSpec \<Rightarrow> bytes \<Rightarrow>
   (gostring, bytes) gomap \<Rightarrow> (Proposal \<times> gostring) result" where
  "CreateChaincodeProposalWithTransient pb sha256 now random typ channelID cis creator transientMap =
     bindR (wrapR ''error getting random bytes'' random) (\<lambda>nonce.
       CreateChaincodeProposalWithTxIDNonceAndTransient pb now (ComputeTxID sha256 nonce creator) typ channelID cis nonce
         creator transientMap)"

definition CreateChaincodeProposal ::
  "proto_codecs \<Rightarrow> (bytes \<Rightarrow> bytes) \<Rightarrow> Timestamp result \<Rightarrow> bytes result \<Rightarrow> int \<Rightarrow> gostring \<Rightarrow> ChaincodeInvocationSpec \<Rightarrow> bytes \<Rightarrow>
   (Proposal \<times> gostring) result" where
  "CreateChaincodeProposal pb sha256 now random typ channelID cis creator =
     CreateChaincodeProposalWithTransient pb sha256 now random typ channelID cis creator []"

definition CreateProposalFromCISAndTxid ::
  "proto_codecs \<Rightarrow> Timestamp result \<Rightarrow> bytes result \<Rightarrow> gostring \<Rightarrow> int \<Rightarrow> gostring \<Rightarrow> ChaincodeInvocationSpec \<Rightarrow> bytes \<Rightarrow>
   (Proposal \<times> gostring) result" where
  "CreateProposalFromCISAndTxid pb now random txid typ channelID cis creator =
     bindR (wrapR ''error getting random bytes'' random) (\<lambda>nonce.
       CreateChaincodeProposalWithTxIDNonceAndTransient pb now txid typ channelID cis nonce creator [])"

definition CreateProposalFromCIS ::
  "proto_codecs \<Rightarrow> (bytes \<Rightarrow> bytes) \<Rightarrow> Timestamp result \<Rightarrow> bytes result \<Rightarrow> int \<Rightarrow> gostring \<Rightarrow> ChaincodeInvocationSpec \<Rightarrow> bytes \<Rightarrow>
   (Proposal \<times> gostring) result" where
  "CreateProposalFromCIS = CreateChaincodeProposal"

definition lscc_spec :: "bytes list \<Rightarrow> ChaincodeInvocationSpec" where
  "lscc_spec args =
     Some \<lparr>csType = 1, csChaincodeId = Some \<lparr>ciPath = [], ciName = ''lscc'', ciVersion = []\<rparr>,
           csInput = Some \<lparr>inArgs = args, inDecorations = [], inIsInit = False\<rparr>, csTimeout = 0\<rparr>"

definition CreateGetChaincodesProposal ::
  "proto_codecs \<Rightarrow> (bytes \<Rightarrow> bytes) \<Rightarrow> Timestamp result \<Rightarrow> bytes result \<Rightarrow> gostring \<Rightarrow> bytes \<Rightarrow> (Proposal \<times> gostring) result" where
  "CreateGetChaincodesProposal pb sha256 now random channelID creator =
     CreateProposalFromCIS pb sha256 now random HeaderType_ENDORSER_TRANSACTION channelID (lscc_spec [''getchaincodes'']) creator"

definition CreateGetInstalledChaincodesProposal ::
  "proto_codecs \<Rightarrow> (bytes \<Rightarrow> bytes) \<Rightarrow> Timestamp result \<Rightarrow> bytes result \<Rightarrow> bytes \<Rightarrow> (Proposal \<times> gostring) result" where
  "CreateGetInstalledChaincodesProposal pb sha256 now random creator =
     CreateProposalFromCIS pb sha256 now random HeaderType_ENDORSER_TRANSACTION [] (lscc_spec [''getinstalledchaincodes'']) creator"

definition GetSignedProposal :: "proto_codecs \<Rightarrow> Proposal option \<Rightarrow> Signer option \<Rightarrow> SignedProposal result" where
  "GetSignedProposal pb prop signer =
     (case (prop, signer) of
        (Some p, Some s) \<Rightarrow>
          bindR (pMarshal (pbProposal pb) p) (\<lambda>propBytes.
          bindR (sgSign s propBytes) (\<lambda>signature. Inr \<lparr>spProposalBytes = propBytes, spSignature = signature\<rparr>))
      | _ \<Rightarrow> Inl (Err ''nil arguments''))"

definition InvokedChaincodeName :: "proto_codecs \<Rightarrow> bytes \<Rightarrow> gostring result" where
  "InvokedChaincodeName pb proposalBytes =
     bindR (wrapR ''could not unmarshal proposal'' (pUnmarshal (pbProposal pb) proposalBytes)) (\<lambda>proposal.
     bindR (wrapR ''could not unmarshal chaincode proposal payload''
              (pUnmarshal (pbChaincodeProposalPayload pb) (prPayload proposal))) (\<lambda>proposalPayload.
     bindR (wrapR ''could not unmarshal chaincode invocation spec''
              (pUnmarshal (pbChaincodeInvocationSpec pb) (cpInput proposalPayload))) (\<lambda>cis.
     case cis of
       None \<Rightarrow> Inl (Err ''chaincode spec is nil'')
     | Some spec \<Rightarrow>
         (case csChaincodeId spec of
            None \<Rightarrow> Inl (Err ''chaincode id is nil'')
          | Some ccid \<Rightarrow> Inr (ciName ccid)))))"

section \<open>Endorsement\<close>

definition CreateProposalResponse ::
  "proto_codecs \<Rightarrow> (bytes \<Rightarrow> bytes) \<Rightarrow> bytes \<Rightarrow> bytes \<Rightarrow> Response option \<Rightarrow> bytes \<Rightarrow> bytes \<Rightarrow> ChaincodeID option \<Rightarrow> Signer \<Rightarrow>
   ProposalResponse result" where
  "CreateProposalResponse pb sha256 hdrbytes payl response results events ccid signingEndorser =
     bindR (UnmarshalHeader pb hdrbytes) (\<lambda>hdr.
     bindR (wrapR ''error computing proposal hash'' (GetProposalHash1 pb sha256 (Some hdr) payl)) (\<lambda>pHashBytes.
     bindR (GetBytesProposalResponsePayload pb pHashBytes response results events ccid) (\<lambda>prpBytes.
     bindR (wrapR ''error serializing signing identity'' (sgSerialize signingEndorser)) (\<lambda>endorser.
     bindR (wrapR ''could not sign the proposal response payload'' (sgSign signingEndorser (prpBytes @ endorser))) (\<lambda>signature.
     Inr \<lparr>reVersion = 1, reResponse = Some \<lparr>rsStatus = 200, rsMessage = ''OK'', rsPayload = []\<rparr>, rePayload = prpBytes,
          reEndorsement = Some \<lparr>enEndorser = endorser, enSignature = signature\<rparr>\<rparr>)))))"

definition CreateProposalResponseFailure ::
  "proto_codecs \<Rightarrow> (bytes \<Rightarrow> bytes) \<Rightarrow> bytes \<Rightarrow> bytes \<Rightarrow> Response option \<Rightarrow> bytes \<Rightarrow> bytes \<Rightarrow> gostring \<Rightarrow>
   ProposalResponse result" where
  "CreateProposalResponseFailure pb sha256 hdrbytes payl response results events chaincodeName =
     bindR (UnmarshalHeader pb hdrbytes) (\<lambda>hdr.
     bindR (wrapR ''error computing proposal hash'' (GetProposalHash1 pb sha256 (Some hdr) payl)) (\<lambda>pHashBytes.
     bindR (GetBytesProposalResponsePayload pb pHashBytes response results events
              (Some \<lparr>ciPath = [], ciName = chaincodeName, ciVersion = []\<rparr>)) (\<lambda>prpBytes.
     Inr \<lparr>reVersion = 0, reResponse = response, rePayload = prpBytes, reEndorsement = None\<rparr>)))"

section \<open>Transactions\<close>

text \<open>The loop over the responses: each is successful, and all payloads are equal to the first.\<close>

fun check_responses :: "bytes option \<Rightarrow> ProposalResponse list \<Rightarrow> unit result" where
  "check_responses a1 [] = Inr ()"
| "check_responses a1 (r # rs) =
     (case reResponse r of
        None \<Rightarrow> Inl (Panic ''nil pointer dereference'')
      | Some resp \<Rightarrow>
          if rsStatus resp < 200 \<or> rsStatus resp \<ge> 400
          then Inl (Err ''proposal response was not successful, error code %d, msg %s'')
          else (case a1 of
                  None \<Rightarrow> check_responses (Some (rePayload r)) rs
                | Some a \<Rightarrow> if a \<noteq> rePayload r then Inl (Err ''ProposalResponsePayloads do not match (base64): %s vs %s'')
                            else check_responses a1 rs))"

definition add_endorsement :: "ProposalResponse \<Rightarrow> Endorsement list \<Rightarrow> Endorsement list" where
  "add_endorsement r es =
     (case reEndorsement r of
        None \<Rightarrow> es
      | Some e \<Rightarrow> if enEndorser e \<in> enEndorser ` set es then es else es @ [e])"

definition CreateSignedTx ::
  "proto_codecs \<Rightarrow> Proposal \<Rightarrow> Signer option \<Rightarrow> ProposalResponse list \<Rightarrow> Envelope result" where
  "CreateSignedTx pb proposal signer resps =
     (if resps = [] then Inl (Err ''at least one proposal response is required'')
      else case signer of
        None \<Rightarrow> Inl (Err ''signer is required when creating a signed transaction'')
      | Some s \<Rightarrow>
          bindR (UnmarshalHeader pb (prHeader proposal)) (\<lambda>hdr.
          bindR (UnmarshalChaincodeProposalPayload pb (prPayload proposal)) (\<lambda>pPayl.
          bindR (sgSerialize s) (\<lambda>signerBytes.
          bindR (UnmarshalSignatureHeader pb (hdSignatureHeader hdr)) (\<lambda>shdr.
          if signerBytes \<noteq> shCreator shdr then Inl (Err ''signer must be the same as the one referenced in the header'')
          else bindR (check_responses None resps) (\<lambda>_.
          let endorsements = fold add_endorsement resps [] in
          if endorsements = [] then Inl (Err ''no endorsements'')
          else let cea = \<lparr>eaProposalResponsePayload = rePayload (hd resps), eaEndorsements = endorsements\<rparr> in
          bindR (GetBytesProposalPayloadForTx pb pPayl) (\<lambda>propPayloadBytes.
          bindR (GetBytesChaincodeActionPayload pb
                   \<lparr>apChaincodeProposalPayload = propPayloadBytes, apAction = Some cea\<rparr>) (\<lambda>capBytes.
          bindR (GetBytesTransaction pb [\<lparr>taHeader = hdSignatureHeader hdr, taPayload = capBytes\<rparr>]) (\<lambda>txBytes.
          bindR (GetBytesPayload pb \<lparr>pyHeader = Some hdr, pyData = txBytes\<rparr>) (\<lambda>paylBytes.
          bindR (sgSign s paylBytes) (\<lambda>sig.
          Inr \<lparr>evPayload = paylBytes, evSignature = sig\<rparr>)))))))))))"

definition CreateSignedEnvelopeWithTLSBinding ::
  "proto_codecs \<Rightarrow> 'm codec \<Rightarrow> int \<Rightarrow> bytes result \<Rightarrow> int \<Rightarrow> gostring \<Rightarrow> Signer option \<Rightarrow> 'm \<Rightarrow> int \<Rightarrow> u64 \<Rightarrow> bytes \<Rightarrow>
   Envelope result" where
  "CreateSignedEnvelopeWithTLSBinding pb c now random txType channelID signer dataMsg msgVersion epoch tlsCertHash =
     (let payloadChannelHeader = (MakeChannelHeader now txType msgVersion channelID epoch)\<lparr>chTlsCertHash := tlsCertHash\<rparr> in
      bindR (case signer of None \<Rightarrow> Inr \<lparr>shCreator = [], shNonce = []\<rparr> | Some s \<Rightarrow> NewSignatureHeader random s)
        (\<lambda>payloadSignatureHeader.
      bindR (wrapR ''error marshaling'' (pMarshal c dataMsg)) (\<lambda>data.
      bindR (MakePayloadHeader pb payloadChannelHeader payloadSignatureHeader) (\<lambda>hdr.
      bindR (MarshalOrPanic (pbPayload pb) \<lparr>pyHeader = Some hdr, pyData = data\<rparr>) (\<lambda>paylBytes.
      bindR (case signer of None \<Rightarrow> Inr [] | Some s \<Rightarrow> sgSign s paylBytes) (\<lambda>sig.
      Inr \<lparr>evPayload = paylBytes, evSignature = sig\<rparr>))))))"

definition CreateSignedEnvelope ::
  "proto_codecs \<Rightarrow> 'm codec \<Rightarrow> int \<Rightarrow> bytes result \<Rightarrow> int \<Rightarrow> gostring \<Rightarrow> Signer option \<Rightarrow> 'm \<Rightarrow> int \<Rightarrow> u64 \<Rightarrow> Envelope result" where
  "CreateSignedEnvelope pb c now random txType channelID signer dataMsg msgVersion epoch =
     CreateSignedEnvelopeWithTLSBinding pb c now random txType channelID signer dataMsg msgVersion epoch []"

definition GetPayloads :: "proto_codecs \<Rightarrow> TransactionAction \<Rightarrow> (ChaincodeActionPayload \<times> ChaincodeAction) result" where
  "GetPayloads pb txActions =
     bindR (UnmarshalChaincodeActionPayload pb (taPayload txActions)) (\<lambda>ccPayload.
       case apAction ccPayload of
         None \<Rightarrow> Inl (Err ''no payload in ChaincodeActionPayload'')
       | Some action \<Rightarrow>
           if eaProposalResponsePayload action = [] then Inl (Err ''no payload in ChaincodeActionPayload'')
           else bindR (UnmarshalProposalResponsePayload pb (eaProposalResponsePayload action)) (\<lambda>pRespPayload.
                if ppExtension pRespPayload = [] then Inl (Err ''response payload is missing extension'')
                else bindR (UnmarshalChaincodeAction pb (ppExtension pRespPayload)) (\<lambda>respPayload.
                     Inr (ccPayload, respPayload))))"

definition GetActionFromEnvelopeMsg :: "proto_codecs \<Rightarrow> Envelope \<Rightarrow> ChaincodeAction result" where
  "GetActionFromEnvelopeMsg pb env =
     bindR (UnmarshalPayload pb (evPayload env)) (\<lambda>payl.
     bindR (UnmarshalTransaction pb (pyData payl)) (\<lambda>tx.
     case tx of
       [] \<Rightarrow> Inl (Err ''at least one TransactionAction required'')
     | a # _ \<Rightarrow> bindR (GetPayloads pb a) (\<lambda>(_, respPayload). Inr respPayload)))"

definition GetActionFromEnvelope :: "proto_codecs \<Rightarrow> bytes \<Rightarrow> ChaincodeAction result" where
  "GetActionFromEnvelope pb envBytes =
     bindR (GetEnvelopeFromBlock pb envBytes) (\<lambda>env. GetActionFromEnvelopeMsg pb env)"

section \<open>What a transaction contains\<close>

text \<open>Reading back a message that has no map among its fields.\<close>

definition lawful :: "'a codec \<Rightarrow> bool" where
  "lawful c \<longleftrightarrow> (\<forall>x b. pMarshal c x = Inr b \<longrightarrow> pUnmarshal c b = Inr x)"

definition tx_codecs_ok :: "proto_codecs \<Rightarrow> bool" where
  "tx_codecs_ok pb \<longleftrightarrow>
     lawful (pbPayload pb) \<and> lawful (pbHeader pb) \<and> lawful (pbTransaction pb) \<and> lawful (pbChaincodeActionPayload pb) \<and>
     lawful (pbProposalResponsePayload pb) \<and> lawful (pbChaincodeAction pb) \<and> lawful (pbEnvelope pb) \<and>
     (\<forall>input. codec_ok (pbChaincodeProposalPayload pb) [\<lparr>cpInput = input, cpTransientMap = []\<rparr>])"

lemma tx_codecs_okD:
  assumes "tx_codecs_ok pb"
  shows "pMarshal (pbPayload pb) x1 = Inr b \<Longrightarrow> UnmarshalPayload pb b = Inr x1"
    and "pMarshal (pbHeader pb) x2 = Inr b \<Longrightarrow> UnmarshalHeader pb b = Inr x2"
    and "pMarshal (pbTransaction pb) x3 = Inr b \<Longrightarrow> UnmarshalTransaction pb b = Inr x3"
    and "pMarshal (pbChaincodeActionPayload pb) x4 = Inr b \<Longrightarrow> UnmarshalChaincodeActionPayload pb b = Inr x4"
    and "pMarshal (pbProposalResponsePayload pb) x5 = Inr b \<Longrightarrow> UnmarshalProposalResponsePayload pb b = Inr x5"
    and "pMarshal (pbChaincodeAction pb) x6 = Inr b \<Longrightarrow> UnmarshalChaincodeAction pb b = Inr x6"
    and "pMarshal (pbEnvelope pb) x7 = Inr b \<Longrightarrow> GetEnvelopeFromBlock pb b = Inr x7"
    and "pMarshal (pbChaincodeProposalPayload pb) \<lparr>cpInput = input, cpTransientMap = []\<rparr> = Inr b \<Longrightarrow>
      UnmarshalChaincodeProposalPayload pb b = Inr \<lparr>cpInput = input, cpTransientMap = []\<rparr>"
  using assms by (auto simp: tx_codecs_ok_def lawful_def codec_ok_single unmarshal_defs)

text \<open>The outcome of the loop over the responses.\<close>

definition successful :: "ProposalResponse \<Rightarrow> bool" where
  "successful r \<longleftrightarrow> (\<exists>resp. reResponse r = Some resp \<and> 200 \<le> rsStatus resp \<and> rsStatus resp < 400)"

lemma check_responses_Some:
  "check_responses (Some a) rs = Inr () \<longleftrightarrow> (\<forall>r \<in> set rs. successful r \<and> rePayload r = a)"
  by (induction rs) (auto simp: successful_def split: option.splits)

lemma check_responses_None:
  "check_responses None rs = Inr () \<longleftrightarrow> (\<forall>r \<in> set rs. successful r \<and> rePayload r = rePayload (hd rs))"
proof (cases rs)
  case (Cons r rs')
  have "check_responses None (r # rs') = Inr () \<longleftrightarrow> successful r \<and> check_responses (Some (rePayload r)) rs' = Inr ()"
    by (auto simp: successful_def split: option.splits if_splits)
  then show ?thesis by (simp add: Cons check_responses_Some del: check_responses.simps)
qed simp

definition endorsements_of :: "ProposalResponse list \<Rightarrow> Endorsement set" where
  "endorsements_of rs = {e. \<exists>r \<in> set rs. reEndorsement r = Some e}"

lemma endorsements_of_Cons: "endorsements_of (r # rs) = {e. reEndorsement r = Some e} \<union> endorsements_of rs"
  by (auto simp: endorsements_of_def)

lemma fold_add_endorsement:
  "distinct (map enEndorser es) \<Longrightarrow>
   distinct (map enEndorser (fold add_endorsement rs es)) \<and>
   enEndorser ` set (fold add_endorsement rs es) = enEndorser ` (set es \<union> endorsements_of rs) \<and>
   set (fold add_endorsement rs es) \<subseteq> set es \<union> endorsements_of rs"
proof (induction rs arbitrary: es)
  case Nil
  then show ?case by (simp add: endorsements_of_def)
next
  case (Cons r rs)
  let ?es = "add_endorsement r es"
  have d: "distinct (map enEndorser ?es)"
    using Cons.prems by (auto simp: add_endorsement_def split: option.splits)
  have s: "enEndorser ` set ?es = enEndorser ` set es \<union> enEndorser ` {e. reEndorsement r = Some e}"
    "set ?es \<subseteq> set es \<union> {e. reEndorsement r = Some e}"
    by (cases "reEndorsement r"; force simp: add_endorsement_def)
       (cases "reEndorsement r"; auto simp: add_endorsement_def)
  note IH = Cons.IH [OF d]
  then have "set (fold add_endorsement rs ?es) \<subseteq> (set es \<union> {e. reEndorsement r = Some e}) \<union> endorsements_of rs"
    using s(2) by (meson Un_mono order_refl order_trans)
  with IH show ?case by (simp add: endorsements_of_Cons image_Un s(1) Un_assoc)
qed

lemma CreateSignedTx_Inr:
  assumes "CreateSignedTx pb prop signer resps = Inr env"
  obtains s hdr pPayl shdr b cap tx where
    "signer = Some s" "resps \<noteq> []" "UnmarshalHeader pb (prHeader prop) = Inr hdr"
    "UnmarshalChaincodeProposalPayload pb (prPayload prop) = Inr pPayl"
    "UnmarshalSignatureHeader pb (hdSignatureHeader hdr) = Inr shdr" "sgSerialize s = Inr (shCreator shdr)"
    "check_responses None resps = Inr ()" "fold add_endorsement resps [] \<noteq> []"
    "pMarshal (pbChaincodeProposalPayload pb) \<lparr>cpInput = cpInput pPayl, cpTransientMap = []\<rparr> = Inr b"
    "pMarshal (pbChaincodeActionPayload pb) \<lparr>apChaincodeProposalPayload = b, apAction =
       Some \<lparr>eaProposalResponsePayload = rePayload (hd resps), eaEndorsements = fold add_endorsement resps []\<rparr>\<rparr> = Inr cap"
    "pMarshal (pbTransaction pb) [\<lparr>taHeader = hdSignatureHeader hdr, taPayload = cap\<rparr>] = Inr tx"
    "pMarshal (pbPayload pb) \<lparr>pyHeader = Some hdr, pyData = tx\<rparr> = Inr (evPayload env)"
    "sgSign s (evPayload env) = Inr (evSignature env)"
proof -
  from assms obtain s where s: "signer = Some s" and r: "resps \<noteq> []"
    by (auto simp: CreateSignedTx_def split: if_splits option.splits)
  note run = assms [unfolded CreateSignedTx_def s option.case if_not_P [OF r]]
  from run show thesis
    by (auto intro: that simp: s r bindR_Inr_iff Let_def GetBytesProposalPayloadForTx_def GetBytesChaincodeProposalPayload_def
        GetBytesChaincodeActionPayload_def GetBytesTransaction_def GetBytesPayload_def split: if_splits)
qed

lemma GetBytesProposalResponsePayload_Inr:
  assumes "GetBytesProposalResponsePayload pb h resp res ev ccid = Inr b"
  obtains a where "pMarshal (pbChaincodeAction pb) \<lparr>caResults = res, caEvents = ev, caResponse = resp, caChaincodeId = ccid\<rparr> = Inr a"
    and "pMarshal (pbProposalResponsePayload pb) \<lparr>ppProposalHash = h, ppExtension = a\<rparr> = Inr b"
  using assms by (auto simp: GetBytesProposalResponsePayload_def bindR_Inr_iff)

lemma CreateProposalResponse_Inr:
  assumes "CreateProposalResponse pb sha256 hb payl response results events ccid e = Inr r" and "UnmarshalHeader pb hb = Inr hdr"
  obtains h where "GetProposalHash1 pb sha256 (Some hdr) payl = Inr h"
    and "GetBytesProposalResponsePayload pb h response results events ccid = Inr (rePayload r)"
  using assms by (auto simp: CreateProposalResponse_def bindR_Inr_iff)

text \<open>A message with a non-empty field has a non-empty encoding.\<close>

definition nonempty_encodings :: "proto_codecs \<Rightarrow> bool" where
  "nonempty_encodings pb \<longleftrightarrow>
     (\<forall>x b. pMarshal (pbProposalResponsePayload pb) x = Inr b \<and> ppExtension x \<noteq> [] \<longrightarrow> b \<noteq> []) \<and>
     (\<forall>x b. pMarshal (pbChaincodeAction pb) x = Inr b \<and> caResults x \<noteq> [] \<longrightarrow> b \<noteq> []) \<and>
     (\<forall>x b. pMarshal (pbChaincodeProposalPayload pb) x = Inr b \<and> cpInput x \<noteq> [] \<longrightarrow> b \<noteq> [])"

section \<open>Properties\<close>

lemma nonempty_encodingsD:
  assumes "nonempty_encodings pb"
  shows "pMarshal (pbProposalResponsePayload pb) x = Inr b \<Longrightarrow> ppExtension x \<noteq> [] \<Longrightarrow> b \<noteq> []"
    and "pMarshal (pbChaincodeAction pb) y = Inr b \<Longrightarrow> caResults y \<noteq> [] \<Longrightarrow> b \<noteq> []"
    and "pMarshal (pbChaincodeProposalPayload pb) z = Inr b \<Longrightarrow> cpInput z \<noteq> [] \<Longrightarrow> b \<noteq> []"
  using assms unfolding nonempty_encodings_def by blast+

text \<open>Codecs for an example, given by tables.\<close>

definition table_codec :: "('a \<times> bytes) list \<Rightarrow> 'a codec" where
  "table_codec t =
     \<lparr>pMarshal = (\<lambda>x. case map_of t x of None \<Rightarrow> Inl (Err ''unknown message'') | Some b \<Rightarrow> Inr b),
      pUnmarshal = (\<lambda>b. case map_of (map (\<lambda>(x, y). (y, x)) t) b of None \<Rightarrow> Inl (Err ''unknown bytes'') | Some x \<Rightarrow> Inr x)\<rparr>"

lemma lawful_table:
  assumes "distinct (map fst t)" and "distinct (map snd t)"
  shows "lawful (table_codec t)"
proof -
  have "map_of (map (\<lambda>(x, y). (y, x)) t) b = Some x" if "map_of t x = Some b" for x b
    using that assms(2) by (intro map_of_is_SomeI) (force simp: comp_def case_prod_unfold dest!: map_of_SomeD)+
  then show ?thesis by (auto simp: lawful_def table_codec_def split: option.splits)
qed

lemma lawful_codec_ok: "lawful c \<Longrightarrow> codec_ok c xs"
  by (simp add: lawful_def codec_ok_def)

definition sample_hdr :: Header where
  "sample_hdr = \<lparr>hdChannelHeader = ''c'', hdSignatureHeader = ''s''\<rparr>"

definition sample_pb :: proto_codecs where
  "sample_pb =
     \<lparr>pbEnvelope = table_codec [(\<lparr>evPayload = ''Y'', evSignature = ''z''\<rparr>, ''V'')],
      pbPayload = table_codec [(\<lparr>pyHeader = Some sample_hdr, pyData = ''X''\<rparr>, ''Y'')],
      pbHeader = table_codec [(sample_hdr, ''H'')],
      pbChannelHeader = table_codec [],
      pbSignatureHeader = table_codec [(\<lparr>shCreator = ''me'', shNonce = ''n''\<rparr>, ''s'')],
      pbTransaction = table_codec [([\<lparr>taHeader = ''s'', taPayload = ''K''\<rparr>], ''X'')],
      pbChaincodeActionPayload = table_codec [(\<lparr>apChaincodeProposalPayload = ''P'', apAction =
        Some \<lparr>eaProposalResponsePayload = ''Q'', eaEndorsements = [\<lparr>enEndorser = ''E'', enSignature = ''g''\<rparr>]\<rparr>\<rparr>, ''K'')],
      pbProposalResponsePayload = table_codec [(\<lparr>ppProposalHash = ''d'', ppExtension = ''A''\<rparr>, ''Q'')],
      pbChaincodeAction = table_codec [(\<lparr>caResults = ''r'', caEvents = [], caResponse = None, caChaincodeId = None\<rparr>, ''A'')],
      pbProposal = table_codec [],
      pbChaincodeProposalPayload = table_codec [(\<lparr>cpInput = ''i'', cpTransientMap = []\<rparr>, ''P''),
        (\<lparr>cpInput = ''i'', cpTransientMap = [(''k'', ''secret'')]\<rparr>, ''T'')],
      pbChaincodeHeaderExtension = table_codec [], pbChaincodeInvocationSpec = table_codec [],
      pbResponse = table_codec [], pbProposalResponse = table_codec [], pbChaincodeID = table_codec [],
      pbBlock = table_codec [], pbMetadata = table_codec [], pbLastConfig = table_codec [],
      pbOrdererBlockMetadata = table_codec [], pbConfigUpdateEnvelope = table_codec []\<rparr>"

definition sample_prop :: Proposal where
  "sample_prop = \<lparr>prHeader = ''H'', prPayload = ''T'', prExtension = []\<rparr>"

definition sample_client :: Signer where
  "sample_client = \<lparr>sgSerialize = Inr ''me'', sgSign = (\<lambda>_. Inr ''z'')\<rparr>"

definition sample_endorser :: Signer where
  "sample_endorser = \<lparr>sgSerialize = Inr ''E'', sgSign = (\<lambda>_. Inr ''g'')\<rparr>"

definition sample_resp :: ProposalResponse where
  "sample_resp =
     \<lparr>reVersion = 1, reResponse = Some \<lparr>rsStatus = 200, rsMessage = ''OK'', rsPayload = []\<rparr>, rePayload = ''Q'',
      reEndorsement = Some \<lparr>enEndorser = ''E'', enSignature = ''g''\<rparr>\<rparr>"

lemma sample_pb_ok: "tx_codecs_ok sample_pb" "nonempty_encodings sample_pb"
proof -
  show "tx_codecs_ok sample_pb"
    unfolding tx_codecs_ok_def sample_pb_def by (intro conjI allI lawful_codec_ok; simp; intro lawful_table) simp_all
  show "nonempty_encodings sample_pb"
    by (auto simp: nonempty_encodings_def sample_pb_def table_codec_def split: if_splits)
qed

lemma sample_resp_ok: "CreateProposalResponse sample_pb (\<lambda>_. ''d'') ''H'' ''T'' None ''r'' [] None sample_endorser = Inr sample_resp"
  by (simp add: CreateProposalResponse_def UnmarshalHeader_def sample_pb_def table_codec_def sample_hdr_def GetProposalHash1_def
      UnmarshalChaincodeProposalPayload_def GetBytesProposalPayloadForTx_def GetBytesChaincodeProposalPayload_def
      GetBytesProposalResponsePayload_def sample_endorser_def sample_resp_def)

lemma sample_tx_ok:
  "CreateSignedTx sample_pb sample_prop (Some sample_client) [sample_resp] = Inr \<lparr>evPayload = ''Y'', evSignature = ''z''\<rparr>"
  "pMarshal (pbEnvelope sample_pb) \<lparr>evPayload = ''Y'', evSignature = ''z''\<rparr> = Inr ''V''"
  "UnmarshalChaincodeProposalPayload sample_pb (prPayload sample_prop) = Inr \<lparr>cpInput = ''i'', cpTransientMap = [(''k'', ''secret'')]\<rparr>"
  by (simp_all add: CreateSignedTx_def UnmarshalHeader_def sample_pb_def table_codec_def sample_hdr_def sample_prop_def
      UnmarshalChaincodeProposalPayload_def UnmarshalSignatureHeader_def GetBytesProposalPayloadForTx_def
      GetBytesChaincodeProposalPayload_def GetBytesChaincodeActionPayload_def GetBytesTransaction_def GetBytesPayload_def
      sample_client_def sample_resp_def add_endorsement_def)

text \<open>
  C28. A transaction assembled by \<open>CreateSignedTx\<close> is signed by the creator named in the proposal, carries the proposal's
  header, and holds one action: the common payload of all the responses, which were all successful, with at least one
  endorsement and no two of the same endorser; every response's endorser is among them. The proposal payload in it has
  an empty transient map.
\<close>

theorem signed_transaction_contents:
  assumes "tx_codecs_ok pb" and "CreateSignedTx pb prop signer resps = Inr env"
  shows "\<exists>s hdr shdr payl cap input b es.
    signer = Some s \<and> UnmarshalHeader pb (prHeader prop) = Inr hdr \<and>
    UnmarshalSignatureHeader pb (hdSignatureHeader hdr) = Inr shdr \<and> sgSerialize s = Inr (shCreator shdr) \<and>
    sgSign s (evPayload env) = Inr (evSignature env) \<and>
    UnmarshalPayload pb (evPayload env) = Inr payl \<and> pyHeader payl = Some hdr \<and>
    UnmarshalTransaction pb (pyData payl) = Inr [\<lparr>taHeader = hdSignatureHeader hdr, taPayload = cap\<rparr>] \<and>
    UnmarshalChaincodeActionPayload pb cap =
      Inr \<lparr>apChaincodeProposalPayload = b, apAction = Some \<lparr>eaProposalResponsePayload = rePayload (hd resps), eaEndorsements = es\<rparr>\<rparr> \<and>
    UnmarshalChaincodeProposalPayload pb b = Inr \<lparr>cpInput = input, cpTransientMap = []\<rparr> \<and>
    (\<forall>r \<in> set resps. successful r \<and> rePayload r = rePayload (hd resps)) \<and>
    es \<noteq> [] \<and> distinct (map enEndorser es) \<and> set es \<subseteq> endorsements_of resps \<and>
    enEndorser ` set es = enEndorser ` endorsements_of resps"
proof -
  obtain s hdr pPayl shdr b cap tx where c:
    "signer = Some s" "resps \<noteq> []" "UnmarshalHeader pb (prHeader prop) = Inr hdr"
    "UnmarshalChaincodeProposalPayload pb (prPayload prop) = Inr pPayl"
    "UnmarshalSignatureHeader pb (hdSignatureHeader hdr) = Inr shdr" "sgSerialize s = Inr (shCreator shdr)"
    "check_responses None resps = Inr ()" "fold add_endorsement resps [] \<noteq> []"
    "pMarshal (pbChaincodeProposalPayload pb) \<lparr>cpInput = cpInput pPayl, cpTransientMap = []\<rparr> = Inr b"
    "pMarshal (pbChaincodeActionPayload pb) \<lparr>apChaincodeProposalPayload = b, apAction =
       Some \<lparr>eaProposalResponsePayload = rePayload (hd resps), eaEndorsements = fold add_endorsement resps []\<rparr>\<rparr> = Inr cap"
    "pMarshal (pbTransaction pb) [\<lparr>taHeader = hdSignatureHeader hdr, taPayload = cap\<rparr>] = Inr tx"
    "pMarshal (pbPayload pb) \<lparr>pyHeader = Some hdr, pyData = tx\<rparr> = Inr (evPayload env)"
    "sgSign s (evPayload env) = Inr (evSignature env)" by (rule CreateSignedTx_Inr [OF assms(2)])
  have es: "distinct (map enEndorser (fold add_endorsement resps []))" "set (fold add_endorsement resps []) \<subseteq> endorsements_of resps"
    "enEndorser ` set (fold add_endorsement resps []) = enEndorser ` endorsements_of resps"
    using fold_add_endorsement [of "[]" resps] by simp_all
  have all: "\<forall>r \<in> set resps. successful r \<and> rePayload r = rePayload (hd resps)"
    using c(7) unfolding check_responses_None .
  note rt = tx_codecs_okD(1) [OF assms(1) c(12)] tx_codecs_okD(3) [OF assms(1) c(11)] tx_codecs_okD(4) [OF assms(1) c(10)]
    tx_codecs_okD(8) [OF assms(1) c(9)]
  show ?thesis
    by (rule exI [of _ s], rule exI [of _ hdr], rule exI [of _ shdr], rule exI [of _ "\<lparr>pyHeader = Some hdr, pyData = tx\<rparr>"],
        rule exI [of _ cap], rule exI [of _ "cpInput pPayl"], rule exI [of _ b], rule exI [of _ "fold add_endorsement resps []"])
       (intro conjI; (rule c es rt all)?; simp add: rt es)
qed

theorem signed_transaction_contents_witness:
  "\<exists>payl. UnmarshalPayload sample_pb ''Y'' = Inr payl \<and> pyHeader payl = Some sample_hdr"
proof -
  have "UnmarshalHeader sample_pb (prHeader sample_prop) = Inr sample_hdr"
    by (simp add: UnmarshalHeader_def sample_pb_def sample_prop_def table_codec_def)
  with signed_transaction_contents [OF sample_pb_ok(1) sample_tx_ok(1)] show ?thesis by auto
qed

text \<open>
  C27. From proposal to commit: when the responses to a proposal are made by \<open>CreateProposalResponse\<close> over the same
  simulation results and assembled into a transaction, the action a committer extracts from the serialised envelope has
  exactly the endorsed results, events, response and chaincode; and the proposal hash the committer computes from the
  transaction, which has no transient data, is the hash the endorsers signed.
\<close>

theorem endorsed_results_reach_the_committer:
  assumes "tx_codecs_ok pb" and "nonempty_encodings pb"
    and "\<forall>r \<in> set resps. \<exists>e. CreateProposalResponse pb sha256 (prHeader prop) (prPayload prop) response results events ccid e = Inr r"
    and "CreateSignedTx pb prop signer resps = Inr env" and "pMarshal (pbEnvelope pb) env = Inr envBytes"
    and "UnmarshalChaincodeProposalPayload pb (prPayload prop) = Inr cpp" and "cpInput cpp \<noteq> []" and "results \<noteq> []"
  shows "GetActionFromEnvelope pb envBytes =
      Inr \<lparr>caResults = results, caEvents = events, caResponse = response, caChaincodeId = ccid\<rparr> \<and>
    (\<exists>payl act cap ca ea prp.
       UnmarshalPayload pb (evPayload env) = Inr payl \<and> UnmarshalTransaction pb (pyData payl) = Inr [act] \<and>
       GetPayloads pb act = Inr (cap, ca) \<and> apAction cap = Some ea \<and>
       UnmarshalProposalResponsePayload pb (eaProposalResponsePayload ea) = Inr prp \<and>
       GetProposalHash2 sha256 (pyHeader payl) (apChaincodeProposalPayload cap) = Inr (ppProposalHash prp))"
proof -
  obtain s hdr pPayl shdr b cap tx where c:
    "signer = Some s" "resps \<noteq> []" "UnmarshalHeader pb (prHeader prop) = Inr hdr"
    "UnmarshalChaincodeProposalPayload pb (prPayload prop) = Inr pPayl"
    "UnmarshalSignatureHeader pb (hdSignatureHeader hdr) = Inr shdr" "sgSerialize s = Inr (shCreator shdr)"
    "check_responses None resps = Inr ()" "fold add_endorsement resps [] \<noteq> []"
    "pMarshal (pbChaincodeProposalPayload pb) \<lparr>cpInput = cpInput pPayl, cpTransientMap = []\<rparr> = Inr b"
    "pMarshal (pbChaincodeActionPayload pb) \<lparr>apChaincodeProposalPayload = b, apAction =
       Some \<lparr>eaProposalResponsePayload = rePayload (hd resps), eaEndorsements = fold add_endorsement resps []\<rparr>\<rparr> = Inr cap"
    "pMarshal (pbTransaction pb) [\<lparr>taHeader = hdSignatureHeader hdr, taPayload = cap\<rparr>] = Inr tx"
    "pMarshal (pbPayload pb) \<lparr>pyHeader = Some hdr, pyData = tx\<rparr> = Inr (evPayload env)"
    "sgSign s (evPayload env) = Inr (evSignature env)" by (rule CreateSignedTx_Inr [OF assms(4)])
  from c(2) assms(3) obtain e where "CreateProposalResponse pb sha256 (prHeader prop) (prPayload prop) response results events ccid e = Inr (hd resps)"
    using hd_in_set by blast
  from CreateProposalResponse_Inr [OF this c(3)]
  obtain h where h: "GetProposalHash1 pb sha256 (Some hdr) (prPayload prop) = Inr h"
    and prp: "GetBytesProposalResponsePayload pb h response results events ccid = Inr (rePayload (hd resps))" .
  from GetBytesProposalResponsePayload_Inr [OF prp] obtain a where a:
    "pMarshal (pbChaincodeAction pb) \<lparr>caResults = results, caEvents = events, caResponse = response, caChaincodeId = ccid\<rparr> = Inr a"
    "pMarshal (pbProposalResponsePayload pb) \<lparr>ppProposalHash = h, ppExtension = a\<rparr> = Inr (rePayload (hd resps))" by blast
  have "cpInput pPayl \<noteq> []" using c(4) assms(6,7) by simp
  then have nb: "b \<noteq> []" by (intro nonempty_encodingsD(3) [OF assms(2) c(9)]) simp
  have na: "a \<noteq> []" using assms(8) by (intro nonempty_encodingsD(2) [OF assms(2) a(1)]) simp
  then have np: "rePayload (hd resps) \<noteq> []" by (intro nonempty_encodingsD(1) [OF assms(2) a(2)]) simp
  have hash: "GetProposalHash2 sha256 (Some hdr) b = Inr h"
    using h nb by (auto simp: GetProposalHash1_def GetProposalHash2_def GetBytesProposalPayloadForTx_def
        GetBytesChaincodeProposalPayload_def c(4,9) split: if_splits)
  note rt = tx_codecs_okD(1) [OF assms(1) c(12)] tx_codecs_okD(3) [OF assms(1) c(11)] tx_codecs_okD(4) [OF assms(1) c(10)]
    tx_codecs_okD(5) [OF assms(1) a(2)] tx_codecs_okD(6) [OF assms(1) a(1)] tx_codecs_okD(7) [OF assms(1,5)]
  have pay: "GetPayloads pb \<lparr>taHeader = hdSignatureHeader hdr, taPayload = cap\<rparr> =
     Inr (\<lparr>apChaincodeProposalPayload = b, apAction =
       Some \<lparr>eaProposalResponsePayload = rePayload (hd resps), eaEndorsements = fold add_endorsement resps []\<rparr>\<rparr>,
       \<lparr>caResults = results, caEvents = events, caResponse = response, caChaincodeId = ccid\<rparr>)"
    by (simp add: GetPayloads_def rt na np)
  show ?thesis
    using hash by (simp add: GetActionFromEnvelope_def GetActionFromEnvelopeMsg_def rt pay)
qed

theorem endorsed_results_reach_the_committer_witness:
  "GetActionFromEnvelope sample_pb ''V'' = Inr \<lparr>caResults = ''r'', caEvents = [], caResponse = None, caChaincodeId = None\<rparr>"
proof -
  have "\<forall>r \<in> set [sample_resp]. \<exists>e. CreateProposalResponse sample_pb (\<lambda>_. ''d'') (prHeader sample_prop) (prPayload sample_prop)
      None ''r'' [] None e = Inr r"
    using sample_resp_ok by (auto simp: sample_prop_def)
  from endorsed_results_reach_the_committer [OF sample_pb_ok this sample_tx_ok] show ?thesis by simp
qed

end
