(* ===== verification/Protoutil_Block.thy ===== *)
theory Protoutil_Block
  imports Protoutil
begin

text \<open>
  Blocks: \<open>protoutil/blockutils.go\<close>. The header of a block is hashed in its ASN.1 DER encoding, which is modelled here as
  far as the three fields of a header need it, and shown to be injective. The data hash covers only the concatenation of
  the transactions; \<open>VerifyTransactionsAreWellFormed\<close> is what makes it fix the list of transactions as well.
\<close>

section \<open>Encoding a block header\<close>

fun be_bytes :: "nat \<Rightarrow> bytes" where
  "be_bytes n = (if n = 0 then [] else be_bytes (n div 256) @ [char_of (n mod 256)])"

declare be_bytes.simps [simp del]

text \<open>Lengths below 128 take one byte; longer ones the number of length bytes with the top bit set, then these bytes.\<close>

definition der_length :: "nat \<Rightarrow> bytes" where
  "der_length n = (if n < 128 then [char_of n] else char_of (128 + length (be_bytes n)) # be_bytes n)"

definition der_tlv :: "nat \<Rightarrow> bytes \<Rightarrow> bytes" where
  "der_tlv tag content = char_of tag # der_length (length content) @ content"

text \<open>A non-negative integer: its minimal big-endian bytes, after a zero byte when the top bit is set.\<close>

definition der_integer :: "nat \<Rightarrow> bytes" where
  "der_integer n =
     (let b = be_bytes n
      in if b = [] then [char_of (0 :: nat)] else if of_char (hd b) \<ge> (128 :: nat) then char_of (0 :: nat) # b else b)"

definition BlockHeaderBytes :: "BlockHeader \<Rightarrow> bytes" where
  "BlockHeaderBytes b =
     der_tlv 48 (der_tlv 2 (der_integer (unat (bhNumber b))) @ der_tlv 4 (bhPreviousHash b) @ der_tlv 4 (bhDataHash b))"

definition BlockHeaderHash :: "(bytes \<Rightarrow> bytes) \<Rightarrow> BlockHeader \<Rightarrow> bytes" where
  "BlockHeaderHash sha256 b = sha256 (BlockHeaderBytes b)"

definition BlockDataHash :: "(bytes \<Rightarrow> bytes) \<Rightarrow> bytes list \<Rightarrow> bytes" where
  "BlockDataHash sha256 data = sha256 (concat data)"


section \<open>Reading blocks\<close>

definition GetChannelIDFromBlock :: "proto_codecs \<Rightarrow> Block option \<Rightarrow> gostring result" where
  "GetChannelIDFromBlock pb block =
     (case Option.bind block bkData of
        Some (d # _) \<Rightarrow>
          bindR (GetEnvelopeFromBlock pb d) (\<lambda>envelope.
          bindR (UnmarshalPayload pb (evPayload envelope)) (\<lambda>payload.
          case pyHeader payload of
            None \<Rightarrow> Inl (Err ''failed to retrieve channel id - payload header is empty'')
          | Some h \<Rightarrow> bindR (UnmarshalChannelHeader pb (hdChannelHeader h)) (\<lambda>chdr. Inr (chChannelId chdr))))
      | _ \<Rightarrow> Inl (Err ''failed to retrieve channel id - block is empty''))"

definition GetChannelIDFromBlockBytes :: "proto_codecs \<Rightarrow> bytes \<Rightarrow> gostring result" where
  "GetChannelIDFromBlockBytes pb b = bindR (UnmarshalBlock pb b) (\<lambda>block. GetChannelIDFromBlock pb (Some block))"

definition BlockMetadataIndex_SIGNATURES :: nat where "BlockMetadataIndex_SIGNATURES = 0"
definition BlockMetadataIndex_LAST_CONFIG :: nat where "BlockMetadataIndex_LAST_CONFIG = 1"
definition BlockMetadataIndex_TRANSACTIONS_FILTER :: nat where "BlockMetadataIndex_TRANSACTIONS_FILTER = 2"
definition BlockMetadataIndex_ORDERER :: nat where "BlockMetadataIndex_ORDERER = 3"
definition BlockMetadataIndex_COMMIT_HASH :: nat where "BlockMetadataIndex_COMMIT_HASH = 4"

definition GetMetadataFromBlock :: "proto_codecs \<Rightarrow> Block \<Rightarrow> nat \<Rightarrow> Metadata result" where
  "GetMetadataFromBlock pb block index =
     (case bkMetadata block of
        None \<Rightarrow> Inl (Err ''no metadata in block'')
      | Some md \<Rightarrow>
          if length md \<le> index then Inl (Err ''no metadata at index [%s]'')
          else wrapR ''error unmarshalling metadata at index [%s]'' (pUnmarshal (pbMetadata pb) (md ! index)))"

definition GetMetadataFromBlockOrPanic :: "proto_codecs \<Rightarrow> Block \<Rightarrow> nat \<Rightarrow> Metadata result" where
  "GetMetadataFromBlockOrPanic pb block index = orPanic (GetMetadataFromBlock pb block index)"

definition GetConsenterMetadataFromBlock :: "proto_codecs \<Rightarrow> Block \<Rightarrow> Metadata result" where
  "GetConsenterMetadataFromBlock pb block =
     bindR (wrapR ''failed to retrieve metadata'' (GetMetadataFromBlock pb block BlockMetadataIndex_SIGNATURES)) (\<lambda>m.
       if mdValue m = [] then GetMetadataFromBlock pb block BlockMetadataIndex_ORDERER
       else bindR (wrapR ''failed to unmarshal orderer block metadata'' (pUnmarshal (pbOrdererBlockMetadata pb) (mdValue m))) (\<lambda>obm.
            wrapR ''failed to unmarshal consenter metadata'' (pUnmarshal (pbMetadata pb) (obConsenterMetadata obm))))"

definition GetLastConfigIndexFromBlock :: "proto_codecs \<Rightarrow> Block \<Rightarrow> u64 result" where
  "GetLastConfigIndexFromBlock pb block =
     bindR (wrapR ''failed to retrieve metadata'' (GetMetadataFromBlock pb block BlockMetadataIndex_SIGNATURES)) (\<lambda>m.
       if mdValue m = []
       then bindR (wrapR ''failed to retrieve metadata'' (GetMetadataFromBlock pb block BlockMetadataIndex_LAST_CONFIG)) (\<lambda>m.
            wrapR ''error unmarshalling LastConfig'' (pUnmarshal (pbLastConfig pb) (mdValue m)))
       else bindR (wrapR ''failed to unmarshal orderer block metadata'' (pUnmarshal (pbOrdererBlockMetadata pb) (mdValue m))) (\<lambda>obm.
            case obLastConfig obm of None \<Rightarrow> Inl (Panic ''nil pointer dereference'') | Some i \<Rightarrow> Inr i))"

definition GetLastConfigIndexFromBlockOrPanic :: "proto_codecs \<Rightarrow> Block \<Rightarrow> u64 result" where
  "GetLastConfigIndexFromBlockOrPanic pb block = orPanic (GetLastConfigIndexFromBlock pb block)"

definition InitBlockMetadata :: "Block \<Rightarrow> Block" where
  "InitBlockMetadata block =
     (case bkMetadata block of
        None \<Rightarrow> block\<lparr>bkMetadata := Some [[], [], [], [], []]\<rparr>
      | Some md \<Rightarrow>
          if length md < BlockMetadataIndex_COMMIT_HASH + 1
          then block\<lparr>bkMetadata := Some (md @ replicate (BlockMetadataIndex_COMMIT_HASH + 1 - length md) [])\<rparr>
          else block)"

definition CopyBlockMetadata :: "Block \<Rightarrow> Block \<Rightarrow> Block" where
  "CopyBlockMetadata src dst = InitBlockMetadata (dst\<lparr>bkMetadata := bkMetadata src\<rparr>)"

section \<open>Well-formedness of transactions\<close>



section \<open>The header encoding is injective\<close>

lemma get_be_append: "get_be (xs @ [c]) = get_be xs * 256 + of_char c"
  by (simp add: get_be_def)

lemma be_bytes_0 [simp]: "be_bytes 0 = []"
  by (simp add: be_bytes.simps)

lemma get_be_be_bytes [simp]: "get_be (be_bytes n) = n"
proof (induction n rule: be_bytes.induct)
  case (1 n)
  then show ?case by (cases "n = 0") (simp_all add: be_bytes.simps [of n] get_be_append)
qed

lemma be_bytes_length: "n < 256 ^ k \<Longrightarrow> length (be_bytes n) \<le> k"
proof (induction k arbitrary: n)
  case 0
  then show ?case by (simp add: be_bytes.simps)
next
  case (Suc k)
  then have "n div 256 < 256 ^ k" by (simp add: less_mult_imp_div_less mult.commute)
  with Suc.IH show ?case by (cases "n = 0") (simp_all add: be_bytes.simps [of n])
qed

lemma get_be_der_integer: "get_be (der_integer n) = n"
  by (auto simp: der_integer_def Let_def get_be_Cons) (metis get_be_Nil get_be_be_bytes)

lemma der_integer_inject: "der_integer m = der_integer n \<longleftrightarrow> m = n"
  by (metis get_be_der_integer)

lemma char_of_inject_256: "m < 256 \<Longrightarrow> n < 256 \<Longrightarrow> char_of m = char_of n \<longleftrightarrow> m = (n :: nat)"
  by (metis of_char_of_small)

lemma der_length_append_inject:
  assumes "m < 2 ^ 63" and "n < 2 ^ 63" and "der_length m @ xs = der_length n @ ys"
  shows "m = n \<and> xs = ys"
proof -
  have p: "(2 :: nat) ^ 63 < 256 ^ 8" by simp
  have l: "length (be_bytes m) \<le> 8" "length (be_bytes n) \<le> 8"
    using be_bytes_length [of _ 8] assms(1,2) p by (meson less_trans)+
  have c: "(if m < 128 then m else 128 + length (be_bytes m)) = (if n < 128 then n else 128 + length (be_bytes n))"
    using assms(3) l by (auto simp: der_length_def char_of_inject_256 split: if_splits)
  show ?thesis
  proof (cases "m < 128")
    case True
    with c assms(3) show ?thesis by (auto simp: der_length_def split: if_splits)
  next
    case False
    with c have "\<not> n < 128" and "length (be_bytes m) = length (be_bytes n)" by (auto split: if_splits)
    with False assms(3) have "be_bytes m = be_bytes n \<and> xs = ys" by (simp add: der_length_def)
    then show ?thesis by (metis get_be_be_bytes)
  qed
qed

lemma der_tlv_append_inject:
  assumes "length c < 2 ^ 63" and "length d < 2 ^ 63" and "der_tlv t c @ xs = der_tlv t d @ ys"
  shows "c = d \<and> xs = ys"
  using der_length_append_inject [OF assms(1,2), of "c @ xs" "d @ ys"] assms(3) by (auto simp: der_tlv_def)

lemma der_length_length: "n < 2 ^ 63 \<Longrightarrow> length (der_length n) \<le> 9"
  using be_bytes_length [of n 8] by (simp add: der_length_def)

lemma der_tlv_length: "length c < 2 ^ 63 \<Longrightarrow> length (der_tlv t c) \<le> 10 + length c"
  using der_length_length [of "length c"] by (simp add: der_tlv_def)

lemma der_integer_length: "length (der_integer (unat (n :: u64))) \<le> 9"
proof -
  have "unat n < 256 ^ 8" by (rule unat_less_256_8)
  from be_bytes_length [OF this] show ?thesis by (simp add: der_integer_def Let_def)
qed

definition header_in_memory :: "BlockHeader \<Rightarrow> bool" where
  "header_in_memory h \<longleftrightarrow> length (bhPreviousHash h) < 2 ^ 61 \<and> length (bhDataHash h) < 2 ^ 61"

lemma BlockHeaderBytes_inject:
  assumes "header_in_memory h" and "header_in_memory k" and "BlockHeaderBytes h = BlockHeaderBytes k"
  shows "h = k"
proof -
  let ?c = "\<lambda>b. der_tlv 2 (der_integer (unat (bhNumber b))) @ der_tlv 4 (bhPreviousHash b) @ der_tlv 4 (bhDataHash b)"
  have i: "length (der_integer (unat (bhNumber b))) < 2 ^ 63" for b :: BlockHeader
    using der_integer_length [of "bhNumber b"] by (rule le_less_trans) simp
  have m: "length (bhPreviousHash b) < 2 ^ 63" "length (bhDataHash b) < 2 ^ 63" "length (?c b) < 2 ^ 63"
    if "header_in_memory b" for b :: BlockHeader
  proof -
    show h: "length (bhPreviousHash b) < 2 ^ 63" "length (bhDataHash b) < 2 ^ 63"
      using that by (simp_all add: header_in_memory_def)
    have "length (?c b) \<le> (10 + 9) + ((10 + length (bhPreviousHash b)) + (10 + length (bhDataHash b)))"
      unfolding length_append
      using der_tlv_length [OF i, of 2 b] der_integer_length [of "bhNumber b"] der_tlv_length [OF h(1), of 4] der_tlv_length [OF h(2), of 4]
      by linarith
    also have "\<dots> < 2 ^ 63" using that by (simp add: header_in_memory_def)
    finally show "length (?c b) < 2 ^ 63" .
  qed
  have "?c h = ?c k"
    using der_tlv_append_inject [OF m(3) [OF assms(1)] m(3) [OF assms(2)], of 48 "[]" "[]"] assms(3)
    by (simp add: BlockHeaderBytes_def)
  note a = der_tlv_append_inject [OF i i this]
  note b = der_tlv_append_inject [OF m(1) [OF assms(1)] m(1) [OF assms(2)] conjunct2 [OF a]]
  have c: "bhDataHash h = bhDataHash k"
    using der_tlv_append_inject [OF m(2) [OF assms(1)] m(2) [OF assms(2)], of 4 "[]" "[]"] b by simp
  show ?thesis using a b c by (intro BlockHeader.equality) (simp_all add: der_integer_inject word_unat_eq_iff)
qed

section \<open>The data hash and the list of transactions\<close>










section \<open>Properties\<close>

text \<open>
  C29. The bytes that are hashed for a block determine the header: number, previous hash and data hash. Two different
  headers with the same hash would be a collision of the hash function. (The hashes are shorter than 2^61 bytes.)
\<close>

theorem header_bytes_determine_header:
  assumes "header_in_memory h" and "header_in_memory k"
  shows "BlockHeaderBytes h = BlockHeaderBytes k \<longleftrightarrow> h = k"
  using BlockHeaderBytes_inject [OF assms] by blast

theorem header_bytes_determine_header_witness:
  "BlockHeaderBytes \<lparr>bhNumber = 1, bhPreviousHash = ''p'', bhDataHash = ''d''\<rparr> \<noteq>
   BlockHeaderBytes \<lparr>bhNumber = 1, bhPreviousHash = ''pd'', bhDataHash = ''''\<rparr>"
  by (subst header_bytes_determine_header) (simp_all add: header_in_memory_def)





end
