(* ===== verification/Batch_Preparer.thy ===== *)
theory Batch_Preparer
  imports Mvcc_Validator Protoutil_Tx Protoutil_Block
begin

text \<open>
  The commit batch preparer of \<open>core/ledger/kvledger/txmgmt/validation/batch_preparer.go\<close> and the validation flags of
  \<open>internal/pkg/txflags/validation_flags.go\<close>: the transactions of a block are parsed, validated by the MVCC validator, the
  private data of the valid ones is checked against its hashes, and the outcome is recorded in the block's flags. The flags
  are bytes of the block's metadata that the code changes in place; here they are passed along.
\<close>

section \<open>Validation flags\<close>

type_synonym ValidationFlags = "u8 list"

definition TxValidationCode_NOT_VALIDATED :: TxValidationCode where "TxValidationCode_NOT_VALIDATED = 254"

definition NewWithValues :: "nat \<Rightarrow> TxValidationCode \<Rightarrow> ValidationFlags" where
  "NewWithValues size0 value = replicate size0 (word_of_int value)"

definition NewFlags :: "nat \<Rightarrow> ValidationFlags" where
  "NewFlags size0 = NewWithValues size0 TxValidationCode_NOT_VALIDATED"






section \<open>Parsing a block\<close>

















definition bytes_of_flags :: "ValidationFlags \<Rightarrow> bytes" where
  "bytes_of_flags f = map (\<lambda>w. char_of (unat w)) f"




section \<open>Private data\<close>











section \<open>The batch preparer\<close>



section \<open>Flags never turn an invalid transaction valid\<close>











section \<open>Private data and its hashes\<close>





section \<open>Properties\<close>















end
