(* ===== verification/Leveldb_Helper.thy ===== *)
theory Leveldb_Helper
  imports Prelude
begin

text \<open>
  One goleveldb shared by many logical databases: \<open>common/ledger/util/leveldbhelper/leveldb_helper.go\<close> and
  \<open>leveldb_provider.go\<close>. A logical database is a channel; its keys are stored behind the channel name and a zero
  byte. The engine is represented by its contents, a map from keys to values, and by the error it returns when it is
  failing; its iterators run over a snapshot of the contents in the order of the keys.
\<close>

section \<open>The engine\<close>

record leveldb =
  ldStore :: "(bytes, bytes) gomap"
  ldErr :: "string option"

definition failing :: "string \<Rightarrow> leveldb \<Rightarrow> 'a result \<Rightarrow> 'a result" where
  "failing msg d r = (case ldErr d of Some _ \<Rightarrow> Inl (Err msg) | None \<Rightarrow> r)"

definition DB_Get :: "leveldb \<Rightarrow> bytes \<Rightarrow> bytes option result" where
  "DB_Get d key = failing ''error retrieving leveldb key [%#v]'' d (Inr (map_of (ldStore d) key))"

definition DB_Put :: "bytes \<Rightarrow> bytes \<Rightarrow> leveldb \<Rightarrow> leveldb result" where
  "DB_Put key value d = failing ''error writing leveldb key [%#v]'' d (Inr (d\<lparr>ldStore := mput key value (ldStore d)\<rparr>))"

definition DB_Delete :: "bytes \<Rightarrow> leveldb \<Rightarrow> leveldb result" where
  "DB_Delete key d = failing ''error deleting leveldb key [%#v]'' d (Inr (d\<lparr>ldStore := mdel key (ldStore d)\<rparr>))"

definition DB_IsEmpty :: "leveldb \<Rightarrow> bool result" where
  "DB_IsEmpty d = failing ''error while trying to see if the leveldb at path [%s] is empty'' d (Inr (ldStore d = []))"

text \<open>The operations of a \<open>leveldb.Batch\<close>, applied atomically and in order.\<close>

datatype batch_op = OpPut bytes bytes | OpDelete bytes

fun apply_op :: "batch_op \<Rightarrow> (bytes, bytes) gomap \<Rightarrow> (bytes, bytes) gomap" where
  "apply_op (OpPut k v) m = mput k v m"
| "apply_op (OpDelete k) m = mdel k m"

definition DB_WriteBatch :: "batch_op list \<Rightarrow> leveldb \<Rightarrow> leveldb result" where
  "DB_WriteBatch batch d = failing ''error writing batch to leveldb'' d (Inr (d\<lparr>ldStore := fold apply_op batch (ldStore d)\<rparr>))"

text \<open>An iterator stands before the first entry, on an entry or after the last one.\<close>

record iterator =
  iEntries :: "(bytes \<times> bytes) list"
  iPos :: int

definition DB_GetIterator :: "leveldb \<Rightarrow> bytes \<Rightarrow> bytes \<Rightarrow> iterator" where
  "DB_GetIterator d startKey endKey =
     \<lparr>iEntries = map (\<lambda>k. (k, the (map_of (ldStore d) k))) (filter (\<lambda>k. startKey \<le> k \<and> k < endKey) (GetSortedKeys (ldStore d))),
      iPos = -1\<rparr>"

definition iterator_Next :: "iterator \<Rightarrow> bool \<times> iterator" where
  "iterator_Next it =
     (if iPos it + 1 < int (length (iEntries it)) then (True, it\<lparr>iPos := iPos it + 1\<rparr>)
      else (False, it\<lparr>iPos := int (length (iEntries it))\<rparr>))"

definition iterator_Prev :: "iterator \<Rightarrow> bool \<times> iterator" where
  "iterator_Prev it =
     (if 0 < iPos it then (True, it\<lparr>iPos := iPos it - 1\<rparr>) else (False, it\<lparr>iPos := -1\<rparr>))"

definition iterator_Seek :: "bytes \<Rightarrow> iterator \<Rightarrow> bool \<times> iterator" where
  "iterator_Seek key it =
     (let i = length (takeWhile (\<lambda>e. fst e < key) (iEntries it)) in
      (i < length (iEntries it), it\<lparr>iPos := int i\<rparr>))"

definition iterator_current :: "iterator \<Rightarrow> (bytes \<times> bytes) option" where
  "iterator_current it =
     (if 0 \<le> iPos it \<and> iPos it < int (length (iEntries it)) then Some (iEntries it ! nat (iPos it)) else None)"

section \<open>Keys of a logical database\<close>

abbreviation zero :: byte where "zero \<equiv> CHR 0x00"
abbreviation lastKeyIndicator :: byte where "lastKeyIndicator \<equiv> CHR 0x01"

text \<open>\<open>bytes.SplitN(s, []byte{sep}, 2)\<close>.\<close>

definition SplitN2 :: "byte \<Rightarrow> bytes \<Rightarrow> bytes list" where
  "SplitN2 sep s =
     (case dropWhile (\<lambda>c. c \<noteq> sep) s of [] \<Rightarrow> [s] | _ # rest \<Rightarrow> [takeWhile (\<lambda>c. c \<noteq> sep) s, rest])"

definition constructLevelKey :: "gostring \<Rightarrow> bytes \<Rightarrow> bytes" where
  "constructLevelKey dbName key = (dbName @ [zero]) @ key"

definition retrieveAppKey :: "bytes \<Rightarrow> bytes result" where
  "retrieveAppKey levelKey =
     (case SplitN2 zero levelKey of [_, k] \<Rightarrow> Inr k | _ \<Rightarrow> Inl (Panic ''index out of range''))"

definition Iterator_Key :: "iterator \<Rightarrow> bytes result" where
  "Iterator_Key it = retrieveAppKey (case iterator_current it of None \<Rightarrow> [] | Some e \<Rightarrow> fst e)"

definition Iterator_Value :: "iterator \<Rightarrow> bytes" where
  "Iterator_Value it = (case iterator_current it of None \<Rightarrow> [] | Some e \<Rightarrow> snd e)"

definition Iterator_Seek :: "gostring \<Rightarrow> bytes \<Rightarrow> iterator \<Rightarrow> bool \<times> iterator" where
  "Iterator_Seek dbName key it = iterator_Seek (constructLevelKey dbName key) it"

section \<open>Handles\<close>

definition DBHandle_Get :: "gostring \<Rightarrow> leveldb \<Rightarrow> bytes \<Rightarrow> bytes option result" where
  "DBHandle_Get dbName d key = DB_Get d (constructLevelKey dbName key)"

definition DBHandle_Put :: "gostring \<Rightarrow> bytes \<Rightarrow> bytes \<Rightarrow> leveldb \<Rightarrow> leveldb result" where
  "DBHandle_Put dbName key value d = DB_Put (constructLevelKey dbName key) value d"

definition DBHandle_Delete :: "gostring \<Rightarrow> bytes \<Rightarrow> leveldb \<Rightarrow> leveldb result" where
  "DBHandle_Delete dbName key d = DB_Delete (constructLevelKey dbName key) d"

text \<open>Without an end key the separator after the channel name is replaced by its successor.\<close>

definition DBHandle_GetIterator :: "gostring \<Rightarrow> leveldb \<Rightarrow> bytes option \<Rightarrow> bytes option \<Rightarrow> iterator result" where
  "DBHandle_GetIterator dbName d startKey endKey =
     (let sKey = constructLevelKey dbName (case startKey of None \<Rightarrow> [] | Some k \<Rightarrow> k);
          eKey = (case endKey of
                    None \<Rightarrow> let e = constructLevelKey dbName [] in e[length e - 1 := lastKeyIndicator]
                  | Some k \<Rightarrow> constructLevelKey dbName k) in
      failing ''internal leveldb error while obtaining db iterator'' d (Inr (DB_GetIterator d sKey eKey)))"

definition maxBatchSize :: nat where "maxBatchSize = 1000000"

text \<open>The loop of \<open>deleteAll\<close>: the keys are deleted in batches.\<close>

fun deleteAll_loop :: "bytes list \<Rightarrow> nat \<Rightarrow> batch_op list \<Rightarrow> leveldb \<Rightarrow> leveldb result" where
  "deleteAll_loop [] batchSize batch d = (if batch \<noteq> [] then DB_WriteBatch batch d else Inr d)"
| "deleteAll_loop (key # keys) batchSize batch d =
     (let batchSize' = batchSize + length key; batch' = batch @ [OpDelete key] in
      if maxBatchSize \<le> batchSize' then bindR (DB_WriteBatch batch' d) (deleteAll_loop keys 0 [])
      else deleteAll_loop keys batchSize' batch' d)"

definition deleteAll :: "gostring \<Rightarrow> leveldb \<Rightarrow> leveldb result" where
  "deleteAll dbName d =
     bindR (DBHandle_GetIterator dbName d None None) (\<lambda>iter. deleteAll_loop (map fst (iEntries iter)) 0 [] d)"

definition DBHandle_IsEmpty :: "gostring \<Rightarrow> leveldb \<Rightarrow> bool result" where
  "DBHandle_IsEmpty dbName d =
     bindR (DBHandle_GetIterator dbName d None None) (\<lambda>itr. Inr (\<not> fst (iterator_Next itr)))"

record ldbBatch =
  ubDbName :: gostring
  ubOps :: "batch_op list"
  ubSize :: nat

definition DBHandle_NewUpdateBatch :: "gostring \<Rightarrow> ldbBatch" where
  "DBHandle_NewUpdateBatch dbName = \<lparr>ubDbName = dbName, ubOps = [], ubSize = 0\<rparr>"

definition ldbBatch_Put :: "bytes \<Rightarrow> bytes option \<Rightarrow> ldbBatch \<Rightarrow> ldbBatch result" where
  "ldbBatch_Put key value b =
     (case value of
        None \<Rightarrow> Inl (Panic ''Nil value not allowed'')
      | Some v \<Rightarrow>
          let k = constructLevelKey (ubDbName b) key in
          Inr (b\<lparr>ubOps := ubOps b @ [OpPut k v], ubSize := ubSize b + length k + length v\<rparr>))"

definition ldbBatch_Delete :: "bytes \<Rightarrow> ldbBatch \<Rightarrow> ldbBatch" where
  "ldbBatch_Delete key b =
     (let k = constructLevelKey (ubDbName b) key in
      b\<lparr>ubSize := ubSize b + length k, ubOps := ubOps b @ [OpDelete k]\<rparr>)"

definition ldbBatch_Len :: "ldbBatch \<Rightarrow> nat" where
  "ldbBatch_Len b = length (ubOps b)"

definition ldbBatch_Reset :: "ldbBatch \<Rightarrow> ldbBatch" where
  "ldbBatch_Reset b = b\<lparr>ubOps := [], ubSize := 0\<rparr>"

definition DBHandle_WriteBatch :: "ldbBatch option \<Rightarrow> leveldb \<Rightarrow> leveldb result" where
  "DBHandle_WriteBatch batch d =
     (case batch of
        None \<Rightarrow> Inr d
      | Some b \<Rightarrow> if ldbBatch_Len b = 0 then Inr d else DB_WriteBatch (ubOps b) d)"

section \<open>The provider\<close>

abbreviation internalDBName :: gostring where "internalDBName \<equiv> ''_''"
abbreviation formatVersionKey :: bytes where "formatVersionKey \<equiv> ''f''"

text \<open>A provider holds the engine and the names it has handed out handles for.\<close>

record Provider =
  pvDb :: leveldb
  pvHandles :: "gostring list"

definition openDBAndCheckFormat :: "gostring \<Rightarrow> leveldb \<Rightarrow> leveldb result" where
  "openDBAndCheckFormat expectedFormat d =
     bindR (DB_IsEmpty d) (\<lambda>dbEmpty.
     if dbEmpty \<and> expectedFormat \<noteq> [] then DBHandle_Put internalDBName formatVersionKey expectedFormat d
     else bindR (DBHandle_Get internalDBName d formatVersionKey) (\<lambda>formatVersion.
       if (case formatVersion of None \<Rightarrow> [] | Some f \<Rightarrow> f) \<noteq> expectedFormat
       then Inl (Err ''unexpected format. db info = [%s], data format = [%s], expected format = [%s]'') else Inr d))"

definition NewProvider :: "gostring \<Rightarrow> leveldb \<Rightarrow> Provider result" where
  "NewProvider expectedFormat d = bindR (openDBAndCheckFormat expectedFormat d) (\<lambda>db. Inr \<lparr>pvDb = db, pvHandles = []\<rparr>)"

definition Provider_GetDBHandle :: "gostring \<Rightarrow> Provider \<Rightarrow> Provider" where
  "Provider_GetDBHandle dbName p =
     (if dbName \<in> set (pvHandles p) then p else p\<lparr>pvHandles := dbName # pvHandles p\<rparr>)"

definition DBHandle_Close :: "gostring \<Rightarrow> Provider \<Rightarrow> Provider" where
  "DBHandle_Close dbName p = p\<lparr>pvHandles := filter (\<lambda>n. n \<noteq> dbName) (pvHandles p)\<rparr>"

definition GetDataFormat :: "Provider \<Rightarrow> gostring result" where
  "GetDataFormat p =
     bindR (DBHandle_Get internalDBName (pvDb p) formatVersionKey) (\<lambda>f. Inr (case f of None \<Rightarrow> [] | Some b \<Rightarrow> b))"

definition SetDataFormat :: "gostring \<Rightarrow> Provider \<Rightarrow> Provider result" where
  "SetDataFormat format p =
     (let p' = Provider_GetDBHandle internalDBName p in
      bindR (DBHandle_Put internalDBName formatVersionKey format (pvDb p')) (\<lambda>db. Inr (p'\<lparr>pvDb := db\<rparr>)))"

text \<open>Dropping closes the handle whether or not the deletion succeeds.\<close>

definition Provider_Drop :: "gostring \<Rightarrow> Provider \<Rightarrow> unit result \<times> Provider" where
  "Provider_Drop dbName p =
     (let p' = Provider_GetDBHandle dbName p in
      case deleteAll dbName (pvDb p') of
        Inl e \<Rightarrow> (Inl e, DBHandle_Close dbName p')
      | Inr db \<Rightarrow> (Inr (), DBHandle_Close dbName (p'\<lparr>pvDb := db\<rparr>)))"

section \<open>Keys\<close>

lemma SplitN2_append: "sep \<notin> set a \<Longrightarrow> SplitN2 sep (a @ sep # b) = [a, b]"
  by (induction a) (auto simp: SplitN2_def split: list.splits)

lemma retrieveAppKey_constructLevelKey [simp]: "nz n \<Longrightarrow> retrieveAppKey (constructLevelKey n k) = Inr k"
  by (simp add: retrieveAppKey_def constructLevelKey_def SplitN2_append nz_def)

lemma separated_eq_iff:
  fixes sep :: byte
  assumes "sep \<notin> set a" and "sep \<notin> set a'"
  shows "a @ sep # b = a' @ sep # b' \<longleftrightarrow> a = a' \<and> b = b'"
proof
  assume "a @ sep # b = a' @ sep # b'"
  then have "SplitN2 sep (a @ sep # b) = SplitN2 sep (a' @ sep # b')" by simp
  then show "a = a' \<and> b = b'" by (simp add: SplitN2_append assms)
qed simp

lemma constructLevelKey_eq_iff:
  "nz n \<Longrightarrow> nz n' \<Longrightarrow> constructLevelKey n k = constructLevelKey n' k' \<longleftrightarrow> n = n' \<and> k = k'"
  by (simp add: constructLevelKey_def nz_def separated_eq_iff)

lemma constructLevelKey_inj [simp]: "constructLevelKey n k = constructLevelKey n k' \<longleftrightarrow> k = k'"
  by (simp add: constructLevelKey_def)

lemma constructLevelKey_mono [simp]:
  "constructLevelKey n k \<le> constructLevelKey n k' \<longleftrightarrow> k \<le> k'"
  "constructLevelKey n k < constructLevelKey n k' \<longleftrightarrow> k < k'"
  by (simp_all add: constructLevelKey_def)

lemma char_less_1: "(c :: char) < CHR 0x01 \<longleftrightarrow> c = CHR 0x00"
proof -
  have "c < CHR 0x01 \<longleftrightarrow> of_char c = (of_char (CHR 0x00) :: nat)" by (simp add: less_char_def)
  then show ?thesis by (simp only: of_char_eq_iff)
qed

text \<open>With the successor of the separator as the end, a range holds exactly the keys behind the separator.\<close>

lemma separator_range:
  "(p @ [zero]) @ s \<le> k \<and> k < p @ [lastKeyIndicator] \<longleftrightarrow> (\<exists>z. k = (p @ [zero]) @ z \<and> s \<le> z)"
proof
  assume *: "(p @ [zero]) @ s \<le> k \<and> k < p @ [lastKeyIndicator]"
  then have "p @ (zero # s) \<le> k" "k < p @ [lastKeyIndicator]" by simp_all
  from prefix_range [OF this] obtain z where k: "k = p @ z" by blast
  with * have z: "zero # s \<le> z" "z < [lastKeyIndicator]" by simp_all
  from z(1) obtain c z' where "z = c # z'" by (cases z) auto
  with z k show "\<exists>z. k = (p @ [zero]) @ z \<and> s \<le> z" by (auto simp: char_less_1)
next
  assume "\<exists>z. k = (p @ [zero]) @ z \<and> s \<le> z"
  then show "(p @ [zero]) @ s \<le> k \<and> k < p @ [lastKeyIndicator]" by (auto simp: char_less_1)
qed

section \<open>Batches\<close>

text \<open>The key an operation writes, with the value it leaves.\<close>

fun op_effect :: "batch_op \<Rightarrow> bytes \<times> bytes option" where
  "op_effect (OpPut k v) = (k, Some v)"
| "op_effect (OpDelete k) = (k, None)"

definition effects :: "batch_op list \<Rightarrow> bytes \<rightharpoonup> bytes option" where
  "effects ops = map_of (rev (map op_effect ops))"

lemma effects_Nil [simp]: "effects [] = Map.empty"
  by (simp add: effects_def)

lemma effects_append [simp]: "effects (xs @ ys) = effects xs ++ effects ys"
  by (simp add: effects_def)

lemma effects_Cons: "effects (x # xs) = effects [x] ++ effects xs"
  by (simp add: effects_def)

lemma effects_single [simp]: "effects [x] = [fst (op_effect x) \<mapsto> snd (op_effect x)]"
  by (cases "op_effect x") (simp add: effects_def)

lemma map_of_apply_op:
  "map_of (apply_op x m) = (\<lambda>k. if k = fst (op_effect x) then snd (op_effect x) else map_of m k)"
  by (cases x) (auto simp: gomap_simps fun_eq_iff)

lemma map_of_fold_apply_op:
  "map_of (fold apply_op ops m) k = (case effects ops k of None \<Rightarrow> map_of m k | Some v \<Rightarrow> v)"
proof (induction ops arbitrary: m)
  case (Cons x ops)
  then show ?case by (simp add: effects_Cons [of x ops] map_add_def map_of_apply_op split: option.splits)
qed simp

lemma wf_map_apply_op [simp]: "wf_map m \<Longrightarrow> wf_map (apply_op x m)"
  by (cases x) simp_all

lemma wf_map_fold_apply_op [simp]: "wf_map m \<Longrightarrow> wf_map (fold apply_op ops m)"
  by (induction ops arbitrary: m) simp_all

text \<open>A logical database as a map over its own keys.\<close>

definition channel :: "gostring \<Rightarrow> leveldb \<Rightarrow> bytes \<rightharpoonup> bytes" where
  "channel n d k = map_of (ldStore d) (constructLevelKey n k)"

definition healthy :: "leveldb \<Rightarrow> bool" where
  "healthy d \<longleftrightarrow> ldErr d = None \<and> wf_map (ldStore d)"

lemma failing_healthy [simp]: "healthy d \<Longrightarrow> failing msg d r = r"
  by (simp add: failing_def healthy_def)

lemma DB_WriteBatch_Inr:
  assumes "healthy d"
  shows "\<exists>d'. DB_WriteBatch ops d = Inr d' \<and> healthy d' \<and>
    (\<forall>k. map_of (ldStore d') k = (case effects ops k of None \<Rightarrow> map_of (ldStore d) k | Some v \<Rightarrow> v))"
  using assms by (simp add: DB_WriteBatch_def map_of_fold_apply_op) (simp add: healthy_def)

lemma DBHandle_WriteBatch_Inr:
  assumes "healthy d"
  shows "\<exists>d'. DBHandle_WriteBatch (Some b) d = Inr d' \<and> healthy d' \<and>
    (\<forall>k. map_of (ldStore d') k = (case effects (ubOps b) k of None \<Rightarrow> map_of (ldStore d) k | Some v \<Rightarrow> v))"
  using assms DB_WriteBatch_Inr [OF assms, of "ubOps b"]
  by (auto simp: DBHandle_WriteBatch_def ldbBatch_Len_def)

section \<open>Iterators\<close>

lemma fst_iEntries_GetIterator [simp]:
  "map fst (iEntries (DB_GetIterator d s e)) = filter (\<lambda>k. s \<le> k \<and> k < e) (GetSortedKeys (ldStore d))"
  by (simp add: DB_GetIterator_def comp_def)

text \<open>Without bounds an iterator of a handle covers the keys of its database.\<close>

definition channel_keys :: "gostring \<Rightarrow> leveldb \<Rightarrow> bytes set" where
  "channel_keys n d = {k. \<exists>v. channel n d k = Some v}"

lemma unbounded_iterator:
  assumes "healthy d"
  obtains it where "DBHandle_GetIterator n d None None = Inr it" and "iPos it = -1"
    and "set (map fst (iEntries it)) = constructLevelKey n ` channel_keys n d" and "distinct (map fst (iEntries it))"
proof
  let ?it = "DB_GetIterator d (constructLevelKey n []) (n @ [lastKeyIndicator])"
  show "DBHandle_GetIterator n d None None = Inr ?it"
    using assms by (simp add: DBHandle_GetIterator_def Let_def constructLevelKey_def list_update_append)
  show "iPos ?it = -1" by (simp add: DB_GetIterator_def)
  show "set (map fst (iEntries ?it)) = constructLevelKey n ` channel_keys n d"
    unfolding fst_iEntries_GetIterator constructLevelKey_def
    by (auto simp: separator_range [of n "[]", simplified] channel_keys_def channel_def constructLevelKey_def)
  show "distinct (map fst (iEntries ?it))"
    unfolding fst_iEntries_GetIterator using assms by (simp add: healthy_def)
qed

lemma effects_deletes:
  assumes "\<forall>x \<in> set batch. \<exists>k. x = OpDelete k"
  shows "effects batch k = (if OpDelete k \<in> set batch then Some None else None)"
  using assms by (induction batch rule: rev_induct) (auto simp: map_add_def split: option.splits)

lemma deleteAll_loop_spec:
  assumes "healthy d" and "\<forall>x \<in> set batch. \<exists>k. x = OpDelete k"
  shows "\<exists>d'. deleteAll_loop keys bs batch d = Inr d' \<and> healthy d' \<and>
    (\<forall>k. map_of (ldStore d') k = (if k \<in> set keys \<or> OpDelete k \<in> set batch then None else map_of (ldStore d) k))"
  using assms
proof (induction keys bs batch d rule: deleteAll_loop.induct)
  case (1 bs batch d)
  show ?case using DB_WriteBatch_Inr [OF 1(1), of batch] 1(1) by (auto simp: effects_deletes [OF 1(2)])
next
  case (2 key keys bs batch d)
  define batch' where "batch' = batch @ [OpDelete key]"
  have b': "\<forall>x \<in> set batch'. \<exists>k. x = OpDelete k" using 2(4) by (auto simp: batch'_def)
  show ?case
  proof (cases "maxBatchSize \<le> bs + length key")
    case True
    obtain u where u: "DB_WriteBatch batch' d = Inr u" "healthy u"
      "\<And>k. map_of (ldStore u) k = (if OpDelete k \<in> set batch' then None else map_of (ldStore d) k)"
      using DB_WriteBatch_Inr [OF 2(3), of batch'] by (auto simp: effects_deletes [OF b'])
    from 2(1) [OF refl refl True, of u] u(1,2) obtain d' where
      "deleteAll_loop keys 0 [] u = Inr d'" "healthy d'"
      "\<forall>k. map_of (ldStore d') k = (if k \<in> set keys then None else map_of (ldStore u) k)" unfolding batch'_def by auto
    with True u show ?thesis by (auto simp: batch'_def Let_def)
  next
    case False
    with 2(2) [OF refl refl] 2(3) b' show ?thesis by (auto simp: batch'_def Let_def)
  qed
qed

lemma deleteAll_spec:
  assumes "healthy d"
  shows "\<exists>d'. deleteAll n d = Inr d' \<and> healthy d' \<and>
    (\<forall>k. map_of (ldStore d') k = (if \<exists>k'. k = constructLevelKey n k' then None else map_of (ldStore d) k))"
proof -
  obtain it where it: "DBHandle_GetIterator n d None None = Inr it"
    "set (map fst (iEntries it)) = constructLevelKey n ` channel_keys n d"
    by (rule unbounded_iterator [OF assms, of n]) blast
  define ks where "ks = map fst (iEntries it)"
  have ks: "k \<in> set ks \<longleftrightarrow> (\<exists>k'. k = constructLevelKey n k') \<and> map_of (ldStore d) k \<noteq> None" for k
    unfolding ks_def it(2) by (auto simp: channel_keys_def channel_def)
  from deleteAll_loop_spec [OF assms, of "[]" ks 0] obtain d' where
    d': "deleteAll_loop ks 0 [] d = Inr d'" "healthy d'"
    "\<forall>k. map_of (ldStore d') k = (if k \<in> set ks then None else map_of (ldStore d) k)" by auto
  have "map_of (ldStore d') k = (if \<exists>k'. k = constructLevelKey n k' then None else map_of (ldStore d) k)" for k
    using d'(3) ks [of k] by simp
  moreover have "deleteAll n d = Inr d'" using it(1) d'(1) by (simp add: deleteAll_def ks_def)
  ultimately show ?thesis using d'(2) by blast
qed

text \<open>
  C31. Dropping a channel removes all of its keys and nothing else, however many batches the deletion takes: every key
  of every other logical database, the data format record included, keeps its value, the dropped database is then
  empty, and its handle is closed.
\<close>

theorem drop_removes_exactly_one_channel:
  assumes "healthy (pvDb p)" and "nz n"
  shows "\<exists>p'. Provider_Drop n p = (Inr (), p') \<and> healthy (pvDb p') \<and> n \<notin> set (pvHandles p') \<and>
    DBHandle_IsEmpty n (pvDb p') = Inr True \<and>
    (\<forall>m k. nz m \<longrightarrow> m \<noteq> n \<longrightarrow> DBHandle_Get m (pvDb p') k = DBHandle_Get m (pvDb p) k)"
proof -
  let ?q = "Provider_GetDBHandle n p"
  have h: "healthy (pvDb ?q)" "pvDb ?q = pvDb p" using assms(1) by (simp_all add: Provider_GetDBHandle_def)
  then obtain d' where d': "deleteAll n (pvDb ?q) = Inr d'" "healthy d'"
    "\<And>k. map_of (ldStore d') k = (if \<exists>k'. k = constructLevelKey n k' then None else map_of (ldStore (pvDb p)) k)"
    using deleteAll_spec [OF h(1), of n] by auto
  have "channel_keys n d' = {}" by (simp add: channel_keys_def channel_def d'(3))
  then have "DBHandle_IsEmpty n d' = Inr True"
    using unbounded_iterator [OF d'(2), of n] by (force simp: DBHandle_IsEmpty_def iterator_Next_def)
  moreover have "DBHandle_Get m d' k = DBHandle_Get m (pvDb p) k" if "nz m" "m \<noteq> n" for m k
    using that assms d'(2) by (auto simp: DBHandle_Get_def DB_Get_def d'(3) constructLevelKey_eq_iff)
  ultimately show ?thesis
    using d' by (simp add: Provider_Drop_def Let_def DBHandle_Close_def)
qed

definition sample_provider :: Provider where
  "sample_provider =
     \<lparr>pvDb = \<lparr>ldStore = [(constructLevelKey ''b'' ''dk'', ''2''), (constructLevelKey ''a'' ''dk'', ''1'')], ldErr = None\<rparr>,
      pvHandles = [''a'']\<rparr>"

theorem drop_removes_exactly_one_channel_witness:
  "\<exists>p'. Provider_Drop ''a'' sample_provider = (Inr (), p') \<and> DBHandle_IsEmpty ''a'' (pvDb p') = Inr True \<and>
     DBHandle_Get ''b'' (pvDb p') ''dk'' = Inr (Some ''2'')"
proof -
  have "healthy (pvDb sample_provider)" "nz ''a''" "nz ''b''" "''b'' \<noteq> ''a''"
    "DBHandle_Get ''b'' (pvDb sample_provider) ''dk'' = Inr (Some ''2'')"
    by (simp_all add: sample_provider_def healthy_def nz_def constructLevelKey_def DBHandle_Get_def DB_Get_def failing_def)
  with drop_removes_exactly_one_channel [of sample_provider "''a''"] show ?thesis by metis
qed

end
