(* ===== verification/State_Leveldb.thy ===== *)
theory State_Leveldb
  imports Rwset Leveldb_Helper
begin

text \<open>
  The state database on goleveldb: \<open>core/ledger/kvledger/txmgmt/statedb/stateleveldb/stateleveldb.go\<close> and
  \<open>value_encoding.go\<close>. Keys are encoded as \<open>d\<close>, namespace, zero byte, key; values as a protobuf message, whose
  marshalling is a parameter. The theory shows that this database keeps the contract of the interface
  \<open>VersionedDB\<close> (locale \<open>versioned_db\<close>) and that a state exported by a full scan and imported again is the same
  state.
\<close>

section \<open>Values\<close>

record DBValue =
  dvVersion :: bytes
  dvValue :: bytes
  dvMetadata :: bytes

definition encodeValue :: "DBValue codec \<Rightarrow> VersionedValue \<Rightarrow> bytes result" where
  "encodeValue cd v =
     (case vvVersion v of
        None \<Rightarrow> Inl (Panic ''nil pointer dereference'')
      | Some h \<Rightarrow>
          bindR (ToBytes h) (\<lambda>b.
          pMarshal cd \<lparr>dvVersion = b, dvValue = (case vvValue v of None \<Rightarrow> [] | Some x \<Rightarrow> x),
                       dvMetadata = (case vvMetadata v of None \<Rightarrow> [] | Some x \<Rightarrow> x)\<rparr>))"

text \<open>Unmarshalling makes an empty byte field \<open>nil\<close>; the value is turned back into an empty slice, the metadata is
  not.\<close>

definition decodeValue :: "DBValue codec \<Rightarrow> bytes \<Rightarrow> VersionedValue result" where
  "decodeValue cd encodedValue =
     bindR (pUnmarshal cd encodedValue) (\<lambda>dbValue.
     bindR (NewHeightFromBytes (dvVersion dbValue)) (\<lambda>(ver, _).
     Inr \<lparr>vvValue = Some (dvValue dbValue),
          vvMetadata = (if dvMetadata dbValue = [] then None else Some (dvMetadata dbValue)), vvVersion = Some ver\<rparr>))"

section \<open>Keys\<close>

abbreviation dataKeyPrefix :: bytes where "dataKeyPrefix \<equiv> ''d''"
abbreviation dataKeyStopper :: bytes where "dataKeyStopper \<equiv> ''e''"
abbreviation savePointKey :: bytes where "savePointKey \<equiv> ''s''"

definition encodeDataKey :: "gostring \<Rightarrow> gostring \<Rightarrow> bytes" where
  "encodeDataKey ns key = ((dataKeyPrefix @ ns) @ [zero]) @ key"

definition decodeDataKey :: "bytes \<Rightarrow> (gostring \<times> gostring) result" where
  "decodeDataKey encodedDataKey =
     (case SplitN2 zero encodedDataKey of
        [_ # ns, key] \<Rightarrow> Inr (ns, key)
      | [[], key] \<Rightarrow> Inl (Panic ''slice bounds out of range'')
      | _ \<Rightarrow> Inl (Panic ''index out of range''))"

definition dataKeyStarterForNextNamespace :: "gostring \<Rightarrow> bytes" where
  "dataKeyStarterForNextNamespace ns = (dataKeyPrefix @ ns) @ [lastKeyIndicator]"

section \<open>Reads\<close>

text \<open>A database of a channel: its name, the shared engine, and the encoding of values.\<close>

record versionedDB =
  vdCodec :: "DBValue codec"
  vdName :: gostring
  vdDb :: leveldb

definition GetState :: "versionedDB \<Rightarrow> gostring \<Rightarrow> gostring \<Rightarrow> VersionedValue option result" where
  "GetState vdb namespace key =
     bindR (DBHandle_Get (vdName vdb) (vdDb vdb) (encodeDataKey namespace key)) (\<lambda>dbVal.
     case dbVal of None \<Rightarrow> Inr None | Some b \<Rightarrow> bindR (decodeValue (vdCodec vdb) b) (\<lambda>vv. Inr (Some vv)))"

definition GetVersion :: "versionedDB \<Rightarrow> gostring \<Rightarrow> gostring \<Rightarrow> Height option result" where
  "GetVersion vdb namespace key =
     bindR (GetState vdb namespace key) (\<lambda>versionedValue.
     case versionedValue of None \<Rightarrow> Inr None | Some vv \<Rightarrow> Inr (vvVersion vv))"

definition GetStateMultipleKeys :: "versionedDB \<Rightarrow> gostring \<Rightarrow> gostring list \<Rightarrow> VersionedValue option list result" where
  "GetStateMultipleKeys vdb namespace keys = mapR (GetState vdb namespace) keys"

text \<open>The scanner over a range. A limit that is not positive means no limit.\<close>

record kvScanner =
  ksNamespace :: gostring
  ksItr :: iterator
  ksLimit :: int
  ksTotal :: int

definition newKVScanner :: "gostring \<Rightarrow> iterator \<Rightarrow> int \<Rightarrow> kvScanner" where
  "newKVScanner namespace dbItr requestedLimit =
     \<lparr>ksNamespace = namespace, ksItr = dbItr, ksLimit = requestedLimit, ksTotal = 0\<rparr>"

definition kvScanner_Next :: "DBValue codec \<Rightarrow> kvScanner \<Rightarrow> (VersionedKV option \<times> kvScanner) result" where
  "kvScanner_Next cd scanner =
     (if ksLimit scanner > 0 \<and> ksTotal scanner \<ge> ksLimit scanner then Inr (None, scanner)
      else
        let (more, itr) = iterator_Next (ksItr scanner); scanner' = scanner\<lparr>ksItr := itr\<rparr> in
        if \<not> more then Inr (None, scanner')
        else
          bindR (Iterator_Key itr) (\<lambda>dbKey.
          bindR (decodeDataKey dbKey) (\<lambda>(_, key).
          bindR (decodeValue cd (Iterator_Value itr)) (\<lambda>vv.
          Inr (Some \<lparr>ckNamespace = ksNamespace scanner, ckKey = key, kvVal = vv\<rparr>,
               scanner'\<lparr>ksTotal := ksTotal scanner + 1\<rparr>)))))"

definition GetBookmarkAndClose :: "kvScanner \<Rightarrow> gostring result" where
  "GetBookmarkAndClose scanner =
     (let (more, itr) = iterator_Next (ksItr scanner) in
      if more then bindR (Iterator_Key itr) (\<lambda>dbKey. bindR (decodeDataKey dbKey) (\<lambda>(_, key). Inr key)) else Inr [])"

definition GetStateRangeScanIteratorWithPagination ::
  "versionedDB \<Rightarrow> gostring \<Rightarrow> gostring \<Rightarrow> gostring \<Rightarrow> int \<Rightarrow> kvScanner result" where
  "GetStateRangeScanIteratorWithPagination vdb namespace startKey endKey pageSize =
     (let dataStartKey = encodeDataKey namespace startKey;
          dataEndKey0 = encodeDataKey namespace endKey;
          dataEndKey = (if endKey = [] then dataEndKey0[length dataEndKey0 - 1 := lastKeyIndicator] else dataEndKey0) in
      bindR (DBHandle_GetIterator (vdName vdb) (vdDb vdb) (Some dataStartKey) (Some dataEndKey)) (\<lambda>dbItr.
      Inr (newKVScanner namespace dbItr pageSize)))"

definition GetStateRangeScanIterator :: "versionedDB \<Rightarrow> gostring \<Rightarrow> gostring \<Rightarrow> gostring \<Rightarrow> kvScanner result" where
  "GetStateRangeScanIterator vdb namespace startKey endKey =
     GetStateRangeScanIteratorWithPagination vdb namespace startKey endKey 0"

text \<open>What a client gets from a scanner by calling \<open>Next\<close> until it returns \<open>nil\<close> or an error, with the scanner it
  leaves behind.\<close>

function kvScanner_drain :: "DBValue codec \<Rightarrow> kvScanner \<Rightarrow> ResultsIterator \<times> kvScanner" where
  "kvScanner_drain cd sc =
     (case kvScanner_Next cd sc of
        Inl e \<Rightarrow> ([Inl e], sc)
      | Inr (None, sc') \<Rightarrow> ([], sc')
      | Inr (Some kv, sc') \<Rightarrow> (let (kvs, last) = kvScanner_drain cd sc' in (Inr kv # kvs, last)))"
  by pat_completeness auto
termination
  by (relation "measure (\<lambda>(cd, sc). nat (int (length (iEntries (ksItr sc))) - iPos (ksItr sc)))")
     (auto simp: kvScanner_Next_def iterator_Next_def bindR_Inr_iff split: if_splits)

declare kvScanner_drain.simps [simp del]

section \<open>Updates\<close>

definition applyUpdate :: "DBValue codec \<Rightarrow> gostring \<Rightarrow> gostring \<times> VersionedValue \<Rightarrow> ldbBatch \<Rightarrow> ldbBatch result" where
  "applyUpdate cd ns = (\<lambda>(k, vv) dbBatch.
     let dataKey = encodeDataKey ns k in
     if vvValue vv = None then Inr (ldbBatch_Delete dataKey dbBatch)
     else bindR (encodeValue cd vv) (\<lambda>encodedVal. ldbBatch_Put dataKey (Some encodedVal) dbBatch))"

definition ApplyUpdates :: "UpdateBatch \<Rightarrow> Height option \<Rightarrow> versionedDB \<Rightarrow> versionedDB result" where
  "ApplyUpdates batch height vdb =
     bindR (foldR (\<lambda>ns. foldR (applyUpdate (vdCodec vdb) ns) (GetUpdates batch ns)) (GetUpdatedNamespaces batch)
              (DBHandle_NewUpdateBatch (vdName vdb))) (\<lambda>dbBatch.
     bindR (case height of
              None \<Rightarrow> Inr dbBatch
            | Some h \<Rightarrow> bindR (ToBytes h) (\<lambda>b. ldbBatch_Put savePointKey (Some b) dbBatch)) (\<lambda>dbBatch'.
     bindR (DBHandle_WriteBatch (Some dbBatch') (vdDb vdb)) (\<lambda>db. Inr (vdb\<lparr>vdDb := db\<rparr>))))"

definition GetLatestSavePoint :: "versionedDB \<Rightarrow> Height option result" where
  "GetLatestSavePoint vdb =
     bindR (DBHandle_Get (vdName vdb) (vdDb vdb) savePointKey) (\<lambda>versionBytes.
     case versionBytes of
       None \<Rightarrow> Inr None
     | Some b \<Rightarrow> bindR (NewHeightFromBytes b) (\<lambda>(version, _). Inr (Some version)))"

definition IsEmpty :: "versionedDB \<Rightarrow> bool result" where
  "IsEmpty vdb = DBHandle_IsEmpty (vdName vdb) (vdDb vdb)"

section \<open>Full scan and import\<close>

record fullDBScanner =
  fsName :: gostring
  fsItr :: iterator

definition newFullDBScanner :: "versionedDB \<Rightarrow> fullDBScanner result" where
  "newFullDBScanner vdb =
     bindR (DBHandle_GetIterator (vdName vdb) (vdDb vdb) (Some dataKeyPrefix) (Some dataKeyStopper)) (\<lambda>dbItr.
     Inr \<lparr>fsName = vdName vdb, fsItr = dbItr\<rparr>)"

text \<open>Skipping a namespace seeks past its keys and steps back by one. The loop may not end: then the value is
  \<open>None\<close>.\<close>

partial_function (option) fullDBScanner_Next ::
  "DBValue codec \<Rightarrow> (gostring \<Rightarrow> bool) \<Rightarrow> fullDBScanner \<Rightarrow> (VersionedKV option \<times> fullDBScanner) result option" where
  "fullDBScanner_Next cd toSkip s =
     (let (more, itr) = iterator_Next (fsItr s) in
      if \<not> more then Some (Inr (None, s\<lparr>fsItr := itr\<rparr>))
      else
        case bindR (Iterator_Key itr) decodeDataKey of
          Inl e \<Rightarrow> Some (Inl e)
        | Inr (ns, key) \<Rightarrow>
            (case decodeValue cd (Iterator_Value itr) of
               Inl e \<Rightarrow> Some (Inl e)
             | Inr versionedVal \<Rightarrow>
                 if \<not> toSkip ns
                 then Some (Inr (Some \<lparr>ckNamespace = ns, ckKey = key, kvVal = versionedVal\<rparr>, s\<lparr>fsItr := itr\<rparr>))
                 else fullDBScanner_Next cd toSkip
                        (s\<lparr>fsItr := snd (iterator_Prev (snd (Iterator_Seek (fsName s) (dataKeyStarterForNextNamespace ns) itr)))\<rparr>)))"

definition maxDataImportBatchSize :: nat where "maxDataImportBatchSize = 4 * 1024 * 1024"

text \<open>The loop of \<open>importState\<close> over the results of an iterator.\<close>

fun importState_loop :: "ResultsIterator \<Rightarrow> nat \<Rightarrow> ldbBatch \<Rightarrow> versionedDB \<Rightarrow> (ldbBatch \<times> versionedDB) result" where
  "importState_loop [] batchSize dbBatch vdb = Inr (dbBatch, vdb)"
| "importState_loop (Inl e # itr) batchSize dbBatch vdb = Inl e"
| "importState_loop (Inr versionedKV # itr) batchSize dbBatch vdb =
     (let dbKey = encodeDataKey (ckNamespace versionedKV) (ckKey versionedKV) in
      bindR (encodeValue (vdCodec vdb) (kvVal versionedKV)) (\<lambda>dbValue.
      bindR (ldbBatch_Put dbKey (Some dbValue) dbBatch) (\<lambda>dbBatch'.
      let batchSize' = batchSize + (length dbKey + length dbValue) in
      if maxDataImportBatchSize \<le> batchSize' then
        bindR (DBHandle_WriteBatch (Some dbBatch') (vdDb vdb)) (\<lambda>db.
        importState_loop itr 0 (ldbBatch_Reset dbBatch') (vdb\<lparr>vdDb := db\<rparr>))
      else importState_loop itr batchSize' dbBatch' vdb)))"

definition importState :: "ResultsIterator option \<Rightarrow> Height \<Rightarrow> versionedDB \<Rightarrow> versionedDB result" where
  "importState itr savepoint vdb =
     (case itr of
        None \<Rightarrow>
          bindR (ToBytes savepoint) (\<lambda>b.
          bindR (DBHandle_Put (vdName vdb) savePointKey b (vdDb vdb)) (\<lambda>db. Inr (vdb\<lparr>vdDb := db\<rparr>)))
      | Some results \<Rightarrow>
          bindR (importState_loop results 0 (DBHandle_NewUpdateBatch (vdName vdb)) vdb) (\<lambda>(dbBatch, vdb').
          bindR (ToBytes savepoint) (\<lambda>b.
          bindR (ldbBatch_Put savePointKey (Some b) dbBatch) (\<lambda>dbBatch'.
          bindR (DBHandle_WriteBatch (Some dbBatch') (vdDb vdb')) (\<lambda>db. Inr (vdb'\<lparr>vdDb := db\<rparr>))))))"

text \<open>The methods as the interface of the statedb package.\<close>

definition leveldb_handle :: "versionedDB \<Rightarrow> VersionedDB" where
  "leveldb_handle vdb =
     \<lparr>db_GetState = GetState vdb,
      db_GetVersion = GetVersion vdb,
      db_GetStateRangeScanIterator = (\<lambda>ns s e.
        bindR (GetStateRangeScanIterator vdb ns s e) (\<lambda>sc. Inr (fst (kvScanner_drain (vdCodec vdb) sc)))),
      db_ValidateKeyValue = (\<lambda>key value. Inr ()),
      db_BytesKeySupported = True\<rparr>"

section \<open>Encodings\<close>

text \<open>Marshalling a message with byte fields only never fails, and unmarshalling gives it back.\<close>

definition codec_total :: "'a codec \<Rightarrow> bool" where
  "codec_total cd \<longleftrightarrow> (\<forall>x. \<exists>b. pMarshal cd x = Inr b \<and> pUnmarshal cd b = Inr x)"

text \<open>Values as they come out of the database.\<close>

definition storable :: "VersionedValue \<Rightarrow> bool" where
  "storable vv \<longleftrightarrow> vvValue vv \<noteq> None \<and> vvVersion vv \<noteq> None \<and> vvMetadata vv \<noteq> Some []"

lemma encodeValue_decodeValue:
  assumes "codec_total cd" and "storable vv"
  obtains b where "encodeValue cd vv = Inr b" and "decodeValue cd b = Inr vv"
proof -
  obtain v md h where vv: "vv = \<lparr>vvValue = Some v, vvMetadata = md, vvVersion = Some h\<rparr>" and md: "md \<noteq> Some []"
    using assms(2) by (cases vv) (auto simp: storable_def)
  let ?m = "\<lparr>dvVersion = opv (BlockNum h) @ opv (TxNum h), dvValue = v, dvMetadata = (case md of None \<Rightarrow> [] | Some x \<Rightarrow> x)\<rparr>"
  obtain b where "pMarshal cd ?m = Inr b" "pUnmarshal cd b = Inr ?m" using assms(1) by (auto simp: codec_total_def)
  moreover have "\<exists>n. NewHeightFromBytes (opv (BlockNum h) @ opv (TxNum h)) = Inr (h, n)"
    using FromBytes_ToBytes [of h "opv (BlockNum h) @ opv (TxNum h)" "[]"] ToBytes_opv [of h] by auto
  ultimately show thesis
    using md by (intro that [of b]) (auto simp: vv encodeValue_def decodeValue_def ToBytes_opv split: option.splits)
qed

lemma decodeValue_storable: "decodeValue cd b = Inr vv \<Longrightarrow> storable vv"
  by (auto simp: decodeValue_def bindR_Inr_iff storable_def split: if_splits)

lemma decodeDataKey_encodeDataKey [simp]: "nz ns \<Longrightarrow> decodeDataKey (encodeDataKey ns key) = Inr (ns, key)"
  using SplitN2_append [of zero "dataKeyPrefix @ ns" key] by (simp add: decodeDataKey_def encodeDataKey_def nz_def)

lemma encodeDataKey_eq_iff: "nz ns \<Longrightarrow> nz ns' \<Longrightarrow> encodeDataKey ns k = encodeDataKey ns' k' \<longleftrightarrow> ns = ns' \<and> k = k'"
  by (auto simp: encodeDataKey_def nz_def separated_eq_iff)

lemma encodeDataKey_inj [simp]: "encodeDataKey ns k = encodeDataKey ns k' \<longleftrightarrow> k = k'"
  by (simp add: encodeDataKey_def)

lemma encodeDataKey_mono [simp]:
  "encodeDataKey ns k \<le> encodeDataKey ns k' \<longleftrightarrow> k \<le> k'"
  "encodeDataKey ns k < encodeDataKey ns k' \<longleftrightarrow> k < k'"
  by (simp_all add: encodeDataKey_def)

lemma savePointKey_no_data [simp]: "encodeDataKey ns k \<noteq> savePointKey" "savePointKey \<noteq> encodeDataKey ns k"
  by (simp_all add: encodeDataKey_def)

section \<open>The state of the database\<close>

text \<open>Every data key of the channel has a namespace without a zero byte and a value that decodes.\<close>

definition data_ok :: "versionedDB \<Rightarrow> bool" where
  "data_ok vdb \<longleftrightarrow>
     (\<forall>k v. channel (vdName vdb) (vdDb vdb) (dataKeyPrefix @ k) = Some v \<longrightarrow>
        (\<exists>ns key vv. nz ns \<and> dataKeyPrefix @ k = encodeDataKey ns key \<and> decodeValue (vdCodec vdb) v = Inr vv))"

definition ldb_invar :: "versionedDB \<Rightarrow> bool" where
  "ldb_invar vdb \<longleftrightarrow> codec_total (vdCodec vdb) \<and> nz (vdName vdb) \<and> healthy (vdDb vdb) \<and> data_ok vdb"

definition ldb_state :: "versionedDB \<Rightarrow> gostring \<Rightarrow> gostring \<rightharpoonup> VersionedValue" where
  "ldb_state vdb ns key =
     (case channel (vdName vdb) (vdDb vdb) (encodeDataKey ns key) of
        None \<Rightarrow> None
      | Some b \<Rightarrow> (case decodeValue (vdCodec vdb) b of Inl _ \<Rightarrow> None | Inr vv \<Rightarrow> Some vv))"

lemma data_okD:
  assumes "data_ok vdb" and "channel (vdName vdb) (vdDb vdb) (encodeDataKey ns key) = Some v"
  shows "\<exists>vv. decodeValue (vdCodec vdb) v = Inr vv"
  using assms unfolding data_ok_def encodeDataKey_def append_assoc by blast

lemma ldb_state_channel:
  assumes "data_ok vdb"
  shows "ldb_state vdb ns key = Some vv \<longleftrightarrow>
    (\<exists>b. channel (vdName vdb) (vdDb vdb) (encodeDataKey ns key) = Some b \<and> decodeValue (vdCodec vdb) b = Inr vv)"
  using data_okD [OF assms, of ns key] by (auto simp: ldb_state_def split: option.splits sum.splits)

lemma dom_ldb_state:
  assumes "data_ok vdb"
  shows "key \<in> dom (ldb_state vdb ns) \<longleftrightarrow> channel (vdName vdb) (vdDb vdb) (encodeDataKey ns key) \<noteq> None"
  using data_okD [OF assms, of ns key] by (auto simp: ldb_state_def split: option.splits sum.splits)

lemma GetState_state:
  assumes "ldb_invar vdb"
  shows "GetState vdb ns key = Inr (ldb_state vdb ns key)"
proof (cases "channel (vdName vdb) (vdDb vdb) (encodeDataKey ns key)")
  case None
  with assms show ?thesis
    by (simp add: GetState_def DBHandle_Get_def DB_Get_def ldb_state_def channel_def ldb_invar_def)
next
  case (Some b)
  with data_okD [of vdb ns key b] assms obtain vv where "decodeValue (vdCodec vdb) b = Inr vv"
    by (auto simp: ldb_invar_def)
  with Some assms show ?thesis
    by (simp add: GetState_def DBHandle_Get_def DB_Get_def ldb_state_def channel_def ldb_invar_def)
qed

lemma GetVersion_state: "ldb_invar vdb \<Longrightarrow> GetVersion vdb ns key = Inr (Option.bind (ldb_state vdb ns key) vvVersion)"
  by (simp add: GetVersion_def GetState_state split: option.splits)

lemma ldb_state_storable: "ldb_state vdb ns key = Some vv \<Longrightarrow> storable vv"
  by (auto simp: ldb_state_def intro: decodeValue_storable split: option.splits sum.splits)

lemma finite_dom_ldb_state: "finite (dom (ldb_state vdb ns))"
proof -
  have "finite ((\<lambda>k. constructLevelKey (vdName vdb) (encodeDataKey ns k)) -` dom (map_of (ldStore (vdDb vdb))))"
    by (rule finite_vimageI) (auto simp: finite_dom_map_of inj_def)
  then show ?thesis
    by (rule rev_finite_subset) (auto simp: ldb_state_def channel_def split: option.splits)
qed

section \<open>Range scans\<close>

lemma data_range:
  assumes "nz ns"
  shows "constructLevelKey n (encodeDataKey ns s) \<le> k \<and>
      k < constructLevelKey n (if e = [] then (encodeDataKey ns e)[length (encodeDataKey ns e) - 1 := lastKeyIndicator] else encodeDataKey ns e) \<longleftrightarrow>
    (\<exists>key. k = constructLevelKey n (encodeDataKey ns key) \<and> in_range s e key)"
proof (cases "e = []")
  case True
  have "(encodeDataKey ns [])[length (encodeDataKey ns []) - 1 := lastKeyIndicator] = (dataKeyPrefix @ ns) @ [lastKeyIndicator]"
    by (simp add: encodeDataKey_def list_update_append)
  then show ?thesis
    using separator_range [of "constructLevelKey n (dataKeyPrefix @ ns)" s k] True
    by (simp add: constructLevelKey_def encodeDataKey_def in_range_def)
next
  case False
  have "\<exists>key. k = constructLevelKey n (encodeDataKey ns key)"
    if "constructLevelKey n (encodeDataKey ns s) \<le> k" "k < constructLevelKey n (encodeDataKey ns e)"
    using prefix_range [of "constructLevelKey n (encodeDataKey ns [])" s k e] that
    by (simp add: constructLevelKey_def encodeDataKey_def)
  with False show ?thesis by (auto simp: in_range_def)
qed

lemma sorted_map_mono:
  fixes f :: "'a :: linorder \<Rightarrow> 'b :: linorder"
  assumes "sorted xs" and "\<And>x y. x \<le> y \<Longrightarrow> f x \<le> f y"
  shows "sorted (map f xs)"
  using assms by (induction xs) auto

text \<open>The entries a range iterator runs over.\<close>

lemma range_iterator:
  assumes "ldb_invar vdb" and "nz ns"
  obtains it where "GetStateRangeScanIteratorWithPagination vdb ns s e n = Inr (newKVScanner ns it n)" and "iPos it = -1"
    and "iEntries it =
      map (\<lambda>k. (constructLevelKey (vdName vdb) (encodeDataKey ns k), the (channel (vdName vdb) (vdDb vdb) (encodeDataKey ns k))))
        (filter (in_range s e) (sorted_list_of_set (dom (ldb_state vdb ns))))"
proof -
  let ?L = "\<lambda>k. constructLevelKey (vdName vdb) (encodeDataKey ns k)"
  let ?stop = "if e = [] then (encodeDataKey ns e)[length (encodeDataKey ns e) - 1 := lastKeyIndicator] else encodeDataKey ns e"
  let ?it = "DB_GetIterator (vdDb vdb) (?L s) (constructLevelKey (vdName vdb) ?stop)"
  let ?ks = "filter (in_range s e) (sorted_list_of_set (dom (ldb_state vdb ns)))"
  have h: "healthy (vdDb vdb)" "data_ok vdb" using assms(1) by (simp_all add: ldb_invar_def)
  have "filter (\<lambda>k. ?L s \<le> k \<and> k < constructLevelKey (vdName vdb) ?stop) (GetSortedKeys (ldStore (vdDb vdb))) = map ?L ?ks"
  proof (rule sorted_distinct_set_unique)
    show "sorted (map ?L ?ks)" by (rule sorted_map_mono) (simp_all add: sorted_wrt_filter)
    show "distinct (map ?L ?ks)" by (auto simp: distinct_map inj_on_def)
    show "set (filter (\<lambda>k. ?L s \<le> k \<and> k < constructLevelKey (vdName vdb) ?stop) (GetSortedKeys (ldStore (vdDb vdb)))) = set (map ?L ?ks)"
      unfolding set_filter data_range [OF assms(2)] set_map set_sorted_list_of_set [OF finite_dom_ldb_state] dom_ldb_state [OF h(2)]
      by (auto simp: channel_def)
  qed (use h(1) in \<open>simp_all add: healthy_def sorted_wrt_filter\<close>)
  then have "iEntries ?it = map (\<lambda>k. (?L k, the (channel (vdName vdb) (vdDb vdb) (encodeDataKey ns k)))) ?ks"
    by (simp add: DB_GetIterator_def channel_def)
  moreover have "GetStateRangeScanIteratorWithPagination vdb ns s e n = Inr (newKVScanner ns ?it n)"
    using h(1) by (simp add: GetStateRangeScanIteratorWithPagination_def DBHandle_GetIterator_def Let_def)
  ultimately show thesis by (intro that [of ?it]) (simp_all add: DB_GetIterator_def)
qed

text \<open>The key-value pair an entry stands for.\<close>

definition entry_ok :: "DBValue codec \<Rightarrow> bytes \<times> bytes \<Rightarrow> gostring \<Rightarrow> gostring \<Rightarrow> VersionedValue \<Rightarrow> bool" where
  "entry_ok cd e ns key vv \<longleftrightarrow> bindR (retrieveAppKey (fst e)) decodeDataKey = Inr (ns, key) \<and> decodeValue cd (snd e) = Inr vv"

abbreviation rest :: "iterator \<Rightarrow> (bytes \<times> bytes) list" where
  "rest it \<equiv> drop (nat (iPos it + 1)) (iEntries it)"

lemma iterator_Next_Nil: "-1 \<le> iPos it \<Longrightarrow> rest it = [] \<Longrightarrow> iterator_Next it = (False, it\<lparr>iPos := int (length (iEntries it))\<rparr>)"
  by (simp add: iterator_Next_def)

lemma iterator_Next_Cons:
  assumes "-1 \<le> iPos it" and "rest it = e # es"
  obtains it' where "iterator_Next it = (True, it')" and "iterator_current it' = Some e" and "rest it' = es"
    and "it' = it\<lparr>iPos := iPos it + 1\<rparr>"
proof
  let ?i = "nat (iPos it + 1)"
  have lt: "?i < length (iEntries it)" using assms(2) by (metis drop_eq_Nil list.distinct(1) not_less)
  then show "iterator_Next it = (True, it\<lparr>iPos := iPos it + 1\<rparr>)" by (simp add: iterator_Next_def)
  have "iEntries it ! ?i = e" "drop (Suc ?i) (iEntries it) = es"
    using assms(2) lt by (metis Cons_nth_drop_Suc list.inject)+
  with lt assms(1) show "iterator_current (it\<lparr>iPos := iPos it + 1\<rparr>) = Some e" "rest (it\<lparr>iPos := iPos it + 1\<rparr>) = es"
    by (auto simp: iterator_current_def Suc_nat_eq_nat_zadd1 add.commute)
qed simp

definition page :: "kvScanner \<Rightarrow> nat" where
  "page sc = (if ksLimit sc > 0 then nat (ksLimit sc - ksTotal sc) else length (rest (ksItr sc)))"

text \<open>Draining a scanner gives its page of the remaining entries; the bookmark is the next key.\<close>

lemma kvScanner_drain_spec:
  assumes "-1 \<le> iPos (ksItr sc)" and "list_all2 (\<lambda>e (k, vv). \<exists>ns. entry_ok cd e ns k vv) (rest (ksItr sc)) kvs"
  shows "fst (kvScanner_drain cd sc) = map (\<lambda>(k, vv). Inr \<lparr>ckNamespace = ksNamespace sc, ckKey = k, kvVal = vv\<rparr>) (take (page sc) kvs) \<and>
    GetBookmarkAndClose (snd (kvScanner_drain cd sc)) = Inr (case drop (page sc) kvs of [] \<Rightarrow> [] | (k, _) # _ \<Rightarrow> k)"
  using assms
proof (induction kvs arbitrary: sc)
  case Nil
  then have n: "iterator_Next (ksItr sc) = (False, (ksItr sc)\<lparr>iPos := int (length (iEntries (ksItr sc)))\<rparr>)"
    by (simp add: iterator_Next_Nil)
  show ?case
  proof (cases "ksLimit sc > 0 \<and> ksTotal sc \<ge> ksLimit sc")
    case True
    then show ?thesis by (simp add: kvScanner_drain.simps [of cd sc] kvScanner_Next_def GetBookmarkAndClose_def n)
  next
    case False
    then have "kvScanner_Next cd sc = Inr (None, sc\<lparr>ksItr := (ksItr sc)\<lparr>iPos := int (length (iEntries (ksItr sc)))\<rparr>\<rparr>)"
      by (simp only: kvScanner_Next_def n Let_def) simp
    then show ?thesis by (simp add: kvScanner_drain.simps [of cd sc] GetBookmarkAndClose_def iterator_Next_def)
  qed
next
  case (Cons kv kvs)
  obtain k vv where kv: "kv = (k, vv)" by fastforce
  from Cons.prems(2) kv obtain e es ns where r: "rest (ksItr sc) = e # es" and e: "entry_ok cd e ns k vv"
    and es: "list_all2 (\<lambda>e (k, vv). \<exists>ns. entry_ok cd e ns k vv) es kvs" by (auto simp: list_all2_Cons2)
  obtain it' where
    it': "iterator_Next (ksItr sc) = (True, it')" "iterator_current it' = Some e" "rest it' = es" "iPos it' = iPos (ksItr sc) + 1"
    by (rule iterator_Next_Cons [OF Cons.prems(1) r]) simp
  have key: "bindR (Iterator_Key it') decodeDataKey = Inr (ns, k)" "decodeValue cd (Iterator_Value it') = Inr vv"
    using e it'(2) by (simp_all add: entry_ok_def Iterator_Key_def Iterator_Value_def)
  then obtain dk where dk: "Iterator_Key it' = Inr dk" "decodeDataKey dk = Inr (ns, k)" by (auto simp: bindR_Inr_iff)
  show ?case
  proof (cases "ksLimit sc > 0 \<and> ksTotal sc \<ge> ksLimit sc")
    case True
    then have "kvScanner_drain cd sc = ([], sc)" "page sc = 0"
      by (simp_all add: kvScanner_drain.simps [of cd sc] kvScanner_Next_def page_def)
    then show ?thesis by (simp add: GetBookmarkAndClose_def it'(1) dk kv)
  next
    case False
    let ?sc = "sc\<lparr>ksItr := it', ksTotal := ksTotal sc + 1\<rparr>"
    have n: "kvScanner_Next cd sc = Inr (Some \<lparr>ckNamespace = ksNamespace sc, ckKey = k, kvVal = vv\<rparr>, ?sc)"
      using False by (auto simp: kvScanner_Next_def it'(1) dk key)
    have p: "page sc = Suc (page ?sc)" using False r it'(3) by (auto simp: page_def)
    have "-1 \<le> iPos (ksItr ?sc)" using Cons.prems(1) it'(4) by simp
    from Cons.IH [OF this] es it'(3) have "fst (kvScanner_drain cd ?sc) =
        map (\<lambda>(k, vv). Inr \<lparr>ckNamespace = ksNamespace sc, ckKey = k, kvVal = vv\<rparr>) (take (page ?sc) kvs)"
      "GetBookmarkAndClose (snd (kvScanner_drain cd ?sc)) = Inr (case drop (page ?sc) kvs of [] \<Rightarrow> [] | (k, _) # _ \<Rightarrow> k)"
      by simp_all
    then show ?thesis by (simp add: kvScanner_drain.simps [of cd sc] n p kv case_prod_unfold)
  qed
qed

lemma scan_page:
  assumes "ldb_invar vdb" and "nz ns"
  obtains sc where "GetStateRangeScanIteratorWithPagination vdb ns s e n = Inr sc"
    and "fst (kvScanner_drain (vdCodec vdb) sc) =
      map Inr (if n > 0 then take (nat n) (range_scan ns s e (ldb_state vdb ns)) else range_scan ns s e (ldb_state vdb ns))"
    and "n > 0 \<Longrightarrow> GetBookmarkAndClose (snd (kvScanner_drain (vdCodec vdb) sc)) =
      Inr (case drop (nat n) (range_scan ns s e (ldb_state vdb ns)) of [] \<Rightarrow> [] | kv # _ \<Rightarrow> ckKey kv)"
proof -
  obtain it where it: "GetStateRangeScanIteratorWithPagination vdb ns s e n = Inr (newKVScanner ns it n)" "iPos it = -1"
    "iEntries it =
      map (\<lambda>k. (constructLevelKey (vdName vdb) (encodeDataKey ns k), the (channel (vdName vdb) (vdDb vdb) (encodeDataKey ns k))))
        (filter (in_range s e) (sorted_list_of_set (dom (ldb_state vdb ns))))"
    by (rule range_iterator [OF assms, of s e n]) simp
  let ?sc = "newKVScanner ns it n"
  define ks where "ks = filter (in_range s e) (sorted_list_of_set (dom (ldb_state vdb ns)))"
  define kvs where "kvs = map (\<lambda>k. (k, the (ldb_state vdb ns k))) ks"
  have d: "data_ok vdb" "nz (vdName vdb)" using assms(1) by (simp_all add: ldb_invar_def)
  have "entry_ok (vdCodec vdb) (constructLevelKey (vdName vdb) (encodeDataKey ns k), the (channel (vdName vdb) (vdDb vdb) (encodeDataKey ns k)))
      ns k (the (ldb_state vdb ns k))" if "k \<in> set ks" for k
  proof -
    from that finite_dom_ldb_state obtain vv where vv: "ldb_state vdb ns k = Some vv" by (auto simp: ks_def)
    then show ?thesis using d assms(2) ldb_state_channel [OF d(1), of ns k vv] by (auto simp: entry_ok_def)
  qed
  then have "list_all2 (\<lambda>e (k, vv). \<exists>ns. entry_ok (vdCodec vdb) e ns k vv) (rest (ksItr ?sc)) kvs"
    by (auto simp: newKVScanner_def it(2,3) kvs_def simp flip: ks_def intro!: list_all2_all_nthI exI [of _ ns])
  from kvScanner_drain_spec [OF _ this] it(2)
  have dr: "fst (kvScanner_drain (vdCodec vdb) ?sc) = map (\<lambda>(k, vv). Inr \<lparr>ckNamespace = ns, ckKey = k, kvVal = vv\<rparr>) (take (page ?sc) kvs)"
    "GetBookmarkAndClose (snd (kvScanner_drain (vdCodec vdb) ?sc)) = Inr (case drop (page ?sc) kvs of [] \<Rightarrow> [] | (k, _) # _ \<Rightarrow> k)"
    by (simp_all add: newKVScanner_def)
  have rs: "range_scan ns s e (ldb_state vdb ns) = map (\<lambda>(k, vv). \<lparr>ckNamespace = ns, ckKey = k, kvVal = vv\<rparr>) kvs"
    by (simp add: range_scan_def mkKV_def ks_def kvs_def)
  have p: "page ?sc = (if n > 0 then nat n else length kvs)"
    by (simp add: page_def newKVScanner_def it(2,3) kvs_def ks_def)
  show thesis
  proof (rule that [OF it(1)])
    show "fst (kvScanner_drain (vdCodec vdb) ?sc) =
        map Inr (if n > 0 then take (nat n) (range_scan ns s e (ldb_state vdb ns)) else range_scan ns s e (ldb_state vdb ns))"
      unfolding dr p rs by (simp add: take_map case_prod_unfold)
    show "GetBookmarkAndClose (snd (kvScanner_drain (vdCodec vdb) ?sc)) =
        Inr (case drop (nat n) (range_scan ns s e (ldb_state vdb ns)) of [] \<Rightarrow> [] | kv # _ \<Rightarrow> ckKey kv)" if "n > 0"
      unfolding dr p rs using that by (simp add: drop_map case_prod_unfold split: list.splits)
  qed
qed

lemma leveldb_answers:
  assumes "ldb_invar vdb"
  shows "vdb_answers (leveldb_handle vdb) (ldb_state vdb)"
proof -
  have "db_GetStateRangeScanIterator (leveldb_handle vdb) ns s e = Inr (map Inr (range_scan ns s e (ldb_state vdb ns)))"
    if "nz ns" for ns s e
    by (rule scan_page [OF assms that, of s e 0]) (simp add: leveldb_handle_def GetStateRangeScanIterator_def)
  then show ?thesis
    using ldb_state_storable [of vdb] finite_dom_ldb_state [of vdb]
    by (simp add: vdb_answers_def GetState_state [OF assms] GetVersion_state [OF assms] storable_def leveldb_handle_def)
qed

text \<open>From its \<open>n\<close>-th element on, a sorted list without duplicates holds the elements not below that element.\<close>

lemma drop_sorted_filter:
  assumes "sorted xs" and "distinct xs" and "drop n xs = b # ys"
  shows "drop n xs = filter (\<lambda>k. b \<le> k) xs"
proof -
  have xs: "xs = take n xs @ (b # ys)" using assms(3) by (metis append_take_drop_id)
  have "\<forall>x \<in> set (take n xs). x < b"
    using assms(1,2) by (subst (asm) (1 2) xs) (auto simp: sorted_append le_less)
  moreover have "\<forall>y \<in> set ys. b \<le> y" using assms(1) by (subst (asm) xs) (auto simp: sorted_append)
  ultimately have "filter (\<lambda>k. b \<le> k) (take n xs @ (b # ys)) = b # ys"
    by (auto simp: filter_empty_conv not_le intro!: filter_True)
  with xs assms(3) show ?thesis by simp
qed

text \<open>
  C9. Pages: a scan with a positive page size returns the first results of the range, and its bookmark tells how to
  go on. An empty bookmark means that the page ended the range; otherwise a scan from the bookmark gives exactly the
  results that are left, so that the pages together are the range scan, with nothing lost or repeated.
\<close>

theorem pages_partition_the_range:
  assumes "ldb_invar vdb" and "nz ns" and "n > 0"
  shows "\<exists>sc b. GetStateRangeScanIteratorWithPagination vdb ns s e n = Inr sc \<and>
    GetBookmarkAndClose (snd (kvScanner_drain (vdCodec vdb) sc)) = Inr b \<and>
    map Inr (range_scan ns s e (ldb_state vdb ns)) =
      fst (kvScanner_drain (vdCodec vdb) sc) @ map Inr (if b = [] then [] else range_scan ns b e (ldb_state vdb ns))"
proof -
  define xs where "xs = filter (in_range s e) (sorted_list_of_set (dom (ldb_state vdb ns)))"
  have xs: "sorted xs" "distinct xs" by (simp_all add: xs_def sorted_wrt_filter)
  have rs: "range_scan ns s e (ldb_state vdb ns) = map (mkKV ns (ldb_state vdb ns)) xs" by (simp add: range_scan_def xs_def)
  have "(if b = [] then [] else range_scan ns b e (ldb_state vdb ns)) = drop (nat n) (range_scan ns s e (ldb_state vdb ns))"
    if b: "b = (case drop (nat n) xs of [] \<Rightarrow> [] | k # _ \<Rightarrow> k)" for b
  proof (cases "drop (nat n) xs")
    case Nil
    with b show ?thesis by (simp add: rs drop_map)
  next
    case (Cons k ys)
    from assms(3) Cons obtain x xs' where x: "xs = x # xs'" by (cases xs) auto
    with Cons assms(3) have "k \<in> set xs'" by (metis in_set_dropD list.set_intros(1) drop_Cons' zero_less_nat_eq less_numeral_extra(3))
    with xs x have "x < k" by (metis distinct.simps(2) le_less sorted_simps(2))
    then have "k \<noteq> []" by auto
    moreover have "k \<in> set xs" using \<open>k \<in> set xs'\<close> x by simp
    then have "s \<le> k" by (simp add: xs_def in_range_def)
    then have "filter (\<lambda>y. k \<le> y) xs = filter (in_range k e) (sorted_list_of_set (dom (ldb_state vdb ns)))"
      unfolding xs_def filter_filter by (intro filter_cong) (auto simp: in_range_def)
    ultimately show ?thesis
      using b Cons drop_sorted_filter [OF xs Cons] by (simp add: rs drop_map) (simp add: range_scan_def)
  qed
  moreover have "(case drop (nat n) (range_scan ns s e (ldb_state vdb ns)) of [] \<Rightarrow> [] | kv # _ \<Rightarrow> ckKey kv) =
      (case drop (nat n) xs of [] \<Rightarrow> [] | k # _ \<Rightarrow> k)"
    by (simp add: rs drop_map mkKV_def split: list.splits)
  ultimately have b: "(if b = [] then [] else range_scan ns b e (ldb_state vdb ns)) = drop (nat n) (range_scan ns s e (ldb_state vdb ns))"
    if "b = (case drop (nat n) (range_scan ns s e (ldb_state vdb ns)) of [] \<Rightarrow> [] | kv # _ \<Rightarrow> ckKey kv)" for b
    using that by metis
  show ?thesis
  proof (rule scan_page [OF assms(1,2), of s e n], intro exI conjI)
    fix sc assume "fst (kvScanner_drain (vdCodec vdb) sc) =
      map Inr (if n > 0 then take (nat n) (range_scan ns s e (ldb_state vdb ns)) else range_scan ns s e (ldb_state vdb ns))"
    then show "map Inr (range_scan ns s e (ldb_state vdb ns)) = fst (kvScanner_drain (vdCodec vdb) sc) @
        map Inr (if (case drop (nat n) (range_scan ns s e (ldb_state vdb ns)) of [] \<Rightarrow> [] | kv # _ \<Rightarrow> ckKey kv) = [] then []
          else range_scan ns (case drop (nat n) (range_scan ns s e (ldb_state vdb ns)) of [] \<Rightarrow> [] | kv # _ \<Rightarrow> ckKey kv) e (ldb_state vdb ns))"
      unfolding b [OF refl] using assms(3) by (simp flip: map_append)
  qed (use assms(3) in simp_all)
qed

section \<open>Applying updates\<close>

text \<open>A batch the database can store: namespaces without a zero byte, values with a version, and metadata that is absent
  rather than empty.\<close>

definition ldb_admissible :: "UpdateBatch \<Rightarrow> bool" where
  "ldb_admissible b \<longleftrightarrow>
     wf_batch b \<and> (\<forall>(ns, m) \<in> set (Updates b). nz ns \<and> (\<forall>(k, vv) \<in> set m. vvValue vv \<noteq> None \<longrightarrow> storable vv))"

definition stored :: "DBValue codec \<Rightarrow> VersionedValue \<Rightarrow> bytes option" where
  "stored cd vv = (if vvValue vv = None then None else Some (projr (encodeValue cd vv)))"

definition update_op :: "DBValue codec \<Rightarrow> gostring \<Rightarrow> gostring \<Rightarrow> gostring \<times> VersionedValue \<Rightarrow> batch_op" where
  "update_op cd name ns = (\<lambda>(k, vv).
     case stored cd vv of
       None \<Rightarrow> OpDelete (constructLevelKey name (encodeDataKey ns k))
     | Some v \<Rightarrow> OpPut (constructLevelKey name (encodeDataKey ns k)) v)"

lemma op_effect_update_op [simp]:
  "op_effect (update_op cd name ns (k, vv)) = (constructLevelKey name (encodeDataKey ns k), stored cd vv)"
  by (simp add: update_op_def split: option.splits)

lemma applyUpdate_step:
  assumes "vvValue vv \<noteq> None \<longrightarrow> storable vv" and "codec_total cd"
  shows "\<exists>B'. applyUpdate cd ns (k, vv) B = Inr B' \<and> ubDbName B' = ubDbName B \<and>
    ubOps B' = ubOps B @ [update_op cd (ubDbName B) ns (k, vv)]"
proof (cases "vvValue vv = None")
  case True
  then show ?thesis by (simp add: applyUpdate_def ldbBatch_Delete_def Let_def update_op_def stored_def)
next
  case False
  with assms obtain b where "encodeValue cd vv = Inr b" by (metis encodeValue_decodeValue)
  with False show ?thesis by (auto simp: applyUpdate_def ldbBatch_Put_def Let_def update_op_def stored_def)
qed

lemma applyUpdates_ns:
  assumes "\<forall>(k, vv) \<in> set m. vvValue vv \<noteq> None \<longrightarrow> storable vv" and "codec_total cd"
  shows "\<exists>B'. foldR (applyUpdate cd ns) m B = Inr B' \<and> ubDbName B' = ubDbName B \<and>
    ubOps B' = ubOps B @ map (update_op cd (ubDbName B) ns) m"
  using assms(1)
proof (induction m arbitrary: B)
  case (Cons e m)
  obtain k vv where e: "e = (k, vv)" by fastforce
  with Cons.prems assms(2) obtain B1 where "applyUpdate cd ns (k, vv) B = Inr B1" "ubDbName B1 = ubDbName B"
    "ubOps B1 = ubOps B @ [update_op cd (ubDbName B) ns (k, vv)]"
    using applyUpdate_step [of vv cd ns k B] by auto
  with Cons.IH [of B1] Cons.prems e show ?case by simp
qed simp

definition update_ops :: "DBValue codec \<Rightarrow> gostring \<Rightarrow> UpdateBatch \<Rightarrow> gostring list \<Rightarrow> batch_op list" where
  "update_ops cd name b nss = concat (map (\<lambda>ns. map (update_op cd name ns) (GetUpdates b ns)) nss)"

lemma applyUpdates_all:
  assumes "\<forall>ns \<in> set nss. \<forall>(k, vv) \<in> set (GetUpdates b ns). vvValue vv \<noteq> None \<longrightarrow> storable vv" and "codec_total cd"
  shows "\<exists>B'. foldR (\<lambda>ns. foldR (applyUpdate cd ns) (GetUpdates b ns)) nss B = Inr B' \<and> ubDbName B' = ubDbName B \<and>
    ubOps B' = ubOps B @ update_ops cd (ubDbName B) b nss"
  using assms(1)
proof (induction nss arbitrary: B)
  case (Cons ns nss)
  then obtain B1 where "foldR (applyUpdate cd ns) (GetUpdates b ns) B = Inr B1" "ubDbName B1 = ubDbName B"
    "ubOps B1 = ubOps B @ map (update_op cd (ubDbName B) ns) (GetUpdates b ns)"
    using applyUpdates_ns [OF _ assms(2), of "GetUpdates b ns" ns B] by auto
  with Cons.IH [of B1] Cons.prems show ?case by (simp add: update_ops_def)
qed (simp add: update_ops_def)

lemma effects_SomeD: "effects ops x = Some y \<Longrightarrow> \<exists>p \<in> set ops. op_effect p = (x, y)"
  by (force simp: effects_def dest: map_of_SomeD)

lemma effects_ns:
  assumes "nz ns" and "nz ns'" and "wf_map m"
  shows "effects (map (update_op cd name ns) m) (constructLevelKey name (encodeDataKey ns' key)) =
    (if ns' = ns then map_option (stored cd) (map_of m key) else None)"
  using assms(3)
proof (induction m)
  case (Cons e m)
  obtain k vv where e: "e = (k, vv)" by fastforce
  have "map_of m k = None" using Cons.prems e by (simp add: map_of_eq_None_iff)
  with Cons assms(1,2) e show ?case
    by (auto simp: effects_Cons [of "update_op cd name ns (k, vv)"] map_add_def encodeDataKey_eq_iff split: option.splits)
qed simp

lemma effects_update_ops:
  assumes "wf_batch b" and "\<forall>ns \<in> set nss. nz ns" and "nz ns'" and "distinct nss"
  shows "effects (update_ops cd name b nss) (constructLevelKey name (encodeDataKey ns' key)) =
    (if ns' \<in> set nss then map_option (stored cd) (UpdateBatch_Get b ns' key) else None)"
  using assms(2,4)
proof (induction nss)
  case (Cons ns nss)
  have "effects (map (update_op cd name ns) (GetUpdates b ns)) (constructLevelKey name (encodeDataKey ns' key)) =
    (if ns' = ns then map_option (stored cd) (UpdateBatch_Get b ns key) else None)"
    using effects_ns [of ns ns' "GetUpdates b ns"] Cons.prems assms(1,3) by (auto simp: wf_GetUpdates GetUpdates_map_of)
  with Cons show ?case by (auto simp: update_ops_def map_add_def split: option.splits)
qed (simp add: update_ops_def)

text \<open>The effect of a batch on the engine: the data keys of the batch, the savepoint, and nothing else.\<close>

lemma level_data_inj:
  "constructLevelKey name (encodeDataKey ns key) \<noteq> constructLevelKey name savePointKey"
  "constructLevelKey name savePointKey \<noteq> constructLevelKey name (encodeDataKey ns key)"
  by simp_all

lemma update_ops_SomeD:
  assumes "effects (update_ops cd name b nss) x = Some y"
  obtains ns key vv where "ns \<in> set nss" and "(key, vv) \<in> set (GetUpdates b ns)"
    and "x = constructLevelKey name (encodeDataKey ns key)" and "y = stored cd vv"
  using effects_SomeD [OF assms] by (fastforce simp: update_ops_def)

lemma admissible_storable:
  assumes "ldb_admissible b" and "(key, vv) \<in> set (GetUpdates b ns)" and "vvValue vv \<noteq> None"
  shows "storable vv"
proof -
  from assms(2) obtain m where "map_of (Updates b) ns = Some m" "(key, vv) \<in> set m"
    by (cases "map_of (Updates b) ns") (auto simp: GetUpdates_def)
  with assms(1,3) show ?thesis by (fastforce simp: ldb_admissible_def dest: map_of_SomeD)
qed

lemma admissible_namespaces:
  assumes "ldb_admissible b"
  shows "wf_batch b" and "\<forall>ns \<in> set (GetUpdatedNamespaces b). nz ns" and "distinct (GetUpdatedNamespaces b)"
  using assms by (auto simp: ldb_admissible_def GetUpdatedNamespaces_def wf_batch_def)

definition engine_after :: "UpdateBatch \<Rightarrow> Height option \<Rightarrow> versionedDB \<Rightarrow> leveldb \<Rightarrow> bool" where
  "engine_after b h vdb d' \<longleftrightarrow> healthy d' \<and>
     (\<forall>k. map_of (ldStore d') k =
        (if k = constructLevelKey (vdName vdb) savePointKey \<and> h \<noteq> None
         then Some (opv (BlockNum (the h)) @ opv (TxNum (the h)))
         else case effects (update_ops (vdCodec vdb) (vdName vdb) b (GetUpdatedNamespaces b)) k of
                None \<Rightarrow> map_of (ldStore (vdDb vdb)) k | Some v \<Rightarrow> v))"

lemma ApplyUpdates_engine:
  assumes "healthy (vdDb vdb)" and "codec_total (vdCodec vdb)" and "ldb_admissible b"
  obtains d' where "ApplyUpdates b h vdb = Inr (vdb\<lparr>vdDb := d'\<rparr>)" and "engine_after b h vdb d'"
proof -
  let ?B0 = "DBHandle_NewUpdateBatch (vdName vdb)"
  let ?ops = "update_ops (vdCodec vdb) (vdName vdb) b (GetUpdatedNamespaces b)"
  have ok: "\<forall>ns \<in> set (GetUpdatedNamespaces b). \<forall>(k, vv) \<in> set (GetUpdates b ns). vvValue vv \<noteq> None \<longrightarrow> storable vv"
    using admissible_storable [OF assms(3)] by blast
  obtain B where B: "foldR (\<lambda>ns. foldR (applyUpdate (vdCodec vdb) ns) (GetUpdates b ns)) (GetUpdatedNamespaces b) ?B0 = Inr B"
    "ubDbName B = vdName vdb" "ubOps B = ?ops"
    using applyUpdates_all [OF ok assms(2), of ?B0] by (auto simp: DBHandle_NewUpdateBatch_def)
  define B' where "B' = (case h of None \<Rightarrow> B | Some hh \<Rightarrow> projr (ldbBatch_Put savePointKey (Some (opv (BlockNum hh) @ opv (TxNum hh))) B))"
  have B': "(case h of None \<Rightarrow> Inr B | Some h \<Rightarrow> bindR (ToBytes h) (\<lambda>b. ldbBatch_Put savePointKey (Some b) B)) = Inr B'"
    by (simp add: B'_def ToBytes_opv ldbBatch_Put_def Let_def split: option.splits)
  have eff: "effects (ubOps B') k = (if k = constructLevelKey (vdName vdb) savePointKey \<and> h \<noteq> None
       then Some (Some (opv (BlockNum (the h)) @ opv (TxNum (the h)))) else effects ?ops k)" for k
    by (auto simp: B'_def B(2,3) ldbBatch_Put_def Let_def map_add_def split: option.splits)
  from DBHandle_WriteBatch_Inr [OF assms(1), of B'] obtain d' where d': "DBHandle_WriteBatch (Some B') (vdDb vdb) = Inr d'" "healthy d'"
    "\<And>k. map_of (ldStore d') k = (case effects (ubOps B') k of None \<Rightarrow> map_of (ldStore (vdDb vdb)) k | Some v \<Rightarrow> v)" by auto
  show thesis
    by (rule that [of d']) (auto simp: ApplyUpdates_def B(1) B' d' eff engine_after_def)
qed

lemma engine_after_data:
  assumes "engine_after b h vdb d'" and "ldb_admissible b" and "nz ns"
  shows "channel (vdName vdb) d' (encodeDataKey ns key) =
    (case UpdateBatch_Get b ns key of
       None \<Rightarrow> channel (vdName vdb) (vdDb vdb) (encodeDataKey ns key)
     | Some vv \<Rightarrow> stored (vdCodec vdb) vv)"
proof -
  have "UpdateBatch_Get b ns key = None" if "ns \<notin> set (GetUpdatedNamespaces b)"
    using that by (simp add: UpdateBatch_Get_def GetUpdatedNamespaces_def flip: map_of_eq_None_iff)
  then show ?thesis
    using assms(1) effects_update_ops [OF admissible_namespaces(1,2) [OF assms(2)] assms(3) admissible_namespaces(3) [OF assms(2)],
        of "vdCodec vdb" "vdName vdb" key]
    by (auto simp: channel_def engine_after_def level_data_inj split: option.splits)
qed

lemma stored_decodes:
  assumes "codec_total cd" and "stored cd vv = Some v" and "storable vv"
  shows "decodeValue cd v = Inr vv"
  using assms(2) encodeValue_decodeValue [OF assms(1,3)] by (fastforce simp: stored_def split: if_splits)

lemma engine_after_state:
  assumes "engine_after b h vdb d'" and "ldb_admissible b" and "codec_total (vdCodec vdb)" and "nz ns"
  shows "ldb_state (vdb\<lparr>vdDb := d'\<rparr>) ns = overlay (ldb_state vdb) b ns"
proof
  fix key show "ldb_state (vdb\<lparr>vdDb := d'\<rparr>) ns key = overlay (ldb_state vdb) b ns key"
  proof (cases "UpdateBatch_Get b ns key")
    case (Some vv)
    then have "(key, vv) \<in> set (GetUpdates b ns)" by (metis GetUpdates_map_of map_of_SomeD)
    with admissible_storable [OF assms(2)] have "vvValue vv \<noteq> None \<longrightarrow> storable vv" by blast
    with Some stored_decodes [OF assms(3), of vv] engine_after_data [OF assms(1,2,4), of key] show ?thesis
      by (auto simp: ldb_state_def overlay_def VersionedValue_IsDelete_def stored_def)
  qed (auto simp: ldb_state_def overlay_def engine_after_data [OF assms(1,2,4)] split: option.splits)
qed

lemma engine_after_data_ok:
  assumes "engine_after b h vdb d'" and "ldb_admissible b" and "codec_total (vdCodec vdb)" and "data_ok vdb"
  shows "data_ok (vdb\<lparr>vdDb := d'\<rparr>)"
  unfolding data_ok_def
proof (intro allI impI)
  let ?e = "effects (update_ops (vdCodec vdb) (vdName vdb) b (GetUpdatedNamespaces b))"
  fix k v assume "channel (vdName (vdb\<lparr>vdDb := d'\<rparr>)) (vdDb (vdb\<lparr>vdDb := d'\<rparr>)) (dataKeyPrefix @ k) = Some v"
  then have v: "(case ?e (constructLevelKey (vdName vdb) (dataKeyPrefix @ k)) of
      None \<Rightarrow> channel (vdName vdb) (vdDb vdb) (dataKeyPrefix @ k) | Some y \<Rightarrow> y) = Some v"
    using assms(1) by (auto simp: channel_def engine_after_def split: option.splits)
  show "\<exists>ns key vv. nz ns \<and> dataKeyPrefix @ k = encodeDataKey ns key \<and> decodeValue (vdCodec (vdb\<lparr>vdDb := d'\<rparr>)) v = Inr vv"
  proof (cases "?e (constructLevelKey (vdName vdb) (dataKeyPrefix @ k))")
    case None
    with v assms(4) show ?thesis by (simp add: data_ok_def)
  next
    case (Some y)
    then obtain ns key vv where *: "ns \<in> set (GetUpdatedNamespaces b)" "(key, vv) \<in> set (GetUpdates b ns)"
      "constructLevelKey (vdName vdb) (dataKeyPrefix @ k) = constructLevelKey (vdName vdb) (encodeDataKey ns key)"
      "y = stored (vdCodec vdb) vv"
      by (rule update_ops_SomeD)
    with v Some have st: "stored (vdCodec vdb) vv = Some v" by simp
    then have "decodeValue (vdCodec vdb) v = Inr vv"
      using admissible_storable [OF assms(2) *(2)] by (intro stored_decodes [OF assms(3)]) (auto simp: stored_def split: if_splits)
    with * admissible_namespaces(2) [OF assms(2)] show ?thesis by auto
  qed
qed

lemma engine_after_elsewhere:
  assumes "engine_after b h vdb d'"
  shows "nz m \<Longrightarrow> nz (vdName vdb) \<Longrightarrow> m \<noteq> vdName vdb \<Longrightarrow> channel m d' k = channel m (vdDb vdb) k"
    and "channel (vdName vdb) d' savePointKey =
      (case h of None \<Rightarrow> channel (vdName vdb) (vdDb vdb) savePointKey | Some hh \<Rightarrow> Some (opv (BlockNum hh) @ opv (TxNum hh)))"
proof -
  let ?e = "effects (update_ops (vdCodec vdb) (vdName vdb) b (GetUpdatedNamespaces b))"
  have "?e (constructLevelKey m k) = None" if "nz m" "nz (vdName vdb)" "m \<noteq> vdName vdb"
    using that by (metis constructLevelKey_eq_iff not_None_eq update_ops_SomeD)
  then show "nz m \<Longrightarrow> nz (vdName vdb) \<Longrightarrow> m \<noteq> vdName vdb \<Longrightarrow> channel m d' k = channel m (vdDb vdb) k"
    using assms by (simp add: channel_def engine_after_def constructLevelKey_eq_iff)
  have "?e (constructLevelKey (vdName vdb) savePointKey) = None"
    by (metis level_data_inj(2) not_None_eq update_ops_SomeD)
  then show "channel (vdName vdb) d' savePointKey =
      (case h of None \<Rightarrow> channel (vdName vdb) (vdDb vdb) savePointKey | Some hh \<Rightarrow> Some (opv (BlockNum hh) @ opv (TxNum hh)))"
    using assms by (simp add: channel_def engine_after_def split: option.splits)
qed

lemma ApplyUpdates_spec:
  assumes "ldb_invar vdb" and "ldb_admissible b"
  obtains d' where "ApplyUpdates b h vdb = Inr (vdb\<lparr>vdDb := d'\<rparr>)" and "engine_after b h vdb d'"
    and "ldb_invar (vdb\<lparr>vdDb := d'\<rparr>)"
proof -
  have inv: "codec_total (vdCodec vdb)" "nz (vdName vdb)" "healthy (vdDb vdb)" "data_ok vdb"
    using assms(1) by (simp_all add: ldb_invar_def)
  obtain d' where d': "ApplyUpdates b h vdb = Inr (vdb\<lparr>vdDb := d'\<rparr>)" "engine_after b h vdb d'"
    by (rule ApplyUpdates_engine [OF inv(3,1) assms(2), of h])
  moreover have "ldb_invar (vdb\<lparr>vdDb := d'\<rparr>)"
    using inv engine_after_data_ok [OF d'(2) assms(2) inv(1,4)] d'(2) by (simp add: ldb_invar_def engine_after_def)
  ultimately show thesis by (rule that)
qed

interpretation ldb: versioned_db leveldb_handle ldb_state ldb_invar ApplyUpdates ldb_admissible
proof
  show "vdb_answers (leveldb_handle s) (ldb_state s)" if "ldb_invar s" for s
    using that by (rule leveldb_answers)
  show "\<exists>s'. ApplyUpdates b h s = Inr s'" if "ldb_invar s" "ldb_admissible b" for s b h
    by (rule ApplyUpdates_spec [OF that, of h]) blast
  show "ldb_state s' ns = overlay (ldb_state s) b ns"
    if "ldb_invar s" "ldb_admissible b" "ApplyUpdates b h s = Inr s'" "nz ns" for s b h s' ns
    by (rule ApplyUpdates_spec [OF that(1,2), of h])
       (use that(3) engine_after_state [OF _ that(2) _ that(4)] that(1) in \<open>simp add: ldb_invar_def\<close>)
  show "ldb_invar s'" if "ldb_invar s" "ldb_admissible b" "ApplyUpdates b h s = Inr s'" for s b h s'
    by (rule ApplyUpdates_spec [OF that(1,2), of h]) (use that(3) in simp)
qed

lemma NewHeightFromBytes_opv: "NewHeightFromBytes (opv (BlockNum h) @ opv (TxNum h)) = Inr (h, length (opv (BlockNum h) @ opv (TxNum h)))"
  using FromBytes_ToBytes [OF ToBytes_opv, of h "[]"] by simp

lemma GetLatestSavePoint_after:
  "engine_after b (Some h) vdb d' \<Longrightarrow> GetLatestSavePoint (vdb\<lparr>vdDb := d'\<rparr>) = Inr (Some h)"
  by (auto simp: GetLatestSavePoint_def DBHandle_Get_def DB_Get_def engine_after_def NewHeightFromBytes_opv)

lemma ApplyUpdates_other_channel:
  assumes "ldb_invar s" and "ldb_admissible b" and "ApplyUpdates b h s = Inr s'" and "nz m" and "m \<noteq> vdName s"
  shows "channel m (vdDb s') k = channel m (vdDb s) k" and "vdName s' = vdName s"
  by (rule ApplyUpdates_spec [OF assms(1,2), of h],
      use assms engine_after_elsewhere(1) [of b h s _ m k] in \<open>simp add: ldb_invar_def\<close>)+

text \<open>
  C6. The state database on goleveldb implements the interface validation and simulation read through. From a well-formed
  database, committing any sequence of admissible batches succeeds; afterwards a read of a key returns its last write,
  nothing if that write was a delete, and the earlier contents if there was none; a range scan returns exactly the
  keys of the range in order, with the same values; the savepoint is the height committed last; and no key of any
  other channel of the shared engine has changed.
\<close>

theorem leveldb_implements_the_state_database:
  assumes "ldb_invar s" and "\<forall>p \<in> set bs. ldb_admissible (fst p)"
  shows "\<exists>s'. foldR (\<lambda>p. ApplyUpdates (fst p) (snd p)) bs s = Inr s' \<and> ldb_invar s' \<and>
    (\<forall>ns key. nz ns \<longrightarrow> GetState s' ns key = Inr (fold (\<lambda>p st. overlay st (fst p)) bs (ldb_state s) ns key)) \<and>
    (\<forall>ns a e. nz ns \<longrightarrow> db_GetStateRangeScanIterator (leveldb_handle s') ns a e =
       Inr (map Inr (range_scan ns a e (fold (\<lambda>p st. overlay st (fst p)) bs (ldb_state s) ns)))) \<and>
    (\<forall>h. bs \<noteq> [] \<longrightarrow> snd (last bs) = Some h \<longrightarrow> GetLatestSavePoint s' = Inr (Some h)) \<and>
    (\<forall>m k. nz m \<longrightarrow> m \<noteq> vdName s \<longrightarrow> channel m (vdDb s') k = channel m (vdDb s) k)"
proof -
  obtain s' where s': "foldR (\<lambda>p. ApplyUpdates (fst p) (snd p)) bs s = Inr s'" "ldb_invar s'"
    "\<forall>ns. nz ns \<longrightarrow> ldb_state s' ns = fold (\<lambda>p st. overlay st (fst p)) bs (ldb_state s) ns"
    using ldb.apply_sequence [OF assms] by blast
  have "ldb_invar s' \<and> vdName s' = vdName s \<and> (\<forall>m k. nz m \<longrightarrow> m \<noteq> vdName s \<longrightarrow> channel m (vdDb s') k = channel m (vdDb s) k)"
  proof (rule foldR_invariant [OF s'(1)])
    fix p u v assume "p \<in> set bs" and u: "ldb_invar u \<and> vdName u = vdName s \<and>
        (\<forall>m k. nz m \<longrightarrow> m \<noteq> vdName s \<longrightarrow> channel m (vdDb u) k = channel m (vdDb s) k)"
      and v: "ApplyUpdates (fst p) (snd p) u = Inr v"
    with assms(2) have a: "ldb_admissible (fst p)" by blast
    have "vdName v = vdName u" by (rule ApplyUpdates_spec [of u "fst p" "snd p"]) (use u v a in simp_all)
    then show "ldb_invar v \<and> vdName v = vdName s \<and>
        (\<forall>m k. nz m \<longrightarrow> m \<noteq> vdName s \<longrightarrow> channel m (vdDb v) k = channel m (vdDb s) k)"
      using u v a ldb.apply_invar [of u "fst p" "snd p" v] ApplyUpdates_other_channel(1) [of u "fst p" "snd p" v] by simp
  qed (use assms(1) in simp)
  moreover have "GetLatestSavePoint s' = Inr (Some h)" if ne: "bs \<noteq> []" and h: "snd (last bs) = Some h" for h
  proof -
    obtain ps p where bs: "bs = ps @ [p]" using ne by (cases bs rule: rev_cases) auto
    with s'(1) obtain u where u: "foldR (\<lambda>p. ApplyUpdates (fst p) (snd p)) ps s = Inr u" "ApplyUpdates (fst p) (Some h) u = Inr s'"
      using h by (auto simp: foldR_append bindR_Inr_iff)
    have "\<forall>p \<in> set ps. ldb_admissible (fst p)" using assms(2) bs by simp
    from ldb.apply_sequence [OF assms(1) this] u(1) have "ldb_invar u" by force
    then show ?thesis
      by (rule ApplyUpdates_spec [of u "fst p" "Some h"]) (use assms(2) bs u(2) GetLatestSavePoint_after in simp_all)
  qed
  moreover have "GetState s' ns key = Inr (fold (\<lambda>p st. overlay st (fst p)) bs (ldb_state s) ns key)"
    "db_GetStateRangeScanIterator (leveldb_handle s') ns a e =
       Inr (map Inr (range_scan ns a e (fold (\<lambda>p st. overlay st (fst p)) bs (ldb_state s) ns)))" if "nz ns" for ns key a e
    using that s'(3) GetState_state [OF s'(2), of ns key] vdb_answersD(3) [OF leveldb_answers [OF s'(2)] that, of a e] by simp_all
  ultimately show ?thesis using s'(1) by blast
qed

section \<open>Full scans\<close>

definition scan_kv :: "DBValue codec \<Rightarrow> bytes \<times> bytes \<Rightarrow> VersionedKV" where
  "scan_kv cd e =
     (let (ns, key) = projr (bindR (retrieveAppKey (fst e)) decodeDataKey) in
      \<lparr>ckNamespace = ns, ckKey = key, kvVal = projr (decodeValue cd (snd e))\<rparr>)"

text \<open>The entries a full scan meets: data keys in strictly increasing order, with values that decode.\<close>

definition data_entry :: "DBValue codec \<Rightarrow> gostring \<Rightarrow> bytes \<times> bytes \<Rightarrow> bool" where
  "data_entry cd name e \<longleftrightarrow>
     (\<exists>ns key vv. nz ns \<and> fst e = constructLevelKey name (encodeDataKey ns key) \<and> decodeValue cd (snd e) = Inr vv)"

definition wf_scan :: "DBValue codec \<Rightarrow> gostring \<Rightarrow> iterator \<Rightarrow> bool" where
  "wf_scan cd name it \<longleftrightarrow> sorted (map fst (iEntries it)) \<and> (\<forall>e \<in> set (iEntries it). data_entry cd name e)"

lemma data_entryE:
  assumes "data_entry cd name e" and "nz name"
  obtains ns key vv where "nz ns" and "fst e = constructLevelKey name (encodeDataKey ns key)"
    and "bindR (retrieveAppKey (fst e)) decodeDataKey = Inr (ns, key)" and "decodeValue cd (snd e) = Inr vv"
    and "scan_kv cd e = \<lparr>ckNamespace = ns, ckKey = key, kvVal = vv\<rparr>"
  using assms unfolding data_entry_def scan_kv_def by force

text \<open>Between a key of a namespace and the start of the next namespace there are only keys of this namespace.\<close>

lemma same_namespace:
  assumes "nz ns" and "nz ns'" and "encodeDataKey ns key \<le> encodeDataKey ns' key'"
    and "encodeDataKey ns' key' < dataKeyStarterForNextNamespace ns"
  shows "ns' = ns"
proof -
  have "((dataKeyPrefix @ ns) @ [zero]) @ [] \<le> encodeDataKey ns' key'"
    using order_trans [OF _ assms(3), of "encodeDataKey ns []"] by (simp add: encodeDataKey_def)
  with assms(4) separator_range [of "dataKeyPrefix @ ns" "[]" "encodeDataKey ns' key'"]
  obtain z where "encodeDataKey ns' key' = encodeDataKey ns z"
    by (auto simp: dataKeyStarterForNextNamespace_def encodeDataKey_def)
  with assms(1,2) show ?thesis by (simp add: encodeDataKey_eq_iff)
qed

text \<open>Seeking to the start of the next namespace and stepping back skips entries of the current namespace only, and at
  least the current one.\<close>

lemma skip_namespace:
  assumes "wf_scan cd name it" and "nz name" and "0 \<le> iPos it" and "iPos it < int (length (iEntries it))"
    and e: "e = iEntries it ! nat (iPos it)" and ns: "ns = ckNamespace (scan_kv cd e)"
  obtains it' xs where "snd (iterator_Prev (snd (Iterator_Seek name (dataKeyStarterForNextNamespace ns) it))) = it'"
    and "iEntries it' = iEntries it" and "iPos it \<le> iPos it'" and "rest it = xs @ rest it'"
    and "\<forall>x \<in> set xs. ckNamespace (scan_kv cd x) = ns"
proof -
  define st where "st = constructLevelKey name (dataKeyStarterForNextNamespace ns)"
  define i where "i = length (takeWhile (\<lambda>e. fst e < st) (iEntries it))"
  define p where "p = nat (iPos it)"
  have p: "p < length (iEntries it)" "e = iEntries it ! p" using assms(3,4) e by (auto simp: p_def)
  then have "data_entry cd name e" using assms(1) by (auto simp: wf_scan_def)
  then obtain key where k: "nz ns" "fst e = constructLevelKey name (encodeDataKey ns key)"
    using assms(2) ns by (elim data_entryE) auto
  then have "fst e < st"
    by (simp add: st_def encodeDataKey_def dataKeyStarterForNextNamespace_def char_less_1)
  have le: "fst (iEntries it ! j) \<le> fst (iEntries it ! l)" if "j \<le> l" "l < length (iEntries it)" for j l
    using assms(1) that sorted_nth_mono [of "map fst (iEntries it)" j l] by (simp add: wf_scan_def)
  have "Suc p \<le> i"
  proof (rule ccontr)
    assume "\<not> Suc p \<le> i"
    then have "\<not> fst (iEntries it ! i) < st" using p(1) unfolding i_def by (intro nth_length_takeWhile) simp
    with le [of i p] \<open>\<not> Suc p \<le> i\<close> p \<open>fst e < st\<close> show False by (auto dest: order.strict_trans1)
  qed
  define xs where "xs = take (i - Suc p) (drop (Suc p) (iEntries it))"
  have "ckNamespace (scan_kv cd x) = ns" if x: "x \<in> set xs" for x
  proof -
    from x obtain j where j: "j < i - Suc p" "Suc p + j < length (iEntries it)" "x = iEntries it ! (Suc p + j)"
      by (auto simp: xs_def in_set_conv_nth)
    then have "x \<in> set (takeWhile (\<lambda>e. fst e < st) (iEntries it))"
      using takeWhile_nth [of "Suc p + j" "\<lambda>e. fst e < st" "iEntries it"] unfolding i_def
      by (metis add.commute less_diff_conv nth_mem)
    then have lt: "fst x < st" by (auto dest: set_takeWhileD)
    have "data_entry cd name x" using j(2,3) assms(1) by (auto simp: wf_scan_def)
    then obtain ns' key' where x': "nz ns'" "fst x = constructLevelKey name (encodeDataKey ns' key')"
      "ckNamespace (scan_kv cd x) = ns'"
      using assms(2) by (elim data_entryE) auto
    with lt le [of p "Suc p + j"] j p k show ?thesis using same_namespace [of ns ns' key key'] by (simp add: st_def)
  qed
  moreover have "rest it = xs @ drop i (iEntries it)"
  proof -
    have "drop i (iEntries it) = drop (i - Suc p) (drop (Suc p) (iEntries it))" using \<open>Suc p \<le> i\<close> by simp
    moreover have "nat (iPos it + 1) = Suc p" using assms(3) by (simp add: p_def)
    ultimately show ?thesis by (simp add: xs_def del: drop_drop)
  qed
  moreover have "snd (iterator_Prev (snd (Iterator_Seek name (dataKeyStarterForNextNamespace ns) it))) = it\<lparr>iPos := int i - 1\<rparr>"
    using \<open>Suc p \<le> i\<close> by (simp add: iterator_Prev_def Iterator_Seek_def iterator_Seek_def Let_def i_def st_def)
  ultimately show thesis
    using \<open>Suc p \<le> i\<close> assms(3) by (intro that [of "it\<lparr>iPos := int i - 1\<rparr>" xs]) (simp_all add: p_def)
qed

text \<open>The scanner in a well-formed state, with the entries still to come.\<close>

definition scanning :: "DBValue codec \<Rightarrow> fullDBScanner \<Rightarrow> (bytes \<times> bytes) list \<Rightarrow> bool" where
  "scanning cd s es \<longleftrightarrow> wf_scan cd (fsName s) (fsItr s) \<and> nz (fsName s) \<and> -1 \<le> iPos (fsItr s) \<and> rest (fsItr s) = es"

lemma fullDBScanner_Next_spec:
  assumes "scanning cd s es"
  shows "\<exists>s'. fullDBScanner_Next cd skip s =
      Some (Inr (case dropWhile (\<lambda>e. skip (ckNamespace (scan_kv cd e))) es of [] \<Rightarrow> None | e # _ \<Rightarrow> Some (scan_kv cd e), s')) \<and>
    scanning cd s' (tl (dropWhile (\<lambda>e. skip (ckNamespace (scan_kv cd e))) es))"
  using assms
proof (induction "length es" arbitrary: s es rule: less_induct)
  case less
  let ?it = "fsItr s"
  have wf: "wf_scan cd (fsName s) ?it" "nz (fsName s)" "-1 \<le> iPos ?it" "rest ?it = es"
    using less.prems by (simp_all add: scanning_def)
  show ?case
  proof (cases es)
    case Nil
    with wf(3,4) have "iterator_Next ?it = (False, ?it\<lparr>iPos := int (length (iEntries ?it))\<rparr>)" by (simp add: iterator_Next_Nil)
    then have "fullDBScanner_Next cd skip s = Some (Inr (None, s\<lparr>fsItr := ?it\<lparr>iPos := int (length (iEntries ?it))\<rparr>\<rparr>))"
      by (subst fullDBScanner_Next.simps) simp
    with Nil wf show ?thesis by (simp add: scanning_def wf_scan_def)
  next
    case (Cons e es')
    obtain it' where it': "iterator_Next ?it = (True, it')" "iterator_current it' = Some e" "rest it' = es'"
      "it' = ?it\<lparr>iPos := iPos ?it + 1\<rparr>"
      by (rule iterator_Next_Cons [OF wf(3) wf(4) [unfolded Cons]])
    have cur: "0 \<le> iPos it'" "iPos it' < int (length (iEntries it'))" "e = iEntries it' ! nat (iPos it')"
      using it'(2) by (auto simp: iterator_current_def split: if_splits)
    have wf': "wf_scan cd (fsName s) it'" using wf(1) it'(4) by (simp add: wf_scan_def)
    have "data_entry cd (fsName s) e" using wf' cur by (auto simp: wf_scan_def)
    then obtain ns key vv where e: "bindR (Iterator_Key it') decodeDataKey = Inr (ns, key)"
      "decodeValue cd (Iterator_Value it') = Inr vv" "scan_kv cd e = \<lparr>ckNamespace = ns, ckKey = key, kvVal = vv\<rparr>"
      using wf(2) it'(2) by (elim data_entryE) (auto simp: Iterator_Key_def Iterator_Value_def)
    show ?thesis
    proof (cases "skip ns")
      case False
      then have "fullDBScanner_Next cd skip s = Some (Inr (Some (scan_kv cd e), s\<lparr>fsItr := it'\<rparr>))"
        by (subst fullDBScanner_Next.simps) (simp add: it'(1) e)
      moreover have "scanning cd (s\<lparr>fsItr := it'\<rparr>) es'" using wf wf' it'(3) cur by (simp add: scanning_def)
      ultimately show ?thesis using False Cons e(3) by simp
    next
      case True
      obtain it2 xs where it2: "snd (iterator_Prev (snd (Iterator_Seek (fsName s) (dataKeyStarterForNextNamespace ns) it'))) = it2"
        "iEntries it2 = iEntries it'" "iPos it' \<le> iPos it2" "rest it' = xs @ rest it2" "\<forall>x \<in> set xs. ckNamespace (scan_kv cd x) = ns"
        by (rule skip_namespace [OF wf' wf(2) cur(1,2,3), of ns]) (simp_all add: e(3))
      have sc: "scanning cd (s\<lparr>fsItr := it2\<rparr>) (rest it2)" using wf wf' it2(2,3) cur(1) by (simp add: scanning_def wf_scan_def)
      have n: "fullDBScanner_Next cd skip s = fullDBScanner_Next cd skip (s\<lparr>fsItr := it2\<rparr>)"
        using True by (subst fullDBScanner_Next.simps) (simp add: it'(1) e it2(1))
      have "dropWhile (\<lambda>e. skip (ckNamespace (scan_kv cd e))) es = dropWhile (\<lambda>e. skip (ckNamespace (scan_kv cd e))) (rest it2)"
        using True e(3) it2(5) by (simp add: Cons dropWhile_append2 it2(4) flip: it'(3))
      moreover have "length es' = length xs + length (rest it2)" using it2(4) it'(3) by (metis length_append)
      then have "length (rest it2) < length es" by (simp add: Cons)
      ultimately show ?thesis using less.hyps [OF _ sc] n by simp
    qed
  qed
qed

text \<open>All results of a full scan.\<close>

partial_function (option) fullDBScanner_drain ::
  "DBValue codec \<Rightarrow> (gostring \<Rightarrow> bool) \<Rightarrow> fullDBScanner \<Rightarrow> ResultsIterator option" where
  "fullDBScanner_drain cd toSkip s =
     (case fullDBScanner_Next cd toSkip s of
        None \<Rightarrow> None
      | Some (Inl e) \<Rightarrow> Some [Inl e]
      | Some (Inr (None, _)) \<Rightarrow> Some []
      | Some (Inr (Some kv, s')) \<Rightarrow> Option.bind (fullDBScanner_drain cd toSkip s') (\<lambda>r. Some (Inr kv # r)))"

lemma fullDBScanner_drain_spec:
  assumes "scanning cd s es"
  shows "fullDBScanner_drain cd skip s =
    Some (map (\<lambda>e. Inr (scan_kv cd e)) (filter (\<lambda>e. \<not> skip (ckNamespace (scan_kv cd e))) es))"
  using assms
proof (induction "length es" arbitrary: s es rule: less_induct)
  case less
  let ?P = "\<lambda>e. skip (ckNamespace (scan_kv cd e))"
  obtain s' where s': "fullDBScanner_Next cd skip s = Some (Inr (case dropWhile ?P es of [] \<Rightarrow> None | e # _ \<Rightarrow> Some (scan_kv cd e), s'))"
    "scanning cd s' (tl (dropWhile ?P es))"
    using fullDBScanner_Next_spec [OF less.prems] by blast
  have f: "filter (\<lambda>e. \<not> ?P e) es = filter (\<lambda>e. \<not> ?P e) (dropWhile ?P es)" by (induction es) auto
  show ?case
  proof (cases "dropWhile ?P es")
    case Nil
    with s'(1) show ?thesis unfolding f Nil by (subst fullDBScanner_drain.simps) simp
  next
    case (Cons e es')
    have "length es' < length es" using Cons length_dropWhile_le [of ?P es] by simp
    moreover have "\<not> ?P e" using Cons by (metis dropWhile_eq_Cons_conv)
    ultimately show ?thesis
      using less.hyps [of es' s'] s' unfolding f Cons by (subst fullDBScanner_drain.simps) simp
  qed
qed

lemma char_d: "CHR ''d'' \<le> c \<and> (c :: char) < CHR ''e'' \<longleftrightarrow> c = CHR ''d''"
proof -
  have "CHR ''d'' \<le> c \<and> c < CHR ''e'' \<longleftrightarrow> of_char c = (of_char (CHR ''d'') :: nat)"
    by (auto simp: less_char_def less_eq_char_def)
  then show ?thesis by (simp only: of_char_eq_iff)
qed

lemma data_prefix_range:
  "constructLevelKey n dataKeyPrefix \<le> k \<and> k < constructLevelKey n dataKeyStopper \<longleftrightarrow> (\<exists>z. k = constructLevelKey n (dataKeyPrefix @ z))"
proof
  assume *: "constructLevelKey n dataKeyPrefix \<le> k \<and> k < constructLevelKey n dataKeyStopper"
  then obtain z where z: "k = constructLevelKey n z"
    using prefix_range [of "n @ [zero]" dataKeyPrefix k dataKeyStopper] by (auto simp: constructLevelKey_def)
  with * have "''d'' \<le> z" "z < ''e''" by (simp_all only: constructLevelKey_mono)
  then obtain c z' where c: "z = c # z'" "CHR ''d'' \<le> c" "c < CHR ''e'' \<or> c = CHR ''e'' \<and> z' < []" by (cases z) auto
  then have "c = CHR ''d''" using char_d [of c] by simp
  with z c(1) show "\<exists>z. k = constructLevelKey n (dataKeyPrefix @ z)" by auto
next
  assume "\<exists>z. k = constructLevelKey n (dataKeyPrefix @ z)"
  moreover have "CHR ''d'' < CHR ''e''" using char_d [of "CHR ''d''"] by simp
  ultimately show "constructLevelKey n dataKeyPrefix \<le> k \<and> k < constructLevelKey n dataKeyStopper" by auto
qed

definition data_entries :: "versionedDB \<Rightarrow> (bytes \<times> bytes) list" where
  "data_entries vdb =
     iEntries (DB_GetIterator (vdDb vdb) (constructLevelKey (vdName vdb) dataKeyPrefix) (constructLevelKey (vdName vdb) dataKeyStopper))"

lemma set_data_entries:
  "e \<in> set (data_entries vdb) \<longleftrightarrow> (\<exists>z. fst e = constructLevelKey (vdName vdb) (dataKeyPrefix @ z) \<and>
     channel (vdName vdb) (vdDb vdb) (dataKeyPrefix @ z) = Some (snd e))"
  by (cases e) (auto simp: data_entries_def DB_GetIterator_def data_prefix_range channel_def)

lemma data_entries_wf:
  assumes "ldb_invar vdb"
  shows "e \<in> set (data_entries vdb) \<Longrightarrow> data_entry (vdCodec vdb) (vdName vdb) e"
    and "sorted (map fst (data_entries vdb))" and "sorted_wrt (\<lambda>a b. fst a < fst b) (data_entries vdb)"
proof -
  have inv: "healthy (vdDb vdb)" "data_ok vdb" using assms by (simp_all add: ldb_invar_def)
  show "e \<in> set (data_entries vdb) \<Longrightarrow> data_entry (vdCodec vdb) (vdName vdb) e"
    using inv(2) unfolding set_data_entries data_entry_def data_ok_def by fastforce
  have "map fst (data_entries vdb) =
      filter (\<lambda>k. \<exists>z. k = constructLevelKey (vdName vdb) (dataKeyPrefix @ z)) (GetSortedKeys (ldStore (vdDb vdb)))"
    unfolding data_entries_def fst_iEntries_GetIterator data_prefix_range ..
  then have "sorted (map fst (data_entries vdb))" "distinct (map fst (data_entries vdb))"
    using inv(1) by (simp_all add: sorted_wrt_filter healthy_def)
  then show "sorted (map fst (data_entries vdb))" "sorted_wrt (\<lambda>a b. fst a < fst b) (data_entries vdb)"
    by (simp_all add: strict_sorted_iff flip: sorted_wrt_map)
qed

lemma data_entries_state:
  assumes "ldb_invar vdb"
  shows "(\<exists>e \<in> set (data_entries vdb). kv = scan_kv (vdCodec vdb) e) \<longleftrightarrow>
    nz (ckNamespace kv) \<and> ldb_state vdb (ckNamespace kv) (ckKey kv) = Some (kvVal kv)"
proof
  let ?n = "vdName vdb" and ?cd = "vdCodec vdb"
  have inv: "nz ?n" "data_ok vdb" using assms by (simp_all add: ldb_invar_def)
  {
    assume "\<exists>e \<in> set (data_entries vdb). kv = scan_kv ?cd e"
    then obtain e where e: "e \<in> set (data_entries vdb)" "kv = scan_kv ?cd e" by blast
    with data_entries_wf(1) [OF assms e(1)] inv(1) obtain ns key vv where *: "nz ns"
      "fst e = constructLevelKey ?n (encodeDataKey ns key)"
      "decodeValue ?cd (snd e) = Inr vv" "kv = \<lparr>ckNamespace = ns, ckKey = key, kvVal = vv\<rparr>"
      by (elim data_entryE) auto
    with e(1) have "channel ?n (vdDb vdb) (encodeDataKey ns key) = Some (snd e)" unfolding set_data_entries by auto
    with * show "nz (ckNamespace kv) \<and> ldb_state vdb (ckNamespace kv) (ckKey kv) = Some (kvVal kv)" by (simp add: ldb_state_def)
  next
    assume *: "nz (ckNamespace kv) \<and> ldb_state vdb (ckNamespace kv) (ckKey kv) = Some (kvVal kv)"
    with ldb_state_channel [OF inv(2)] obtain b where
      b: "channel ?n (vdDb vdb) (encodeDataKey (ckNamespace kv) (ckKey kv)) = Some b" "decodeValue ?cd b = Inr (kvVal kv)" by blast
    then have "(constructLevelKey ?n (encodeDataKey (ckNamespace kv) (ckKey kv)), b) \<in> set (data_entries vdb)"
      unfolding set_data_entries by (auto simp: encodeDataKey_def)
    moreover have "scan_kv ?cd (constructLevelKey ?n (encodeDataKey (ckNamespace kv) (ckKey kv)), b) = kv"
      using * b(2) inv(1) by (simp add: scan_kv_def)
    ultimately show "\<exists>e \<in> set (data_entries vdb). kv = scan_kv ?cd e" by force
  }
qed

text \<open>The results of a full scan are the state: each key of a namespace that is not skipped, once.\<close>

lemma full_scan:
  assumes "ldb_invar vdb"
  obtains sc kvs where "newFullDBScanner vdb = Inr sc" and "fullDBScanner_drain (vdCodec vdb) skip sc = Some (map Inr kvs)"
    and "\<forall>kv. kv \<in> set kvs \<longleftrightarrow> nz (ckNamespace kv) \<and> \<not> skip (ckNamespace kv) \<and>
      ldb_state vdb (ckNamespace kv) (ckKey kv) = Some (kvVal kv)"
    and "sorted_wrt (\<lambda>a b. encodeDataKey (ckNamespace a) (ckKey a) < encodeDataKey (ckNamespace b) (ckKey b)) kvs"
proof -
  let ?n = "vdName vdb" and ?cd = "vdCodec vdb"
  let ?it = "DB_GetIterator (vdDb vdb) (constructLevelKey ?n dataKeyPrefix) (constructLevelKey ?n dataKeyStopper)"
  let ?es = "data_entries vdb"
  define kvs where "kvs = map (scan_kv ?cd) (filter (\<lambda>e. \<not> skip (ckNamespace (scan_kv ?cd e))) ?es)"
  have inv: "nz ?n" "healthy (vdDb vdb)" using assms by (simp_all add: ldb_invar_def)
  have sc: "newFullDBScanner vdb = Inr \<lparr>fsName = ?n, fsItr = ?it\<rparr>"
    using inv(2) by (simp add: newFullDBScanner_def DBHandle_GetIterator_def Let_def)
  have it: "iEntries ?it = ?es" "iPos ?it = -1" by (simp add: data_entries_def) (simp add: DB_GetIterator_def)
  then have "scanning ?cd \<lparr>fsName = ?n, fsItr = ?it\<rparr> ?es"
    using inv(1) data_entries_wf(1,2) [OF assms] by (simp add: scanning_def wf_scan_def)
  from fullDBScanner_drain_spec [OF this]
  have dr: "fullDBScanner_drain ?cd skip \<lparr>fsName = ?n, fsItr = ?it\<rparr> = Some (map Inr kvs)" by (simp add: comp_def kvs_def)
  have key: "fst e = constructLevelKey ?n (encodeDataKey (ckNamespace (scan_kv ?cd e)) (ckKey (scan_kv ?cd e)))" if "e \<in> set ?es" for e
    using data_entries_wf(1) [OF assms that] inv(1) by (elim data_entryE) auto
  have "sorted_wrt (\<lambda>a b. encodeDataKey (ckNamespace (scan_kv ?cd a)) (ckKey (scan_kv ?cd a)) <
      encodeDataKey (ckNamespace (scan_kv ?cd b)) (ckKey (scan_kv ?cd b))) ?es"
    by (rule sorted_wrt_mono_rel [OF _ data_entries_wf(3) [OF assms]]) (simp add: key)
  then have srt: "sorted_wrt (\<lambda>a b. encodeDataKey (ckNamespace a) (ckKey a) < encodeDataKey (ckNamespace b) (ckKey b)) kvs"
    by (simp add: kvs_def sorted_wrt_map sorted_wrt_filter)
  have "kv \<in> set kvs \<longleftrightarrow> (\<exists>e \<in> set ?es. kv = scan_kv ?cd e) \<and> \<not> skip (ckNamespace kv)" for kv
    by (auto simp: kvs_def)
  then have "kv \<in> set kvs \<longleftrightarrow> nz (ckNamespace kv) \<and> \<not> skip (ckNamespace kv) \<and>
      ldb_state vdb (ckNamespace kv) (ckKey kv) = Some (kvVal kv)" for kv
    unfolding data_entries_state [OF assms] by blast
  then show thesis by (intro that [OF sc dr _ srt] allI)
qed

section \<open>Import\<close>

text \<open>The contents of the engine once a pending batch is written.\<close>

definition view :: "ldbBatch \<Rightarrow> leveldb \<Rightarrow> bytes \<rightharpoonup> bytes" where
  "view b d k = (case effects (ubOps b) k of None \<Rightarrow> map_of (ldStore d) k | Some v \<Rightarrow> v)"

definition kv_put :: "DBValue codec \<Rightarrow> gostring \<Rightarrow> VersionedKV \<Rightarrow> bytes \<times> bytes" where
  "kv_put cd name kv =
     (constructLevelKey name (encodeDataKey (ckNamespace kv) (ckKey kv)), projr (encodeValue cd (kvVal kv)))"

lemma view_write:
  assumes "healthy d"
  obtains d' where "DBHandle_WriteBatch (Some b) d = Inr d'" and "healthy d'" and "map_of (ldStore d') = view b d"
  using DBHandle_WriteBatch_Inr [OF assms, of b] by (auto simp: view_def fun_eq_iff)

lemma view_Put:
  "ldbBatch_Put key (Some v) b = Inr b' \<Longrightarrow>
     ubDbName b' = ubDbName b \<and> view b' d = (view b d)(constructLevelKey (ubDbName b) key \<mapsto> v)"
  by (auto simp: ldbBatch_Put_def Let_def view_def map_add_def fun_eq_iff)

lemma importState_loop_spec:
  assumes "healthy (vdDb vdb)" and "codec_total (vdCodec vdb)" and "\<forall>kv \<in> set kvs. storable (kvVal kv)"
    and "ubDbName b = vdName vdb"
  shows "\<exists>b' d'. importState_loop (map Inr kvs) n b vdb = Inr (b', vdb\<lparr>vdDb := d'\<rparr>) \<and> healthy d' \<and> ubDbName b' = vdName vdb \<and>
    view b' d' = view b (vdDb vdb) ++ map_of (rev (map (kv_put (vdCodec vdb) (vdName vdb)) kvs))"
  using assms
proof (induction kvs arbitrary: n b vdb)
  case Nil
  then show ?case by (intro exI [of _ b] exI [of _ "vdDb vdb"]) simp
next
  case (Cons kv kvs)
  let ?k = "encodeDataKey (ckNamespace kv) (ckKey kv)"
  obtain v where v: "encodeValue (vdCodec vdb) (kvVal kv) = Inr v"
    using Cons.prems(2,3) by (metis encodeValue_decodeValue list.set_intros(1))
  obtain b1 where b1: "ldbBatch_Put ?k (Some v) b = Inr b1" by (simp add: ldbBatch_Put_def Let_def)
  note b1v = view_Put [OF b1, of "vdDb vdb"]
  have put: "kv_put (vdCodec vdb) (vdName vdb) kv = (constructLevelKey (vdName vdb) ?k, v)" by (simp add: kv_put_def v)
  show ?case
  proof (cases "maxDataImportBatchSize \<le> n + (length ?k + length v)")
    case True
    obtain d1 where d1: "DBHandle_WriteBatch (Some b1) (vdDb vdb) = Inr d1" "healthy d1" "map_of (ldStore d1) = view b1 (vdDb vdb)"
      by (rule view_write [OF Cons.prems(1), of b1])
    have "view (ldbBatch_Reset b1) d1 = map_of (ldStore d1)" by (simp add: view_def ldbBatch_Reset_def fun_eq_iff)
    then have reset: "view (ldbBatch_Reset b1) d1 = view b1 (vdDb vdb)" "ubDbName (ldbBatch_Reset b1) = vdName vdb"
      using b1v Cons.prems(4) by (simp_all only: d1(3)) (simp add: ldbBatch_Reset_def)
    with Cons.IH [of "vdb\<lparr>vdDb := d1\<rparr>" "ldbBatch_Reset b1" 0] Cons.prems d1(2) obtain b' d' where
      "importState_loop (map Inr kvs) 0 (ldbBatch_Reset b1) (vdb\<lparr>vdDb := d1\<rparr>) = Inr (b', vdb\<lparr>vdDb := d'\<rparr>)" "healthy d'"
      "ubDbName b' = vdName vdb" "view b' d' = view b1 (vdDb vdb) ++ map_of (rev (map (kv_put (vdCodec vdb) (vdName vdb)) kvs))"
      by auto
    with True show ?thesis using Cons.prems(4) b1v by (intro exI [of _ b'] exI [of _ d']) (simp add: v b1 d1(1) Let_def put)
  next
    case False
    have "\<forall>kv \<in> set kvs. storable (kvVal kv)" "ubDbName b1 = vdName vdb" using Cons.prems(3,4) b1v by simp_all
    from Cons.IH [OF Cons.prems(1,2) this, of "n + (length ?k + length v)"] obtain b' d' where
      "importState_loop (map Inr kvs) (n + (length ?k + length v)) b1 vdb = Inr (b', vdb\<lparr>vdDb := d'\<rparr>)" "healthy d'"
      "ubDbName b' = vdName vdb" "view b' d' = view b1 (vdDb vdb) ++ map_of (rev (map (kv_put (vdCodec vdb) (vdName vdb)) kvs))"
      by blast
    with False show ?thesis using Cons.prems(4) b1v by (intro exI [of _ b'] exI [of _ d']) (simp add: v b1 Let_def put)
  qed
qed

text \<open>The engine after an import.\<close>

lemma importState_engine:
  assumes "healthy (vdDb vdb)" and "codec_total (vdCodec vdb)" and "\<forall>kv \<in> set kvs. storable (kvVal kv)"
  obtains d' where "importState (Some (map Inr kvs)) h vdb = Inr (vdb\<lparr>vdDb := d'\<rparr>)" and "healthy d'"
    and "map_of (ldStore d') = (map_of (ldStore (vdDb vdb)) ++ map_of (rev (map (kv_put (vdCodec vdb) (vdName vdb)) kvs)))
      (constructLevelKey (vdName vdb) savePointKey \<mapsto> opv (BlockNum h) @ opv (TxNum h))"
proof -
  let ?b0 = "DBHandle_NewUpdateBatch (vdName vdb)"
  have b0: "ubDbName ?b0 = vdName vdb" "view ?b0 (vdDb vdb) = map_of (ldStore (vdDb vdb))"
    by (simp_all add: DBHandle_NewUpdateBatch_def view_def fun_eq_iff)
  from importState_loop_spec [OF assms b0(1), of 0] obtain b d where
    l: "importState_loop (map Inr kvs) 0 ?b0 vdb = Inr (b, vdb\<lparr>vdDb := d\<rparr>)" "healthy d" "ubDbName b = vdName vdb"
    "view b d = map_of (ldStore (vdDb vdb)) ++ map_of (rev (map (kv_put (vdCodec vdb) (vdName vdb)) kvs))"
    unfolding b0(2) by blast
  obtain b1 where b1: "ldbBatch_Put savePointKey (Some (opv (BlockNum h) @ opv (TxNum h))) b = Inr b1"
    by (simp add: ldbBatch_Put_def Let_def)
  obtain d1 where d1: "DBHandle_WriteBatch (Some b1) d = Inr d1" "healthy d1" "map_of (ldStore d1) = view b1 d"
    by (rule view_write [OF l(2), of b1])
  show thesis
  proof (rule that [of d1])
    show "importState (Some (map Inr kvs)) h vdb = Inr (vdb\<lparr>vdDb := d1\<rparr>)"
      by (simp add: importState_def l(1) ToBytes_opv b1 d1(1))
    show "map_of (ldStore d1) = (map_of (ldStore (vdDb vdb)) ++ map_of (rev (map (kv_put (vdCodec vdb) (vdName vdb)) kvs)))
        (constructLevelKey (vdName vdb) savePointKey \<mapsto> opv (BlockNum h) @ opv (TxNum h))"
      using view_Put [OF b1, of d] l(3,4) d1(3) by auto
  qed (rule d1(2))
qed

lemma map_of_puts:
  assumes "sorted_wrt (\<lambda>a b. encodeDataKey (ckNamespace a) (ckKey a) < encodeDataKey (ckNamespace b) (ckKey b)) kvs"
  shows "map_of (rev (map (kv_put cd n) kvs)) k = Some v \<longleftrightarrow> (\<exists>kv \<in> set kvs. kv_put cd n kv = (k, v))"
proof -
  have "sorted_wrt (<) (map (\<lambda>kv. encodeDataKey (ckNamespace kv) (ckKey kv)) kvs)" using assms by (simp add: sorted_wrt_map)
  then have "distinct (map (\<lambda>kv. encodeDataKey (ckNamespace kv) (ckKey kv)) kvs)" by (simp only: strict_sorted_iff)
  then have "distinct (map fst (map (kv_put cd n) kvs))"
    by (simp add: distinct_map kv_put_def comp_def inj_on_def)
  then show ?thesis by (force simp: map_of_rev_wf map_of_Some_mem)
qed

lemma kv_mem_iff:
  "(\<exists>kv \<in> set kvs. ckNamespace kv = ns \<and> ckKey kv = key \<and> kvVal kv = vv) \<longleftrightarrow> \<lparr>ckNamespace = ns, ckKey = key, kvVal = vv\<rparr> \<in> set kvs"
proof -
  have "ckNamespace kv = ns \<and> ckKey kv = key \<and> kvVal kv = vv \<longleftrightarrow> kv = \<lparr>ckNamespace = ns, ckKey = key, kvVal = vv\<rparr>" for kv :: VersionedKV
    by (cases kv) simp
  then show ?thesis by simp
qed

text \<open>Importing the entries of a state into an empty channel gives this state.\<close>

lemma import_into_empty:
  assumes t: "ldb_invar t" "channel_keys (vdName t) (vdDb t) = {}"
    and kvs: "sorted_wrt (\<lambda>a b. encodeDataKey (ckNamespace a) (ckKey a) < encodeDataKey (ckNamespace b) (ckKey b)) kvs"
    and st: "\<And>kv. kv \<in> set kvs \<longleftrightarrow> nz (ckNamespace kv) \<and> st (ckNamespace kv) (ckKey kv) = Some (kvVal kv)"
    and ok: "\<And>kv. kv \<in> set kvs \<Longrightarrow> storable (kvVal kv)"
  shows "\<exists>t'. importState (Some (map Inr kvs)) h t = Inr t' \<and> ldb_invar t' \<and> (\<forall>ns. nz ns \<longrightarrow> ldb_state t' ns = st ns) \<and>
    GetLatestSavePoint t' = Inr (Some h)"
proof -
  let ?n = "vdName t" and ?cd = "vdCodec t"
  have inv: "healthy (vdDb t)" "codec_total ?cd" "nz ?n" using t(1) by (simp_all add: ldb_invar_def)
  obtain d' where d': "importState (Some (map Inr kvs)) h t = Inr (t\<lparr>vdDb := d'\<rparr>)" "healthy d'"
    "map_of (ldStore d') = (map_of (ldStore (vdDb t)) ++ map_of (rev (map (kv_put ?cd ?n) kvs)))
      (constructLevelKey ?n savePointKey \<mapsto> opv (BlockNum h) @ opv (TxNum h))"
    by (rule importState_engine [OF inv(1,2), of kvs h]) (use ok in blast)
  have empty: "map_of (ldStore (vdDb t)) (constructLevelKey ?n k) = None" for k
    using t(2) by (auto simp: channel_keys_def channel_def)
  have ch: "channel ?n d' k = Some v \<longleftrightarrow> (\<exists>kv \<in> set kvs. k = encodeDataKey (ckNamespace kv) (ckKey kv) \<and> encodeValue ?cd (kvVal kv) = Inr v)"
    if "k \<noteq> savePointKey" for k v
  proof -
    have "channel ?n d' k = map_of (rev (map (kv_put ?cd ?n) kvs)) (constructLevelKey ?n k)"
      using that empty [of k] by (simp add: channel_def d'(3) map_add_def split: option.splits)
    moreover have "kv_put ?cd ?n kv = (constructLevelKey ?n k, v) \<longleftrightarrow>
        k = encodeDataKey (ckNamespace kv) (ckKey kv) \<and> encodeValue ?cd (kvVal kv) = Inr v" if "kv \<in> set kvs" for kv
      by (rule encodeValue_decodeValue [OF inv(2) ok [OF that]]) (auto simp: kv_put_def)
    ultimately show ?thesis by (simp add: map_of_puts [OF kvs] cong: bex_cong)
  qed
  have dec: "decodeValue ?cd v = Inr (kvVal kv)" if "kv \<in> set kvs" "encodeValue ?cd (kvVal kv) = Inr v" for kv v
    by (rule encodeValue_decodeValue [OF inv(2) ok [OF that(1)]]) (use that(2) in simp)
  have "data_ok (t\<lparr>vdDb := d'\<rparr>)"
    unfolding data_ok_def using ch dec st by fastforce
  then have "ldb_invar (t\<lparr>vdDb := d'\<rparr>)" using inv d'(2) by (simp add: ldb_invar_def)
  moreover have "ldb_state (t\<lparr>vdDb := d'\<rparr>) ns = st ns" if "nz ns" for ns
  proof
    fix key
    have "ldb_state (t\<lparr>vdDb := d'\<rparr>) ns key = Some vv \<longleftrightarrow> \<lparr>ckNamespace = ns, ckKey = key, kvVal = vv\<rparr> \<in> set kvs" for vv
    proof -
      have "(\<exists>b. channel ?n d' (encodeDataKey ns key) = Some b \<and> decodeValue ?cd b = Inr vv) \<longleftrightarrow>
          (\<exists>kv \<in> set kvs. ckNamespace kv = ns \<and> ckKey kv = key \<and> kvVal kv = vv)"
      proof
        assume "\<exists>b. channel ?n d' (encodeDataKey ns key) = Some b \<and> decodeValue ?cd b = Inr vv"
        then obtain b kv where "kv \<in> set kvs" "encodeDataKey ns key = encodeDataKey (ckNamespace kv) (ckKey kv)"
          "encodeValue ?cd (kvVal kv) = Inr b" "decodeValue ?cd b = Inr vv" by (auto simp: ch)
        with dec [of kv b] st [of kv] that show "\<exists>kv \<in> set kvs. ckNamespace kv = ns \<and> ckKey kv = key \<and> kvVal kv = vv"
          by (auto simp: encodeDataKey_eq_iff)
      next
        assume "\<exists>kv \<in> set kvs. ckNamespace kv = ns \<and> ckKey kv = key \<and> kvVal kv = vv"
        then obtain kv where kv: "kv \<in> set kvs" "ckNamespace kv = ns" "ckKey kv = key" "kvVal kv = vv" by blast
        obtain b where b: "encodeValue ?cd (kvVal kv) = Inr b" "decodeValue ?cd b = Inr (kvVal kv)"
          by (rule encodeValue_decodeValue [OF inv(2) ok [OF kv(1)]])
        with kv have "channel ?n d' (encodeDataKey ns key) = Some b" by (auto simp: ch)
        with b(2) kv(4) show "\<exists>b. channel ?n d' (encodeDataKey ns key) = Some b \<and> decodeValue ?cd b = Inr vv" by blast
      qed
      also have "\<dots> \<longleftrightarrow> \<lparr>ckNamespace = ns, ckKey = key, kvVal = vv\<rparr> \<in> set kvs" by (rule kv_mem_iff)
      finally show ?thesis unfolding ldb_state_channel [OF \<open>data_ok (t\<lparr>vdDb := d'\<rparr>)\<close>] by simp
    qed
    then show "ldb_state (t\<lparr>vdDb := d'\<rparr>) ns key = st ns key"
      using that unfolding st by (cases "st ns key") (auto simp flip: not_None_eq)
  qed
  moreover have "GetLatestSavePoint (t\<lparr>vdDb := d'\<rparr>) = Inr (Some h)"
    using d'(2) by (simp add: GetLatestSavePoint_def DBHandle_Get_def DB_Get_def d'(3) NewHeightFromBytes_opv)
  ultimately show ?thesis using d'(1) by blast
qed

text \<open>
  C7. Snapshots: the full scan of a well-formed database terminates and returns without error, and importing its results
  into an empty channel, of the same or of another engine and however many batches the import takes, gives a
  well-formed database with exactly the same state, without the namespaces the scan was told to skip, and with the
  given savepoint.
\<close>

theorem snapshot_roundtrip:
  assumes "ldb_invar s" and "ldb_invar t" and "channel_keys (vdName t) (vdDb t) = {}"
  shows "\<exists>sc results t'. newFullDBScanner s = Inr sc \<and> fullDBScanner_drain (vdCodec s) skip sc = Some results \<and>
    importState (Some results) h t = Inr t' \<and> ldb_invar t' \<and> GetLatestSavePoint t' = Inr (Some h) \<and>
    (\<forall>ns. nz ns \<longrightarrow> ldb_state t' ns = (if skip ns then Map.empty else ldb_state s ns))"
proof -
  define st where "st = (\<lambda>ns. if skip ns then Map.empty else ldb_state s ns)"
  obtain sc kvs where sc: "newFullDBScanner s = Inr sc" "fullDBScanner_drain (vdCodec s) skip sc = Some (map Inr kvs)"
    and kvs: "\<forall>kv. kv \<in> set kvs \<longleftrightarrow> nz (ckNamespace kv) \<and> \<not> skip (ckNamespace kv) \<and>
      ldb_state s (ckNamespace kv) (ckKey kv) = Some (kvVal kv)"
    and srt: "sorted_wrt (\<lambda>a b. encodeDataKey (ckNamespace a) (ckKey a) < encodeDataKey (ckNamespace b) (ckKey b)) kvs"
    by (rule full_scan [OF assms(1), of skip])
  have "kv \<in> set kvs \<longleftrightarrow> nz (ckNamespace kv) \<and> st (ckNamespace kv) (ckKey kv) = Some (kvVal kv)" for kv
    by (auto simp: kvs st_def)
  moreover have "storable (kvVal kv)" if "kv \<in> set kvs" for kv
    using that ldb_state_storable by (auto simp: kvs)
  ultimately have "\<exists>t'. importState (Some (map Inr kvs)) h t = Inr t' \<and> ldb_invar t' \<and> (\<forall>ns. nz ns \<longrightarrow> ldb_state t' ns = st ns) \<and>
      GetLatestSavePoint t' = Inr (Some h)"
    by (rule import_into_empty [OF assms(2,3) srt])
  with sc show ?thesis unfolding st_def by blast
qed

section \<open>An example\<close>

text \<open>An encoding of values: every byte behind a one, a zero at the end of each field.\<close>

fun esc :: "bytes \<Rightarrow> bytes" where
  "esc [] = [CHR 0x00]"
| "esc (c # cs) = CHR 0x01 # c # esc cs"

fun unesc :: "bytes \<Rightarrow> bytes \<times> bytes" where
  "unesc (x # c # r) = (if x = CHR 0x01 then (let (a, b) = unesc r in (c # a, b)) else ([], c # r))"
| "unesc r = ([], [])"

lemma unesc_esc [simp]: "unesc (esc a @ r) = (a, r)"
proof (induction a)
  case Nil
  then show ?case by (cases r) auto
qed simp

definition sample_codec :: "DBValue codec" where
  "sample_codec =
     \<lparr>pMarshal = (\<lambda>v. Inr (esc (dvVersion v) @ esc (dvValue v) @ esc (dvMetadata v))),
      pUnmarshal = (\<lambda>b. let (ver, r1) = unesc b; (val, r2) = unesc r1; (md, r3) = unesc r2 in
        Inr \<lparr>dvVersion = ver, dvValue = val, dvMetadata = md\<rparr>)\<rparr>"

lemma sample_codec_total: "codec_total sample_codec"
proof -
  have "unesc (esc a) = (a, [])" for a using unesc_esc [of a "[]"] by simp
  then show ?thesis by (simp add: codec_total_def sample_codec_def)
qed

definition empty_vdb :: "gostring \<Rightarrow> versionedDB" where
  "empty_vdb name = \<lparr>vdCodec = sample_codec, vdName = name, vdDb = \<lparr>ldStore = [], ldErr = None\<rparr>\<rparr>"

lemma empty_vdb_invar: "nz name \<Longrightarrow> ldb_invar (empty_vdb name)" "channel_keys name (vdDb (empty_vdb name)) = {}"
  by (simp_all add: empty_vdb_def ldb_invar_def sample_codec_total healthy_def data_ok_def channel_def channel_keys_def)

lemma sample_batch_admissible: "ldb_admissible sample_batch"
  by (simp add: ldb_admissible_def) (simp add: sample_batch_def NewUpdateBatch_def UpdateBatch_Update_def UpdateBatch_Delete_def getOrCreateNsUpdates_def nz_def storable_def)

theorem leveldb_implements_the_state_database_witness:
  "\<exists>s'. foldR (\<lambda>p. ApplyUpdates (fst p) (snd p)) [(sample_batch, Some (NewHeight 2 3))] (empty_vdb ''ch'') = Inr s' \<and>
     GetState s' ''ns'' ''a'' = Inr (Some (vv_at ''1'' 2 0)) \<and> GetState s' ''ns'' ''b'' = Inr None \<and>
     GetLatestSavePoint s' = Inr (Some (NewHeight 2 3))"
proof -
  have "overlay st sample_batch ''ns'' ''a'' = Some (vv_at ''1'' 2 0)" "overlay st sample_batch ''ns'' ''b'' = None" for st
    by (simp_all add: overlay_def sample_batch_def VersionedValue_IsDelete_def)
  moreover have "nz ''ch''" "nz ''ns''" by (simp_all add: nz_def)
  ultimately show ?thesis
    using leveldb_implements_the_state_database [OF empty_vdb_invar(1), of "''ch''" "[(sample_batch, Some (NewHeight 2 3))]"]
      sample_batch_admissible by fastforce
qed

definition sample_vdb :: versionedDB where
  "sample_vdb = (empty_vdb ''ch'')\<lparr>vdDb :=
     \<lparr>ldStore = [(constructLevelKey ''ch'' (encodeDataKey ''ns'' ''a''), projr (encodeValue sample_codec (vv_at ''1'' 2 0)))], ldErr = None\<rparr>\<rparr>"

lemma sample_vdb_invar: "ldb_invar sample_vdb" and sample_vdb_state: "ldb_state sample_vdb ''ns'' ''a'' = Some (vv_at ''1'' 2 0)"
proof -
  have "storable (vv_at ''1'' 2 0)" by (simp add: storable_def)
  then obtain b where b: "encodeValue sample_codec (vv_at ''1'' 2 0) = Inr b" "decodeValue sample_codec b = Inr (vv_at ''1'' 2 0)"
    by (rule encodeValue_decodeValue [OF sample_codec_total])
  have "nz ''ch''" "nz ''ns''" by (simp_all add: nz_def)
  then show "ldb_invar sample_vdb"
    using b by (auto simp: sample_vdb_def empty_vdb_def ldb_invar_def sample_codec_total healthy_def data_ok_def channel_def split: if_splits)
  show "ldb_state sample_vdb ''ns'' ''a'' = Some (vv_at ''1'' 2 0)"
    using b by (simp add: sample_vdb_def empty_vdb_def ldb_state_def channel_def)
qed

theorem snapshot_roundtrip_witness:
  "\<exists>sc results t'. newFullDBScanner sample_vdb = Inr sc \<and> fullDBScanner_drain sample_codec (\<lambda>ns. ns = ''pvt'') sc = Some results \<and>
     importState (Some results) (NewHeight 7 0) (empty_vdb ''new'') = Inr t' \<and> ldb_state t' ''ns'' ''a'' = Some (vv_at ''1'' 2 0)"
proof -
  have "nz ''new''" "nz ''ns''" "vdName (empty_vdb ''new'') = ''new''" "vdCodec sample_vdb = sample_codec"
    by (simp_all add: nz_def empty_vdb_def sample_vdb_def)
  with snapshot_roundtrip [OF sample_vdb_invar empty_vdb_invar(1), of "''new''" "\<lambda>ns. ns = ''pvt''" "NewHeight 7 0"]
    empty_vdb_invar(2) [of "''new''"] sample_vdb_state
  show ?thesis by fastforce
qed

theorem pages_partition_the_range_witness:
  "\<exists>sc b. GetStateRangeScanIteratorWithPagination sample_vdb ''ns'' [] [] 1 = Inr sc \<and>
     GetBookmarkAndClose (snd (kvScanner_drain sample_codec sc)) = Inr b \<and>
     map Inr (range_scan ''ns'' [] [] (ldb_state sample_vdb ''ns'')) =
       fst (kvScanner_drain sample_codec sc) @ map Inr (if b = [] then [] else range_scan ''ns'' b [] (ldb_state sample_vdb ''ns''))"
proof -
  have "nz ''ns''" "vdCodec sample_vdb = sample_codec" by (simp_all add: nz_def empty_vdb_def sample_vdb_def)
  with pages_partition_the_range [OF sample_vdb_invar, of "''ns''" 1 "[]" "[]"] show ?thesis by simp
qed

text \<open>
  C8. A full scan terminates on every well-formed database, although its loop moves the iterator backwards when it skips
  a namespace, and returns without error exactly the keys of the namespaces that are not skipped, with their values,
  each once and in strictly increasing order of the encoded keys.
\<close>

theorem full_scan_terminates:
  assumes "ldb_invar vdb"
  shows "\<exists>sc kvs. newFullDBScanner vdb = Inr sc \<and> fullDBScanner_drain (vdCodec vdb) skip sc = Some (map Inr kvs) \<and>
    set kvs = {kv. nz (ckNamespace kv) \<and> \<not> skip (ckNamespace kv) \<and> ldb_state vdb (ckNamespace kv) (ckKey kv) = Some (kvVal kv)} \<and>
    sorted_wrt (\<lambda>a b. encodeDataKey (ckNamespace a) (ckKey a) < encodeDataKey (ckNamespace b) (ckKey b)) kvs"
  by (rule full_scan [OF assms, of skip]) blast

theorem full_scan_terminates_witness:
  "\<exists>sc kvs. newFullDBScanner sample_vdb = Inr sc \<and> fullDBScanner_drain sample_codec (\<lambda>ns. False) sc = Some (map Inr kvs) \<and>
     \<lparr>ckNamespace = ''ns'', ckKey = ''a'', kvVal = vv_at ''1'' 2 0\<rparr> \<in> set kvs"
proof -
  have "nz ''ns''" "vdCodec sample_vdb = sample_codec" by (simp_all add: nz_def empty_vdb_def sample_vdb_def)
  with full_scan_terminates [OF sample_vdb_invar, of "\<lambda>ns. False"] sample_vdb_state show ?thesis by fastforce
qed

end
