(* ===== verification/Block_Cutter.thy ===== *)
theory Block_Cutter
  imports Protoutil
begin

text \<open>
  Cutting the stream of ordered messages into batches: \<open>orderer/common/blockcutter/blockcutter.go\<close>. The configuration is
  read at every message and may change between messages. Time is a parameter; the metrics are left out.
\<close>

section \<open>The receiver\<close>

record BatchSize =
  MaxMessageCount :: u32
  AbsoluteMaxBytes :: u32
  PreferredMaxBytes :: u32

record receiver =
  pendingBatch :: "Envelope list"
  pendingBatchSizeBytes :: u32
  PendingBatchStartTime :: "int option"

definition NewReceiverImpl :: receiver where
  "NewReceiverImpl = \<lparr>pendingBatch = [], pendingBatchSizeBytes = 0, PendingBatchStartTime = None\<rparr>"

definition messageSizeBytes :: "Envelope \<Rightarrow> u32" where
  "messageSizeBytes message = word_of_nat (length (evPayload message) + length (evSignature message))"

definition Cut :: "receiver \<Rightarrow> Envelope list \<times> receiver" where
  "Cut r = (pendingBatch r, r\<lparr>PendingBatchStartTime := None, pendingBatch := [], pendingBatchSizeBytes := 0\<rparr>)"

definition Ordered ::
  "BatchSize option \<Rightarrow> int \<Rightarrow> Envelope \<Rightarrow> receiver \<Rightarrow> (Envelope list list \<times> bool \<times> receiver) result" where
  "Ordered ordererConfig now msg r =
     (let r0 = (if pendingBatch r = [] then r\<lparr>PendingBatchStartTime := Some now\<rparr> else r) in
      case ordererConfig of
        None \<Rightarrow> Inl (Panic ''Could not retrieve orderer config to query batch parameters, block cutting is not possible'')
      | Some batchSize \<Rightarrow>
          let msgSize = messageSizeBytes msg in
          if msgSize > PreferredMaxBytes batchSize then
            (if pendingBatch r0 \<noteq> [] then let (messageBatch, r1) = Cut r0 in Inr ([messageBatch, [msg]], False, r1)
             else Inr ([[msg]], False, r0))
          else
            let messageWillOverflowBatchSizeBytes = pendingBatchSizeBytes r0 + msgSize > PreferredMaxBytes batchSize;
                (messageBatches, r1) =
                  (if messageWillOverflowBatchSizeBytes
                   then let (messageBatch, r') = Cut r0 in ([messageBatch], r'\<lparr>PendingBatchStartTime := Some now\<rparr>)
                   else ([], r0));
                r2 = r1\<lparr>pendingBatch := pendingBatch r1 @ [msg], pendingBatchSizeBytes := pendingBatchSizeBytes r1 + msgSize\<rparr> in
            if word_of_nat (length (pendingBatch r2)) \<ge> MaxMessageCount batchSize
            then let (messageBatch, r3) = Cut r2 in Inr (messageBatches @ [messageBatch], False, r3)
            else Inr (messageBatches, True, r2))"

section \<open>Runs\<close>

text \<open>The calls a consenter makes, one after the other.\<close>

datatype cutter_call = CallOrdered BatchSize int Envelope | CallCut

fun ordered_messages :: "cutter_call list \<Rightarrow> Envelope list" where
  "ordered_messages [] = []"
| "ordered_messages (CallOrdered _ _ msg # cs) = msg # ordered_messages cs"
| "ordered_messages (CallCut # cs) = ordered_messages cs"

lemma ordered_messages_append [simp]: "ordered_messages (xs @ ys) = ordered_messages xs @ ordered_messages ys"
  by (induction xs rule: ordered_messages.induct) simp_all

inductive cutter_run :: "cutter_call list \<Rightarrow> Envelope list list \<Rightarrow> receiver \<Rightarrow> bool" where
  new: "cutter_run [] [] NewReceiverImpl"
| ordered: "cutter_run cs out r \<Longrightarrow> Ordered (Some bs) now msg r = Inr (batches, pending, r') \<Longrightarrow>
     cutter_run (cs @ [CallOrdered bs now msg]) (out @ batches) r'"
| cut: "cutter_run cs out r \<Longrightarrow> Cut r = (batch, r') \<Longrightarrow> cutter_run (cs @ [CallCut]) (out @ [batch]) r'"

section \<open>One call\<close>

text \<open>The byte count of the receiver is the sum of the sizes, in the width of the counter.\<close>

definition counted :: "receiver \<Rightarrow> bool" where
  "counted r \<longleftrightarrow> pendingBatchSizeBytes r = sum_list (map messageSizeBytes (pendingBatch r))"

lemma counted_New [simp]: "counted NewReceiverImpl"
  by (simp add: counted_def NewReceiverImpl_def)

lemma Cut_simps [simp]:
  "fst (Cut r) = pendingBatch r" "pendingBatch (snd (Cut r)) = []" "counted (snd (Cut r))"
  by (simp_all add: Cut_def counted_def)

text \<open>What a call of \<open>Ordered\<close> does, by its four outcomes.\<close>

lemma Ordered_cases:
  assumes "counted r" and "Ordered (Some bs) now msg r = Inr (batches, pending, r')"
  obtains (isolated) "PreferredMaxBytes bs < messageSizeBytes msg" "batches = (if pendingBatch r = [] then [] else [pendingBatch r]) @ [[msg]]"
      "\<not> pending" "pendingBatch r' = []" "counted r'"
  | (queued) "messageSizeBytes msg \<le> PreferredMaxBytes bs" "pendingBatchSizeBytes r + messageSizeBytes msg \<le> PreferredMaxBytes bs"
      "batches = []" "pending" "pendingBatch r' = pendingBatch r @ [msg]" "counted r'"
      "word_of_nat (Suc (length (pendingBatch r))) < MaxMessageCount bs"
  | (full) "messageSizeBytes msg \<le> PreferredMaxBytes bs" "pendingBatchSizeBytes r + messageSizeBytes msg \<le> PreferredMaxBytes bs"
      "batches = [pendingBatch r @ [msg]]" "\<not> pending" "pendingBatch r' = []" "counted r'"
  | (overflow) "messageSizeBytes msg \<le> PreferredMaxBytes bs" "PreferredMaxBytes bs < pendingBatchSizeBytes r + messageSizeBytes msg"
      "pendingBatch r \<noteq> []" "1 < MaxMessageCount bs" "batches = [pendingBatch r]" "pending" "pendingBatch r' = [msg]" "counted r'"
  | (overflow_full) "messageSizeBytes msg \<le> PreferredMaxBytes bs" "PreferredMaxBytes bs < pendingBatchSizeBytes r + messageSizeBytes msg"
      "pendingBatch r \<noteq> []" "MaxMessageCount bs \<le> 1" "batches = [pendingBatch r, [msg]]" "\<not> pending" "pendingBatch r' = []" "counted r'"
proof -
  have ne: "pendingBatch r \<noteq> []" if "messageSizeBytes msg \<le> PreferredMaxBytes bs"
    "PreferredMaxBytes bs < pendingBatchSizeBytes r + messageSizeBytes msg"
    using that assms(1) by (auto simp: counted_def)
  show thesis
  proof (cases "PreferredMaxBytes bs < messageSizeBytes msg")
    case True
    with assms show thesis
      by (intro isolated) (auto simp: Ordered_def Cut_def Let_def counted_def split: if_splits)
  next
    case False
    then have le: "messageSizeBytes msg \<le> PreferredMaxBytes bs" by simp
    show thesis
    proof (cases "PreferredMaxBytes bs < pendingBatchSizeBytes r + messageSizeBytes msg")
      case True
      show thesis
      proof (cases "MaxMessageCount bs \<le> 1")
        case max: True
        show thesis
          by (rule overflow_full [OF le True ne [OF le True] max]) (use assms True False max in \<open>auto simp: Ordered_def Cut_def Let_def counted_def split: if_splits\<close>)
      next
        case max: False
        then have "1 < MaxMessageCount bs" by simp
        with assms True False ne [OF le True] show thesis
          by (intro overflow [OF le]) (auto simp: Ordered_def Cut_def Let_def counted_def split: if_splits)
      qed
    next
      case fits: False
      then have fits': "pendingBatchSizeBytes r + messageSizeBytes msg \<le> PreferredMaxBytes bs" by simp
      show thesis
      proof (cases "word_of_nat (Suc (length (pendingBatch r))) < MaxMessageCount bs")
        case True
        show thesis
          by (rule queued [OF le fits']) (use assms True False fits in \<open>auto simp: Ordered_def Cut_def Let_def counted_def split: if_splits\<close>)
      next
        case max: False
        show thesis
          by (rule full [OF le fits']) (use assms max False fits in \<open>auto simp: Ordered_def Cut_def Let_def counted_def split: if_splits\<close>)
      qed
    qed
  qed
qed

lemma Ordered_total: "\<exists>batches pending r'. Ordered (Some bs) now msg r = Inr (batches, pending, r')"
  by (cases "PreferredMaxBytes bs < messageSizeBytes msg") (auto simp: Ordered_def Cut_def Let_def)

lemma Ordered_order:
  assumes "counted r" and "Ordered (Some bs) now msg r = Inr (batches, pending, r')"
  shows "concat batches @ pendingBatch r' = pendingBatch r @ [msg]" and "counted r'" and "[] \<notin> set batches"
    and "length batches \<le> 2" and "pending \<longleftrightarrow> pendingBatch r' \<noteq> []" and "batches \<noteq> [] \<or> pending"
  using Ordered_cases [OF assms] by (cases; auto split: if_splits)+

lemma run_counted: "cutter_run cs out r \<Longrightarrow> counted r"
proof (induction rule: cutter_run.induct)
  case (cut cs out r batch r')
  then show ?case by (auto simp: Cut_def counted_def)
qed (simp, rule Ordered_order(2))

text \<open>
  C32. The block cutter neither loses, repeats nor reorders messages: after any sequence of calls, under any changes of the
  configuration, the batches handed out followed by the pending batch are exactly the messages received, in order. A
  call of \<open>Ordered\<close> always returns, with at most two batches, none of them empty, and reports messages as pending
  exactly if there are some.
\<close>

theorem batches_keep_the_order:
  assumes "cutter_run cs out r"
  shows "concat out @ pendingBatch r = ordered_messages cs \<and>
    (\<exists>batches pending r'. Ordered (Some bs) now msg r = Inr (batches, pending, r') \<and> [] \<notin> set batches \<and> length batches \<le> 2 \<and>
       (batches \<noteq> [] \<or> pending) \<and> (pending \<longleftrightarrow> pendingBatch r' \<noteq> []))"
proof
  show "concat out @ pendingBatch r = ordered_messages cs"
    using assms
  proof (induction rule: cutter_run.induct)
    case (ordered cs out r bs now msg batches pending r')
    from Ordered_order(1) [OF run_counted [OF ordered.hyps(1)] ordered.hyps(2)] ordered.IH show ?case by simp
  qed (auto simp: NewReceiverImpl_def Cut_def)
  obtain batches pending r' where "Ordered (Some bs) now msg r = Inr (batches, pending, r')" using Ordered_total by blast
  with Ordered_order(3-6) [OF run_counted [OF assms] this] show
    "\<exists>batches pending r'. Ordered (Some bs) now msg r = Inr (batches, pending, r') \<and> [] \<notin> set batches \<and> length batches \<le> 2 \<and>
       (batches \<noteq> [] \<or> pending) \<and> (pending \<longleftrightarrow> pendingBatch r' \<noteq> [])" by blast
qed

section \<open>Sizes\<close>

definition size_of :: "Envelope \<Rightarrow> nat" where
  "size_of m = length (evPayload m) + length (evSignature m)"

abbreviation total_size :: "Envelope list \<Rightarrow> nat" where
  "total_size b \<equiv> sum_list (map size_of b)"

definition within :: "BatchSize \<Rightarrow> Envelope list \<Rightarrow> bool" where
  "within bs b \<longleftrightarrow> length b \<le> unat (MaxMessageCount bs) \<and> (length b \<le> 1 \<or> total_size b \<le> unat (PreferredMaxBytes bs))"

text \<open>A consenter that uses one configuration, with messages smaller than 4 GiB.\<close>

definition uses :: "BatchSize \<Rightarrow> cutter_call \<Rightarrow> bool" where
  "uses bs c = (case c of CallOrdered bs' now m \<Rightarrow> bs' = bs \<and> size_of m < 2 ^ 32 | CallCut \<Rightarrow> True)"

definition pending_ok :: "BatchSize \<Rightarrow> receiver \<Rightarrow> bool" where
  "pending_ok bs r \<longleftrightarrow> counted r \<and> length (pendingBatch r) < unat (MaxMessageCount bs) \<and>
     total_size (pendingBatch r) \<le> unat (PreferredMaxBytes bs)"

lemma u32_bound: "unat (w :: u32) < 2 ^ 32"
proof -
  have "unat w < 2 ^ LENGTH(32)" by (rule unsigned_less)
  then show ?thesis by simp
qed

lemma unat_of_nat_u32: "n < 2 ^ 32 \<Longrightarrow> unat (word_of_nat n :: u32) = n"
  by (simp add: unsigned_of_nat take_bit_nat_eq_self)

lemma size_word: "messageSizeBytes m = word_of_nat (size_of m)"
  by (simp add: messageSizeBytes_def size_of_def)

lemma sum_size_word: "sum_list (map messageSizeBytes b) = word_of_nat (total_size b)"
  by (induction b) (simp_all add: size_word)

lemma unat_size: "size_of m < 2 ^ 32 \<Longrightarrow> unat (messageSizeBytes m) = size_of m"
  by (simp add: size_word unat_of_nat_u32)

lemma pending_unat:
  assumes "pending_ok bs r"
  shows "unat (pendingBatchSizeBytes r) = total_size (pendingBatch r)"
proof -
  have "total_size (pendingBatch r) < 2 ^ 32"
    using assms u32_bound [of "PreferredMaxBytes bs"] by (simp add: pending_ok_def)
  then show ?thesis using assms by (simp add: pending_ok_def counted_def sum_size_word unat_of_nat_u32)
qed

lemma fits_unat:
  assumes "pending_ok bs r" and "size_of m < 2 ^ 32" and "unat (PreferredMaxBytes bs) < 2 ^ 31"
    and "messageSizeBytes m \<le> PreferredMaxBytes bs" and "pendingBatchSizeBytes r + messageSizeBytes m \<le> PreferredMaxBytes bs"
  shows "total_size (pendingBatch r @ [m]) \<le> unat (PreferredMaxBytes bs)"
proof -
  have a: "unat (messageSizeBytes m) \<le> unat (PreferredMaxBytes bs)" using assms(4) by (simp add: word_le_nat_alt)
  have b: "unat (pendingBatchSizeBytes r) \<le> unat (PreferredMaxBytes bs)"
    using assms(1) by (simp add: pending_unat) (simp add: pending_ok_def)
  from a b assms(3) have "unat (pendingBatchSizeBytes r) + unat (messageSizeBytes m) < 2 ^ 32" by simp
  then have "unat (pendingBatchSizeBytes r + messageSizeBytes m) = unat (pendingBatchSizeBytes r) + unat (messageSizeBytes m)"
    by (simp add: unat_word_ariths)
  with assms(5) show ?thesis by (simp add: word_le_nat_alt pending_unat [OF assms(1)] unat_size [OF assms(2)])
qed

lemma Ordered_within:
  assumes "pending_ok bs r" and "size_of m < 2 ^ 32" and "unat (PreferredMaxBytes bs) < 2 ^ 31" and "0 < MaxMessageCount bs"
    and "Ordered (Some bs) now m r = Inr (batches, pending, r')"
  shows "pending_ok bs r' \<and> (\<forall>b \<in> set batches. within bs b)"
proof -
  have c: "counted r" and l: "length (pendingBatch r) < unat (MaxMessageCount bs)" using assms(1) by (simp_all add: pending_ok_def)
  have w: "unat (word_of_nat (Suc (length (pendingBatch r))) :: u32) = Suc (length (pendingBatch r))"
    using l u32_bound [of "MaxMessageCount bs"] by (intro unat_of_nat_u32) simp
  have p: "within bs (pendingBatch r)" "1 \<le> unat (MaxMessageCount bs)"
    using assms(1,4) by (auto simp: within_def pending_ok_def word_less_nat_alt)
  show ?thesis
  proof (cases rule: Ordered_cases [OF c assms(5), case_names isolated queued full overflow overflow_full])
    case queued
    with w show ?thesis using fits_unat [OF assms(1-3)] by (simp add: pending_ok_def word_less_nat_alt)
  next
    case full
    with l p fits_unat [OF assms(1-3)] show ?thesis by (simp add: pending_ok_def within_def)
  next
    case overflow
    then have "size_of m \<le> unat (PreferredMaxBytes bs)" "1 < unat (MaxMessageCount bs)"
      using unat_size [OF assms(2)] by (auto simp: word_le_nat_alt word_less_nat_alt)
    with overflow p show ?thesis by (simp add: pending_ok_def)
  qed (use p in \<open>auto simp: pending_ok_def within_def split: if_splits\<close>)
qed

text \<open>
  C33. The limits of the configuration hold for every batch, as long as it stays the same and its preferred size is below
  2 GiB: no batch has more messages than \<open>MaxMessageCount\<close>, and a batch larger than \<open>PreferredMaxBytes\<close> is a single
  message.
\<close>

theorem batches_respect_the_limits:
  assumes "cutter_run cs out r" and "\<forall>c \<in> set cs. uses bs c" and "unat (PreferredMaxBytes bs) < 2 ^ 31" and "0 < MaxMessageCount bs"
  shows "\<forall>b \<in> set out. within bs b"
proof -
  have "pending_ok bs r \<and> (\<forall>b \<in> set out. within bs b)"
    using assms(1,2)
  proof (induction rule: cutter_run.induct)
    case new
    show ?case using assms(4) by (simp add: pending_ok_def) (simp add: NewReceiverImpl_def word_less_nat_alt)
  next
    case (ordered cs out r bs' now msg batches pending r')
    then have "bs' = bs" "size_of msg < 2 ^ 32" by (simp_all add: uses_def)
    with ordered Ordered_within [of bs r msg now batches pending r'] assms(3,4) show ?case by auto
  next
    case (cut cs out r batch r')
    then show ?case using assms(4) by (auto simp: Cut_def pending_ok_def counted_def within_def word_less_nat_alt)
  qed
  then show ?thesis by blast
qed


section \<open>An example\<close>

definition sample_size :: BatchSize where
  "sample_size = \<lparr>MaxMessageCount = 2, AbsoluteMaxBytes = 100, PreferredMaxBytes = 50\<rparr>"

definition sample_env :: Envelope where
  "sample_env = \<lparr>evPayload = ''pay'', evSignature = ''sig''\<rparr>"

definition sample_receiver :: receiver where
  "sample_receiver = \<lparr>pendingBatch = [sample_env], pendingBatchSizeBytes = 6, PendingBatchStartTime = Some 0\<rparr>"

lemma sample_run:
  "cutter_run [CallOrdered sample_size 0 sample_env] [] sample_receiver"
  "\<exists>r. cutter_run [CallOrdered sample_size 0 sample_env, CallOrdered sample_size 1 sample_env] [[sample_env, sample_env]] r"
proof -
  have "Ordered (Some sample_size) 0 sample_env NewReceiverImpl = Inr ([], True, sample_receiver)" by code_simp
  from cutter_run.ordered [OF cutter_run.new this] show r: "cutter_run [CallOrdered sample_size 0 sample_env] [] sample_receiver" by simp
  have "Ordered (Some sample_size) 1 sample_env sample_receiver = Inr ([[sample_env, sample_env]], False, NewReceiverImpl)" by code_simp
  from cutter_run.ordered [OF r this]
  show "\<exists>r. cutter_run [CallOrdered sample_size 0 sample_env, CallOrdered sample_size 1 sample_env] [[sample_env, sample_env]] r"
    by auto
qed

theorem batches_keep_the_order_witness:
  "concat [] @ pendingBatch sample_receiver = [sample_env] \<and>
     (\<exists>batches pending r'. Ordered (Some sample_size) 5 sample_env sample_receiver = Inr (batches, pending, r') \<and> [] \<notin> set batches)"
  using batches_keep_the_order [OF sample_run(1), of sample_size 5 sample_env] by auto

theorem batches_respect_the_limits_witness: "within sample_size [sample_env, sample_env]"
proof -
  obtain r where "cutter_run [CallOrdered sample_size 0 sample_env, CallOrdered sample_size 1 sample_env] [[sample_env, sample_env]] r"
    using sample_run(2) by blast
  from batches_respect_the_limits [OF this, of sample_size] show ?thesis
    by (simp add: uses_def sample_size_def sample_env_def size_of_def word_less_nat_alt)
qed


end
