(* ===== verification/Policies.thy ===== *)
theory Policies
  imports Protoutil
begin

text \<open>
  Policies of a channel: signature policies (\<open>common/cauthdsl\<close>), implicit meta policies and the tree of policy managers
  built from the groups of a channel configuration (\<open>common/policies\<close>). Identities are those of the MSP: their methods are
  the parameter \<open>identity_ops\<close>, and a deserializer is part of a provider.
\<close>

section \<open>Messages\<close>

record MSPPrincipal =
  mpClassification :: int
  mpPrincipal :: bytes

text \<open>\<open>SP_Nil\<close> is the nil pointer and \<open>SP_NoType\<close> a message whose \<open>Type\<close> is not set.\<close>

datatype SignaturePolicy =
    SP_NOutOf int "SignaturePolicy list"
  | SP_SignedBy int
  | SP_NoType
  | SP_Nil

record SignaturePolicyEnvelope =
  speVersion :: int
  speRule :: SignaturePolicy
  speIdentities :: "MSPPrincipal list"

record ImplicitMetaDef =
  imdSubPolicy :: gostring
  imdRule :: int

abbreviation (input) "ImplicitMetaPolicy_ANY \<equiv> 0 :: int"
abbreviation (input) "ImplicitMetaPolicy_ALL \<equiv> 1 :: int"
abbreviation (input) "ImplicitMetaPolicy_MAJORITY \<equiv> 2 :: int"

abbreviation (input) "Policy_SIGNATURE \<equiv> 1 :: int"
abbreviation (input) "Policy_IMPLICIT_META \<equiv> 3 :: int"

record cbPolicy =
  plType :: int
  plValue :: bytes

record ConfigPolicy =
  cpVersion :: u64
  cpPolicy :: "cbPolicy option"
  cpModPolicy :: gostring

record ConfigValue =
  cvVersion :: u64
  cvValue :: bytes
  cvModPolicy :: gostring

datatype ConfigGroup = ConfigGroup
  (cgVersion: u64)
  (cgGroups: "(gostring, ConfigGroup) gomap")
  (cgValues: "(gostring, ConfigValue) gomap")
  (cgPolicies: "(gostring, ConfigPolicy) gomap")
  (cgModPolicy: gostring)

record policy_codecs =
  pbSignaturePolicyEnvelope :: "SignaturePolicyEnvelope codec"
  pbImplicitMetaPolicy :: "ImplicitMetaDef codec"

section \<open>Identities\<close>

record 'i identity_ops =
  idMspid :: "'i \<Rightarrow> gostring"
  idId :: "'i \<Rightarrow> gostring"
  idVerify :: "'i \<Rightarrow> bytes \<Rightarrow> bytes \<Rightarrow> bool"
  idSatisfiesPrincipal :: "'i \<Rightarrow> MSPPrincipal \<Rightarrow> bool"

type_synonym 'i deserializer = "bytes \<Rightarrow> 'i option"

definition identityKey :: "'i identity_ops \<Rightarrow> 'i \<Rightarrow> gostring" where
  "identityKey im identity = idMspid im identity @ idId im identity"

fun SignatureSetToValidIdentities_loop ::
  "'i identity_ops \<Rightarrow> 'i deserializer \<Rightarrow> gostring list \<Rightarrow> SignedData list \<Rightarrow> 'i list" where
  "SignatureSetToValidIdentities_loop im ds idMap [] = []"
| "SignatureSetToValidIdentities_loop im ds idMap (sd # sds) =
     (case ds (sdIdentity sd) of
        None \<Rightarrow> SignatureSetToValidIdentities_loop im ds idMap sds
      | Some identity \<Rightarrow>
          if identityKey im identity \<in> set idMap then SignatureSetToValidIdentities_loop im ds idMap sds
          else if \<not> idVerify im identity (sdData sd) (sdSignature sd)
          then SignatureSetToValidIdentities_loop im ds idMap sds
          else identity # SignatureSetToValidIdentities_loop im ds (identityKey im identity # idMap) sds)"

definition SignatureSetToValidIdentities ::
  "'i identity_ops \<Rightarrow> 'i deserializer \<Rightarrow> SignedData list \<Rightarrow> 'i list" where
  "SignatureSetToValidIdentities im ds signedData = SignatureSetToValidIdentities_loop im ds [] signedData"

section \<open>Signature policies\<close>

text \<open>A compiled policy takes the identities and the flags of those already used, and returns its verdict with the flags.\<close>

type_synonym 'i evaluator = "'i list \<Rightarrow> bool list \<Rightarrow> bool \<times> bool list"

fun signedBy_loop ::
  "'i identity_ops \<Rightarrow> MSPPrincipal \<Rightarrow> nat \<Rightarrow> 'i list \<Rightarrow> bool list \<Rightarrow> bool \<times> bool list" where
  "signedBy_loop im signedByID i [] used = (False, used)"
| "signedBy_loop im signedByID i (sd # sds) used =
     (if used ! i then signedBy_loop im signedByID (Suc i) sds used
      else if \<not> idSatisfiesPrincipal im sd signedByID then signedBy_loop im signedByID (Suc i) sds used
      else (True, used[i := True]))"

fun gate_loop :: "'i evaluator list \<Rightarrow> 'i list \<Rightarrow> int \<Rightarrow> bool list \<Rightarrow> int \<times> bool list" where
  "gate_loop [] signedData verified used = (verified, used)"
| "gate_loop (policy # policies) signedData verified used =
     (case policy signedData used of
        (True, used') \<Rightarrow> gate_loop policies signedData (verified + 1) used'
      | (False, _) \<Rightarrow> gate_loop policies signedData verified used)"

fun compile :: "'i identity_ops \<Rightarrow> SignaturePolicy \<Rightarrow> MSPPrincipal list \<Rightarrow> 'i evaluator result"
  and compile_rules ::
    "'i identity_ops \<Rightarrow> SignaturePolicy list \<Rightarrow> MSPPrincipal list \<Rightarrow> 'i evaluator list result" where
  "compile im SP_Nil identities = Inl (Err ''Empty policy element'')"
| "compile im (SP_NOutOf n rules) identities =
     bindR (compile_rules im rules identities) (\<lambda>policies.
       Inr (\<lambda>signedData used.
         let (verified, used') = gate_loop policies signedData 0 used in (n \<le> verified, used')))"
| "compile im (SP_SignedBy k) identities =
     (if k < 0 \<or> int (length identities) \<le> k then Inl (Err ''identity index out of range'')
      else Inr (\<lambda>signedData used. signedBy_loop im (identities ! nat k) 0 signedData used))"
| "compile im SP_NoType identities = Inl (Err ''Unknown type'')"
| "compile_rules im [] identities = Inr []"
| "compile_rules im (policy # rules) identities =
     bindR (compile im policy identities) (\<lambda>compiledPolicy.
     bindR (compile_rules im rules identities) (\<lambda>policies. Inr (compiledPolicy # policies)))"

section \<open>Policies and their evaluation\<close>

text \<open>The implementations of the interface \<open>Policy\<close>: the compiled signature policy of \<open>cauthdsl\<close> with its envelope and
  deserializer, the implicit meta policy, the policy that rejects everything and the one that logs.\<close>

datatype 'i Policy =
    SigPolicy "'i evaluator" "'i deserializer" SignaturePolicyEnvelope
  | ImplicitMetaPolicy int "'i Policy list" gostring
  | RejectPolicy gostring
  | PolicyLogger "'i Policy" gostring

text \<open>An error or success; evaluation does not panic.\<close>

type_synonym verdict = "string + unit"

definition sig_EvaluateIdentities :: "'i evaluator \<Rightarrow> 'i list \<Rightarrow> verdict" where
  "sig_EvaluateIdentities evaluator identities =
     (if \<not> fst (evaluator identities (replicate (length identities) False))
      then Inl ''signature set did not satisfy policy'' else Inr ())"

definition sig_EvaluateSignedData ::
  "'i identity_ops \<Rightarrow> 'i evaluator \<Rightarrow> 'i deserializer \<Rightarrow> SignedData list \<Rightarrow> verdict" where
  "sig_EvaluateSignedData im evaluator ds signatureSet =
     sig_EvaluateIdentities evaluator (SignatureSetToValidIdentities im ds signatureSet)"

fun EvaluateIdentities :: "'i Policy \<Rightarrow> 'i list \<Rightarrow> verdict"
  and evaluateIdentities_loop :: "'i Policy list \<Rightarrow> 'i list \<Rightarrow> int \<Rightarrow> int" where
  "EvaluateIdentities (SigPolicy evaluator ds env) identities = sig_EvaluateIdentities evaluator identities"
| "EvaluateIdentities (ImplicitMetaPolicy threshold subPolicies subPolicyName) identities =
     (if evaluateIdentities_loop subPolicies identities threshold = 0 then Inr ()
      else Inl ''implicit policy evaluation failed'')"
| "EvaluateIdentities (RejectPolicy rp) identities = Inl (''no such policy: '' @ rp)"
| "EvaluateIdentities (PolicyLogger policy policyName) identities = EvaluateIdentities policy identities"
| "evaluateIdentities_loop [] identities remaining = remaining"
| "evaluateIdentities_loop (policy # policies) identities remaining =
     (if EvaluateIdentities policy identities = Inr ()
      then if remaining - 1 = 0 then 0 else evaluateIdentities_loop policies identities (remaining - 1)
      else evaluateIdentities_loop policies identities remaining)"

fun EvaluateSignedData :: "'i identity_ops \<Rightarrow> 'i Policy \<Rightarrow> SignedData list \<Rightarrow> verdict"
  and evaluateSignedData_loop :: "'i identity_ops \<Rightarrow> 'i Policy list \<Rightarrow> SignedData list \<Rightarrow> int \<Rightarrow> int" where
  "EvaluateSignedData im (SigPolicy evaluator ds env) signatureSet = sig_EvaluateSignedData im evaluator ds signatureSet"
| "EvaluateSignedData im (ImplicitMetaPolicy threshold subPolicies subPolicyName) signatureSet =
     (if evaluateSignedData_loop im subPolicies signatureSet threshold = 0 then Inr ()
      else Inl ''implicit policy evaluation failed'')"
| "EvaluateSignedData im (RejectPolicy rp) signatureSet = Inl (''no such policy: '' @ rp)"
| "EvaluateSignedData im (PolicyLogger policy policyName) signatureSet = EvaluateSignedData im policy signatureSet"
| "evaluateSignedData_loop im [] signatureSet remaining = remaining"
| "evaluateSignedData_loop im (policy # policies) signatureSet remaining =
     (if EvaluateSignedData im policy signatureSet = Inr ()
      then if remaining - 1 = 0 then 0 else evaluateSignedData_loop im policies signatureSet (remaining - 1)
      else evaluateSignedData_loop im policies signatureSet remaining)"

section \<open>Policy managers\<close>

datatype 'i ManagerImpl = ManagerImpl
  (mgPath: gostring)
  (mgPolicies: "(gostring, 'i Policy) gomap")
  (mgManagers: "(gostring, 'i ManagerImpl) gomap")

definition PathSeparator :: gostring where
  "PathSeparator = ''/''"

text \<open>The slice expression \<open>id[1+len(pm.path)+1:]\<close> panics when its lower bound exceeds the length of the string.\<close>

definition GetPolicy :: "'i ManagerImpl \<Rightarrow> gostring \<Rightarrow> ('i Policy \<times> bool) result" where
  "GetPolicy pm ident =
     (if ident = [] then Inr (RejectPolicy ident, False)
      else
        let lookup = (\<lambda>relpath.
              case map_of (mgPolicies pm) relpath of
                None \<Rightarrow> (RejectPolicy relpath, False)
              | Some policy \<Rightarrow>
                  (PolicyLogger policy (PathSeparator @ mgPath pm @ PathSeparator @ relpath), True))
        in if take 1 ident = PathSeparator
           then if take (Suc (length (mgPath pm))) ident \<noteq> PathSeparator @ mgPath pm then Inr (RejectPolicy ident, False)
           else if length ident < 1 + length (mgPath pm) + 1 then Inl (Panic ''slice bounds out of range'')
           else Inr (lookup (drop (1 + length (mgPath pm) + 1) ident))
           else Inr (lookup ident))"

fun Manager :: "'i ManagerImpl \<Rightarrow> gostring list \<Rightarrow> 'i ManagerImpl option" where
  "Manager pm [] = Some pm"
| "Manager pm (p # path) =
     (case map_of (mgManagers pm) p of None \<Rightarrow> None | Some m \<Rightarrow> Manager m path)"

definition NewImplicitMetaPolicy ::
  "policy_codecs \<Rightarrow> bytes \<Rightarrow> (gostring, 'i ManagerImpl) gomap \<Rightarrow> 'i Policy result" where
  "NewImplicitMetaPolicy cs data managers =
     bindR (wrapR ''Error unmarshalling to ImplicitMetaPolicy'' (pUnmarshal (pbImplicitMetaPolicy cs) data)) (\<lambda>def.
     bindR (mapR (\<lambda>(_, manager). bindR (GetPolicy manager (imdSubPolicy def)) (\<lambda>(p, _). Inr p)) managers) (\<lambda>subPolicies.
       let threshold =
             (if imdRule def = ImplicitMetaPolicy_ANY then 1
              else if imdRule def = ImplicitMetaPolicy_ALL then int (length subPolicies)
              else if imdRule def = ImplicitMetaPolicy_MAJORITY then int (length subPolicies div 2) + 1
              else 0);
           threshold = (if length subPolicies = 0 then 0 else threshold)
       in Inr (ImplicitMetaPolicy threshold subPolicies (imdSubPolicy def))))"

definition NewPolicy ::
  "'i identity_ops \<Rightarrow> policy_codecs \<Rightarrow> 'i deserializer \<Rightarrow> bytes \<Rightarrow> 'i Policy result" where
  "NewPolicy im cs ds data =
     bindR (wrapR ''Error unmarshalling to SignaturePolicy'' (pUnmarshal (pbSignaturePolicyEnvelope cs) data)) (\<lambda>sigPolicy.
       if speVersion sigPolicy \<noteq> 0 then Inl (Err ''This evaluator only understands messages of version 0'')
       else bindR (compile im (speRule sigPolicy) (speIdentities sigPolicy)) (\<lambda>compiled.
         Inr (SigPolicy compiled ds sigPolicy)))"

definition EnvelopeBased_NewPolicy ::
  "'i identity_ops \<Rightarrow> 'i deserializer \<Rightarrow> SignaturePolicyEnvelope option \<Rightarrow> 'i Policy result" where
  "EnvelopeBased_NewPolicy im ds sigPolicy =
     (case sigPolicy of
        None \<Rightarrow> Inl (Err ''invalid arguments'')
      | Some sigPolicy \<Rightarrow>
          bindR (compile im (speRule sigPolicy) (speIdentities sigPolicy)) (\<lambda>compiled.
            Inr (SigPolicy compiled ds sigPolicy)))"

text \<open>The policy of one entry of \<open>root.Policies\<close>; a provider is the \<open>cauthdsl\<close> provider with its deserializer.\<close>

definition compileConfigPolicy ::
  "'i identity_ops \<Rightarrow> policy_codecs \<Rightarrow> (int, 'i deserializer) gomap \<Rightarrow> (gostring, 'i ManagerImpl) gomap \<Rightarrow>
   gostring \<times> ConfigPolicy \<Rightarrow> (gostring, 'i Policy) gomap \<Rightarrow> (gostring, 'i Policy) gomap result" where
  "compileConfigPolicy im cs providers managers entry policies =
     (case cpPolicy (snd entry) of
        None \<Rightarrow> Inl (Err ''policy was nil'')
      | Some policy \<Rightarrow>
          bindR
            (if plType policy = Policy_IMPLICIT_META
             then wrapR ''implicit policy did not compile'' (NewImplicitMetaPolicy cs (plValue policy) managers)
             else case map_of providers (plType policy) of
                    None \<Rightarrow> Inl (Err ''unknown policy type'')
                  | Some ds \<Rightarrow> wrapR ''policy did not compile'' (NewPolicy im cs ds (plValue policy)))
            (\<lambda>cPolicy. Inr (mput (fst entry) cPolicy policies)))"

definition hoistPolicies ::
  "(gostring, 'i ManagerImpl) gomap \<Rightarrow> (gostring, 'i Policy) gomap \<Rightarrow> (gostring, 'i Policy) gomap" where
  "hoistPolicies managers policies =
     fold (\<lambda>(groupName, manager) policies.
       fold (\<lambda>(policyName, policy). mput (groupName @ PathSeparator @ policyName) policy) (mgPolicies manager) policies)
     managers policies"

fun NewManagerImpl ::
  "'i identity_ops \<Rightarrow> policy_codecs \<Rightarrow> gostring \<Rightarrow> (int, 'i deserializer) gomap \<Rightarrow> ConfigGroup \<Rightarrow> 'i ManagerImpl result"
  and NewManagers ::
    "'i identity_ops \<Rightarrow> policy_codecs \<Rightarrow> gostring \<Rightarrow> (int, 'i deserializer) gomap \<Rightarrow> (gostring, ConfigGroup) gomap \<Rightarrow>
     (gostring, 'i ManagerImpl) gomap result" where
  "NewManagerImpl im cs path providers (ConfigGroup version groups values policies modPolicy) =
     (if map_of providers Policy_IMPLICIT_META \<noteq> None
      then Inl (Panic ''ImplicitMetaPolicy type must be provider by the policy manager'')
      else
        bindR (NewManagers im cs path providers groups) (\<lambda>managers.
        bindR (foldR (compileConfigPolicy im cs providers managers) policies []) (\<lambda>policies.
          Inr (ManagerImpl path (hoistPolicies managers policies) managers))))"
| "NewManagers im cs path providers [] = Inr []"
| "NewManagers im cs path providers ((groupName, grp) # groups) =
     bindR (NewManagerImpl im cs (path @ PathSeparator @ groupName) providers grp) (\<lambda>manager.
     bindR (NewManagers im cs path providers groups) (\<lambda>managers. Inr ((groupName, manager) # managers)))"

section \<open>What a signature set proves\<close>

lemma validIdentities_loop_sound:
  assumes "identity \<in> set (SignatureSetToValidIdentities_loop im ds idMap sds)"
  shows "\<exists>sd \<in> set sds. ds (sdIdentity sd) = Some identity \<and> idVerify im identity (sdData sd) (sdSignature sd)"
  using assms
  by (induction im ds idMap sds rule: SignatureSetToValidIdentities_loop.induct)
     (auto split: option.splits if_splits)

lemma validIdentities_loop_distinct:
  "distinct (map (identityKey im) (SignatureSetToValidIdentities_loop im ds idMap sds)) \<and>
   identityKey im ` set (SignatureSetToValidIdentities_loop im ds idMap sds) \<inter> set idMap = {}"
  by (induction im ds idMap sds rule: SignatureSetToValidIdentities_loop.induct)
     (auto split: option.splits)

section \<open>Signature policies are satisfied by distinct identities\<close>

text \<open>The meaning of a signature policy, independently of its evaluation: the set \<open>S\<close> of positions satisfies the policy
  when every counted rule has a part of \<open>S\<close> of its own.\<close>

fun satisfied :: "'i identity_ops \<Rightarrow> MSPPrincipal list \<Rightarrow> 'i list \<Rightarrow> SignaturePolicy \<Rightarrow> nat set \<Rightarrow> bool"
  and satisfied_rules ::
    "'i identity_ops \<Rightarrow> MSPPrincipal list \<Rightarrow> 'i list \<Rightarrow> SignaturePolicy list \<Rightarrow> int \<Rightarrow> nat set \<Rightarrow> bool" where
  "satisfied im ps ids (SP_NOutOf n rules) S \<longleftrightarrow> (\<exists>m \<ge> n. satisfied_rules im ps ids rules m S)"
| "satisfied im ps ids (SP_SignedBy k) S \<longleftrightarrow>
     (\<exists>i < length ids. S = {i} \<and> 0 \<le> k \<and> k < int (length ps) \<and> idSatisfiesPrincipal im (ids ! i) (ps ! nat k))"
| "satisfied im ps ids SP_NoType S \<longleftrightarrow> False"
| "satisfied im ps ids SP_Nil S \<longleftrightarrow> False"
| "satisfied_rules im ps ids [] m S \<longleftrightarrow> m = 0 \<and> S = {}"
| "satisfied_rules im ps ids (rule # rules) m S \<longleftrightarrow>
     satisfied_rules im ps ids rules m S \<or>
     (\<exists>A B. S = A \<union> B \<and> A \<inter> B = {} \<and> satisfied im ps ids rule A \<and> satisfied_rules im ps ids rules (m - 1) B)"

definition usedSet :: "bool list \<Rightarrow> nat set" where
  "usedSet used = {i. i < length used \<and> used ! i}"

lemma usedSet_update: "i < length used \<Longrightarrow> usedSet (used[i := True]) = insert i (usedSet used)"
  by (auto simp: usedSet_def nth_list_update)

lemma signedBy_loop_sound:
  assumes "signedBy_loop im p i sds used = (True, used')" and "i + length sds = length used"
  shows "\<exists>j. i \<le> j \<and> j < length used \<and> \<not> used ! j \<and> idSatisfiesPrincipal im (sds ! (j - i)) p \<and> used' = used[j := True]"
  using assms
proof (induction im p i sds used rule: signedBy_loop.induct)
  case (2 im p i sd sds used)
  show ?case
  proof (cases "used ! i \<or> \<not> idSatisfiesPrincipal im sd p")
    case True
    with 2 obtain j where j: "Suc i \<le> j" "j < length used" "\<not> used ! j"
      "idSatisfiesPrincipal im (sds ! (j - Suc i)) p" "used' = used[j := True]"
      by (auto split: if_splits)
    then have "(sd # sds) ! (j - i) = sds ! (j - Suc i)"
      by (simp add: nth_Cons' Suc_diff_le)
    with j show ?thesis by (intro exI [of _ j]) simp
  next
    case False
    with 2 show ?thesis by (intro exI [of _ i]) auto
  qed
qed simp

text \<open>\<open>claimed\<close>: the evaluation took fresh positions, exactly \<open>S\<close>.\<close>

definition claimed :: "bool list \<Rightarrow> bool list \<Rightarrow> nat set \<Rightarrow> bool" where
  "claimed used used' S \<longleftrightarrow>
     length used' = length used \<and> S \<inter> usedSet used = {} \<and> usedSet used' = usedSet used \<union> S"

lemma claimed_refl: "claimed used used {}"
  by (simp add: claimed_def)

lemma claimed_trans: "claimed a b A \<Longrightarrow> claimed b c B \<Longrightarrow> claimed a c (A \<union> B) \<and> A \<inter> B = {}"
  by (auto simp: claimed_def)

lemma compile_sound:
  "compile im policy ps = Inr f \<Longrightarrow> f ids used = (True, used') \<Longrightarrow> length used = length ids \<Longrightarrow>
     \<exists>S. satisfied im ps ids policy S \<and> claimed used used' S"
  "compile_rules im rules ps = Inr fs \<Longrightarrow> gate_loop fs ids v used = (v', used') \<Longrightarrow> length used = length ids \<Longrightarrow>
     \<exists>S. satisfied_rules im ps ids rules (v' - v) S \<and> claimed used used' S"
proof (induction im policy ps and im rules ps arbitrary: f used used' and fs v used v' used'
    rule: compile_compile_rules.induct)
  case (2 im n rules ps)
  then obtain fs v' where "compile_rules im rules ps = Inr fs" "gate_loop fs ids 0 used = (v', used')" "n \<le> v'"
    by (auto simp: bindR_Inr_iff split: prod.splits)
  from 2(1) [OF this(1,2) 2(4)] \<open>n \<le> v'\<close> show ?case by auto
next
  case (3 im k ps)
  then have k: "0 \<le> k" "k < int (length ps)" and loop: "signedBy_loop im (ps ! nat k) 0 ids used = (True, used')"
    by (auto split: if_splits)
  from signedBy_loop_sound [OF loop] 3 obtain j where "j < length ids" "\<not> used ! j"
    "idSatisfiesPrincipal im (ids ! j) (ps ! nat k)" "used' = used[j := True]"
    by auto
  moreover from this have "j \<notin> usedSet used" by (simp add: usedSet_def)
  ultimately show ?case using k 3(3)
    by (intro exI [of _ "{j}"]) (simp add: claimed_def usedSet_update)
next
  case (5 im ps)
  then show ?case by (intro exI [of _ "{}"]) (simp add: claimed_refl)
next
  case (6 im policy rules ps)
  then obtain g gs where g: "compile im policy ps = Inr g" and gs: "compile_rules im rules ps = Inr gs" and fs: "fs = g # gs"
    by (auto simp: bindR_Inr_iff)
  obtain ok used1 where g1: "g ids used = (ok, used1)" by fastforce
  show ?case
  proof (cases ok)
    case True
    with g1 have "g ids used = (True, used1)" by simp
    from 6(1) [OF g this 6(5)] obtain A where A: "satisfied im ps ids policy A" "claimed used used1 A" by blast
    then have len: "length used1 = length ids" using 6(5) by (simp add: claimed_def)
    from True g1 fs 6(4) have "gate_loop gs ids (v + 1) used1 = (v', used')" by simp
    from 6(2) [OF g gs this len] obtain B where
      B: "satisfied_rules im ps ids rules (v' - (v + 1)) B" "claimed used1 used' B" by blast
    have "v' - (v + 1) = v' - v - 1" by simp
    with A B claimed_trans [OF A(2) B(2)] show ?thesis
      by (intro exI [of _ "A \<union> B"]) auto
  next
    case False
    with g1 fs 6(4) have "gate_loop gs ids v used = (v', used')" by simp
    from 6(2) [OF g gs this 6(5)] show ?thesis by auto
  qed
qed simp_all

lemma satisfied_positions:
  "satisfied im ps ids policy S \<Longrightarrow> S \<subseteq> {..<length ids}"
  "satisfied_rules im ps ids rules m S \<Longrightarrow> S \<subseteq> {..<length ids}"
  by (induction im ps ids policy S and im ps ids rules m S rule: satisfied_satisfied_rules.induct) auto

lemma sig_EvaluateIdentities_sound:
  assumes "compile im policy ps = Inr f" and "sig_EvaluateIdentities f ids = Inr ()"
  shows "\<exists>S \<subseteq> {..<length ids}. satisfied im ps ids policy S"
proof -
  obtain ok used' where f: "f ids (replicate (length ids) False) = (ok, used')" by fastforce
  with assms(2) have "f ids (replicate (length ids) False) = (True, used')"
    by (simp add: sig_EvaluateIdentities_def split: if_splits)
  from compile_sound(1) [OF assms(1) this] obtain S where "satisfied im ps ids policy S" by force
  moreover from this have "S \<subseteq> {..<length ids}" by (rule satisfied_positions(1))
  ultimately show ?thesis by blast
qed

text \<open>
  C35. A set of signatures that a signature policy accepts contains valid signatures of pairwise different identities that
  satisfy the policy with no identity counted twice: every counted rule of a gate is satisfied by positions of its own.\<close>

theorem signature_policy_sound:
  assumes "NewPolicy im cs ds data = Inr policy" and "EvaluateSignedData im policy sds = Inr ()"
  shows "\<exists>env ids S. pUnmarshal (pbSignaturePolicyEnvelope cs) data = Inr env \<and>
    distinct (map (identityKey im) ids) \<and>
    (\<forall>i \<in> set ids. \<exists>sd \<in> set sds. ds (sdIdentity sd) = Some i \<and> idVerify im i (sdData sd) (sdSignature sd)) \<and>
    S \<subseteq> {..<length ids} \<and> satisfied im (speIdentities env) ids (speRule env) S"
proof -
  from assms(1) obtain env f where env: "pUnmarshal (pbSignaturePolicyEnvelope cs) data = Inr env"
    and f: "compile im (speRule env) (speIdentities env) = Inr f" and policy: "policy = SigPolicy f ds env"
    by (auto simp: NewPolicy_def bindR_Inr_iff split: if_splits)
  let ?ids = "SignatureSetToValidIdentities im ds sds"
  from assms(2) policy have "sig_EvaluateIdentities f ?ids = Inr ()"
    by (simp add: sig_EvaluateSignedData_def)
  from sig_EvaluateIdentities_sound [OF f this] obtain S where
    "S \<subseteq> {..<length ?ids}" "satisfied im (speIdentities env) ?ids (speRule env) S" by blast
  moreover have "distinct (map (identityKey im) ?ids)"
    by (simp add: SignatureSetToValidIdentities_def validIdentities_loop_distinct)
  moreover have "\<forall>i \<in> set ?ids. \<exists>sd \<in> set sds. ds (sdIdentity sd) = Some i \<and> idVerify im i (sdData sd) (sdSignature sd)"
    by (simp add: SignatureSetToValidIdentities_def validIdentities_loop_sound)
  ultimately show ?thesis using env by blast
qed

definition prefix_identities :: "gostring identity_ops" where
  "prefix_identities = \<lparr>idMspid = (\<lambda>i. i), idId = (\<lambda>_. []), idVerify = (\<lambda>i d s. s = i @ d),
     idSatisfiesPrincipal = (\<lambda>i p. take (length (mpPrincipal p)) i = mpPrincipal p)\<rparr>"

definition org_principal :: "gostring \<Rightarrow> MSPPrincipal" where
  "org_principal org = \<lparr>mpClassification = 0, mpPrincipal = org\<rparr>"

definition both_orgs :: SignaturePolicyEnvelope where
  "both_orgs = \<lparr>speVersion = 0, speRule = SP_NOutOf 2 [SP_SignedBy 0, SP_SignedBy 1],
     speIdentities = [org_principal ''A'', org_principal ''B'']\<rparr>"

definition majority_admins :: ImplicitMetaDef where
  "majority_admins = \<lparr>imdSubPolicy = ''Admins'', imdRule = ImplicitMetaPolicy_MAJORITY\<rparr>"

definition constant_codecs :: "SignaturePolicyEnvelope \<Rightarrow> ImplicitMetaDef \<Rightarrow> policy_codecs" where
  "constant_codecs env def =
     \<lparr>pbSignaturePolicyEnvelope = \<lparr>pMarshal = (\<lambda>_. Inr []), pUnmarshal = (\<lambda>_. Inr env)\<rparr>,
      pbImplicitMetaPolicy = \<lparr>pMarshal = (\<lambda>_. Inr []), pUnmarshal = (\<lambda>_. Inr def)\<rparr>\<rparr>"

definition signed_by :: "gostring \<Rightarrow> SignedData" where
  "signed_by i = \<lparr>sdData = ''tx'', sdIdentity = i, sdSignature = i @ ''tx''\<rparr>"

lemmas policy_examples = prefix_identities_def org_principal_def both_orgs_def majority_admins_def constant_codecs_def signed_by_def

theorem signature_policy_sound_witness:
  "\<exists>policy. NewPolicy prefix_identities (constant_codecs both_orgs majority_admins) Some [] = Inr policy \<and>
     EvaluateSignedData prefix_identities policy [signed_by ''A1'', signed_by ''A1'', signed_by ''B7''] = Inr () \<and>
     (\<exists>ids S. distinct (map (identityKey prefix_identities) ids) \<and> S \<subseteq> {..<length ids} \<and>
        satisfied prefix_identities (speIdentities both_orgs) ids (speRule both_orgs) S)"
proof -
  let ?sds = "[signed_by ''A1'', signed_by ''A1'', signed_by ''B7'']"
  obtain policy where policy: "NewPolicy prefix_identities (constant_codecs both_orgs majority_admins) Some [] = Inr policy"
    and ok: "EvaluateSignedData prefix_identities policy ?sds = Inr ()"
    by (simp add: NewPolicy_def policy_examples sig_EvaluateSignedData_def sig_EvaluateIdentities_def
        SignatureSetToValidIdentities_def identityKey_def)
  have "pUnmarshal (pbSignaturePolicyEnvelope (constant_codecs both_orgs majority_admins)) [] = Inr both_orgs"
    by (simp add: constant_codecs_def)
  moreover obtain env ids S where "pUnmarshal (pbSignaturePolicyEnvelope (constant_codecs both_orgs majority_admins)) [] = Inr env"
    and ids: "distinct (map (identityKey prefix_identities) ids)" "S \<subseteq> {..<length ids}"
      "satisfied prefix_identities (speIdentities env) ids (speRule env) S"
    using signature_policy_sound [OF policy ok] by blast
  ultimately have "env = both_orgs" by simp
  with policy ok ids show ?thesis by (intro exI conjI) simp_all
qed

text \<open>The evaluation is greedy: a rule takes the first identity that satisfies it. An administrator first in the signature
  set is taken by the rule that any member would satisfy, and the policy is rejected although it is satisfied.\<close>

lemma evaluation_is_greedy:
  fixes rule :: SignaturePolicy
  defines "rule \<equiv> SP_NOutOf 2 [SP_SignedBy 0, SP_SignedBy 1]"
    and "ps \<equiv> [org_principal ''A'', org_principal ''Aadmin'']"
    and "ids \<equiv> [''Aadmin1'', ''Auser1'']"
  shows "satisfied prefix_identities ps ids rule {0, 1}"
    and "bindR (compile prefix_identities rule ps) (\<lambda>f. Inr (sig_EvaluateIdentities f ids)) =
           Inr (Inl ''signature set did not satisfy policy'')"
    and "bindR (compile prefix_identities rule ps) (\<lambda>f. Inr (sig_EvaluateIdentities f (rev ids))) = Inr (Inr ())"
proof -
  have "satisfied_rules prefix_identities ps ids [SP_SignedBy 1] 1 {0}"
    by (simp add: ps_def ids_def prefix_identities_def org_principal_def)
  moreover have "satisfied prefix_identities ps ids (SP_SignedBy 0) {1}"
    by (simp add: ps_def ids_def prefix_identities_def org_principal_def)
  ultimately have "satisfied_rules prefix_identities ps ids [SP_SignedBy 0, SP_SignedBy 1] 2 ({1} \<union> {0})"
    unfolding satisfied_rules.simps(2) [where rule = "SP_SignedBy 0"]
    by (intro disjI2 exI [of _ "{1}"] exI [of _ "{0}"]) (simp del: satisfied.simps satisfied_rules.simps)
  then show "satisfied prefix_identities ps ids rule {0, 1}"
    unfolding rule_def satisfied.simps(1)
    by (intro exI [of _ 2]) (simp add: insert_commute del: satisfied.simps satisfied_rules.simps)
qed (simp_all add: rule_def ps_def ids_def prefix_identities_def org_principal_def sig_EvaluateIdentities_def)

section \<open>Implicit meta policies\<close>

definition accepting :: "'i identity_ops \<Rightarrow> 'i Policy list \<Rightarrow> SignedData list \<Rightarrow> int" where
  "accepting im ps sds = int (length (filter (\<lambda>p. EvaluateSignedData im p sds = Inr ()) ps))"

lemma evaluateSignedData_loop_nonpos:
  "remaining \<le> 0 \<Longrightarrow> evaluateSignedData_loop im ps sds remaining = remaining - accepting im ps sds"
  by (induction ps arbitrary: remaining) (simp_all add: accepting_def)

lemma evaluateSignedData_loop_pos:
  "0 < remaining \<Longrightarrow> evaluateSignedData_loop im ps sds remaining = 0 \<longleftrightarrow> remaining \<le> accepting im ps sds"
proof (induction ps arbitrary: remaining)
  case (Cons p ps)
  show ?case
  proof (cases "remaining = 1")
    case True
    with Cons.IH [of 1] show ?thesis by (simp add: accepting_def)
  next
    case False
    with Cons.prems have "0 < remaining - 1" by simp
    with Cons.IH [of remaining] Cons.IH [of "remaining - 1"] Cons.prems show ?thesis by (auto simp: accepting_def)
  qed
qed (simp add: accepting_def)

lemma EvaluateSignedData_implicit_meta:
  "0 \<le> threshold \<Longrightarrow> EvaluateSignedData im (ImplicitMetaPolicy threshold ps nm) sds = Inr () \<longleftrightarrow>
     (if threshold = 0 then accepting im ps sds = 0 else threshold \<le> accepting im ps sds)"
  by (simp add: evaluateSignedData_loop_nonpos evaluateSignedData_loop_pos)

text \<open>The number of groups whose sub-policy accepts; a group without it has the policy that rejects everything.\<close>

definition accepting_groups ::
  "'i identity_ops \<Rightarrow> gostring \<Rightarrow> SignedData list \<Rightarrow> (gostring, 'i ManagerImpl) gomap \<Rightarrow> nat" where
  "accepting_groups im sub sds managers =
     length (filter (\<lambda>(_, m).
       case GetPolicy m sub of Inl _ \<Rightarrow> False | Inr (p, _) \<Rightarrow> EvaluateSignedData im p sds = Inr ()) managers)"

lemma accepting_eq_groups:
  assumes "mapR (\<lambda>(_, m). bindR (GetPolicy m sub) (\<lambda>(p, _). Inr p)) managers = Inr ps"
  shows "accepting im ps sds = int (accepting_groups im sub sds managers) \<and> length ps = length managers"
  using assms
proof (induction managers arbitrary: ps)
  case (Cons nm managers)
  obtain n m where nm: "nm = (n, m)" by fastforce
  with Cons.prems obtain p found qs where p: "GetPolicy m sub = Inr (p, found)" and ps: "ps = p # qs"
    and qs: "mapR (\<lambda>(_, m). bindR (GetPolicy m sub) (\<lambda>(p, _). Inr p)) managers = Inr qs"
    by (auto simp: bindR_Inr_iff)
  from Cons.IH [OF qs] p ps nm show ?case by (simp add: accepting_def accepting_groups_def)
qed (simp add: accepting_def accepting_groups_def)

text \<open>
  C36. What an implicit meta policy accepts, for every value of its rule: with \<open>ANY\<close>, \<open>ALL\<close> and \<open>MAJORITY\<close> it counts the
  groups below whose sub-policy accepts the signatures, and it accepts everything when there is no group below. A rule
  outside these three is accepted by the constructor and turns the policy around: it accepts exactly the signature sets that
  none of the groups accepts.\<close>

theorem implicit_meta_threshold:
  fixes im :: "'i identity_ops" and sds :: "SignedData list"
  assumes "pUnmarshal (pbImplicitMetaPolicy cs) data = Inr def"
    and "NewImplicitMetaPolicy cs data managers = Inr policy"
  defines "n \<equiv> accepting_groups im (imdSubPolicy def) sds managers"
  shows "EvaluateSignedData im policy sds = Inr () \<longleftrightarrow>
    managers = [] \<or>
    imdRule def = ImplicitMetaPolicy_ANY \<and> 0 < n \<or>
    imdRule def = ImplicitMetaPolicy_ALL \<and> n = length managers \<or>
    imdRule def = ImplicitMetaPolicy_MAJORITY \<and> length managers < 2 * n \<or>
    imdRule def \<notin> {ImplicitMetaPolicy_ANY, ImplicitMetaPolicy_ALL, ImplicitMetaPolicy_MAJORITY} \<and> n = 0"
proof -
  from assms(1,2) obtain ps where
    ps: "mapR (\<lambda>(_, m). bindR (GetPolicy m (imdSubPolicy def)) (\<lambda>(p, _). Inr p)) managers = Inr ps"
    and policy: "policy = ImplicitMetaPolicy
      (if ps = [] then 0 else if imdRule def = 0 then 1 else if imdRule def = 1 then int (length ps)
       else if imdRule def = 2 then int (length ps div 2) + 1 else 0) ps (imdSubPolicy def)"
    by (auto simp: NewImplicitMetaPolicy_def bindR_Inr_iff Let_def)
  from accepting_eq_groups [OF ps] have count: "accepting im ps sds = int n" and len: "length ps = length managers"
    by (simp_all add: n_def)
  have "n \<le> length managers" unfolding n_def accepting_groups_def by (rule length_filter_le)
  moreover have "ps = [] \<longleftrightarrow> managers = []" using len by auto
  moreover have "int (length ps div 2) + 1 \<le> int n \<longleftrightarrow> length managers < 2 * n" using len by linarith
  ultimately show ?thesis
    unfolding policy by (subst EvaluateSignedData_implicit_meta) (auto simp: count len)
qed

text \<open>A group whose \<open>Admins\<close> policy asks for one signature of the organization.\<close>

definition org_manager :: "gostring \<Rightarrow> gostring ManagerImpl" where
  "org_manager org = ManagerImpl (''Channel/'' @ org)
     [(''Admins'', SigPolicy (\<lambda>ids used. signedBy_loop prefix_identities (org_principal org) 0 ids used) Some both_orgs)] []"

theorem implicit_meta_threshold_witness:
  "\<exists>policy. NewImplicitMetaPolicy (constant_codecs both_orgs majority_admins) []
       [(''A'', org_manager ''A''), (''B'', org_manager ''B''), (''C'', org_manager ''C'')] = Inr policy \<and>
     EvaluateSignedData prefix_identities policy [signed_by ''A1'', signed_by ''C3''] = Inr () \<and>
     EvaluateSignedData prefix_identities policy [signed_by ''A1'', signed_by ''A2''] \<noteq> Inr ()"
proof -
  let ?ms = "[(''A'', org_manager ''A''), (''B'', org_manager ''B''), (''C'', org_manager ''C'')]"
  let ?cs = "constant_codecs both_orgs majority_admins"
  have um: "pUnmarshal (pbImplicitMetaPolicy ?cs) [] = Inr majority_admins"
    by (simp add: constant_codecs_def)
  have "\<exists>policy. NewImplicitMetaPolicy ?cs [] ?ms = Inr policy"
    by (simp add: NewImplicitMetaPolicy_def GetPolicy_def org_manager_def policy_examples PathSeparator_def)
  then obtain policy where policy: "NewImplicitMetaPolicy ?cs [] ?ms = Inr policy" ..
  have "accepting_groups prefix_identities ''Admins'' [signed_by ''A1'', signed_by ''C3''] ?ms = 2"
    and "accepting_groups prefix_identities ''Admins'' [signed_by ''A1'', signed_by ''A2''] ?ms = 1"
    by (simp_all add: accepting_groups_def GetPolicy_def org_manager_def policy_examples PathSeparator_def
        sig_EvaluateSignedData_def sig_EvaluateIdentities_def SignatureSetToValidIdentities_def identityKey_def)
  with policy implicit_meta_threshold [OF um policy] show ?thesis
    by (simp add: majority_admins_def)
qed

section \<open>Looking policies up\<close>

lemma GetPolicy_fault: "GetPolicy pm ident = Inl e \<longleftrightarrow> e = Panic ''slice bounds out of range'' \<and> ident = ''/'' @ mgPath pm"
proof -
  have "take (Suc n) ident = ''/'' @ mgPath pm \<and> length ident < Suc (Suc n) \<longleftrightarrow> ident = ''/'' @ mgPath pm"
    if "n = length (mgPath pm)" for n
    using that by auto
  then show ?thesis
    by (cases ident) (auto simp: GetPolicy_def PathSeparator_def Let_def split: if_splits)
qed

lemma mapR_single_fault:
  assumes "\<And>x e. x \<in> set xs \<Longrightarrow> f x = Inl e \<longleftrightarrow> e = e0 \<and> P x"
  shows "mapR f xs = Inl e \<longleftrightarrow> e = e0 \<and> (\<exists>x \<in> set xs. P x)"
  using assms
proof (induction xs)
  case (Cons x xs)
  have IH: "mapR f xs = Inl e \<longleftrightarrow> e = e0 \<and> (\<exists>x \<in> set xs. P x)"
    by (rule Cons.IH) (simp add: Cons.prems)
  show ?case
  proof (cases "f x")
    case (Inl e')
    with Cons.prems [of x e'] show ?thesis by auto
  next
    case (Inr y)
    with Cons.prems [of x e0] have "\<not> P x" by simp
    with Inr IH show ?thesis by (simp add: bindR_Inl_iff)
  qed
qed simp

text \<open>
  C38. Looking up a policy panics on exactly one identifier, the absolute path of the manager itself (for the manager of
  the channel: \<open>/Channel\<close>). A channel configuration with an implicit meta policy whose sub-policy is the path of one of the
  groups below therefore panics while its managers are built.\<close>

theorem get_policy_panics:
  assumes "pUnmarshal (pbImplicitMetaPolicy cs) data = Inr def"
  shows "(GetPolicy pm ident = Inl e \<longleftrightarrow> e = Panic ''slice bounds out of range'' \<and> ident = ''/'' @ mgPath pm) \<and>
    (NewImplicitMetaPolicy cs data managers = Inl e \<longleftrightarrow>
       e = Panic ''slice bounds out of range'' \<and> (\<exists>m \<in> snd ` set managers. imdSubPolicy def = ''/'' @ mgPath m))"
proof -
  have "mapR (\<lambda>(_, m). bindR (GetPolicy m (imdSubPolicy def)) (\<lambda>(p, _). Inr p)) managers = Inl e \<longleftrightarrow>
      e = Panic ''slice bounds out of range'' \<and> (\<exists>nm \<in> set managers. imdSubPolicy def = ''/'' @ mgPath (snd nm))"
    by (rule mapR_single_fault) (auto simp: bindR_Inl_iff GetPolicy_fault split: prod.splits)
  with assms show ?thesis
    by (simp add: GetPolicy_fault NewImplicitMetaPolicy_def bindR_Inl_iff Let_def)
qed

definition clashing_admins :: ImplicitMetaDef where
  "clashing_admins = \<lparr>imdSubPolicy = ''/Channel/B'', imdRule = ImplicitMetaPolicy_ANY\<rparr>"

theorem get_policy_panics_witness:
  "GetPolicy (ManagerImpl ''Channel'' [] [] :: gostring ManagerImpl) ''/Channel'' = Inl (Panic ''slice bounds out of range'') \<and>
   NewImplicitMetaPolicy (constant_codecs both_orgs clashing_admins) []
     [(''A'', org_manager ''A''), (''B'', org_manager ''B'')] = Inl (Panic ''slice bounds out of range'')"
proof -
  have um: "pUnmarshal (pbImplicitMetaPolicy (constant_codecs both_orgs clashing_admins)) [] = Inr clashing_admins"
    by (simp add: constant_codecs_def)
  have "imdSubPolicy clashing_admins = ''/'' @ mgPath (org_manager ''B'')"
    by (simp add: clashing_admins_def org_manager_def)
  then show ?thesis
    using get_policy_panics [OF um, of "ManagerImpl ''Channel'' [] []" "''/Channel''" "Panic ''slice bounds out of range''"
        "[(''A'', org_manager ''A''), (''B'', org_manager ''B'')]"] by simp
qed

subsection \<open>The managers of a configuration\<close>

definition slashless :: "gostring \<Rightarrow> bool" where
  "slashless name \<longleftrightarrow> CHR ''/'' \<notin> set name"

fun slash_free_group :: "ConfigGroup \<Rightarrow> bool"
  and slash_free_groups :: "(gostring, ConfigGroup) gomap \<Rightarrow> bool" where
  "slash_free_group (ConfigGroup version groups values policies modPolicy) \<longleftrightarrow>
     wf_map groups \<and> slash_free_groups groups \<and> list_all slashless (map fst policies)"
| "slash_free_groups [] \<longleftrightarrow> True"
| "slash_free_groups ((groupName, grp) # groups) \<longleftrightarrow>
     slashless groupName \<and> slash_free_group grp \<and> slash_free_groups groups"

lemma slashless_split:
  "slashless g \<Longrightarrow> slashless h \<Longrightarrow> g @ ''/'' @ x = h @ ''/'' @ y \<longleftrightarrow> g = h \<and> x = y"
proof (induction g arbitrary: h)
  case Nil
  then show ?case by (cases h) (auto simp: slashless_def)
next
  case (Cons c g)
  then show ?case by (cases h) (auto simp: slashless_def)
qed

lemma map_of_hoist_one:
  assumes "slashless g" and "slashless h" and "wf_map ps"
  shows "map_of (fold (\<lambda>(n, p). mput (h @ PathSeparator @ n) p) ps acc) (g @ PathSeparator @ rel) =
    (if g = h then (case map_of ps rel of None \<Rightarrow> map_of acc (g @ PathSeparator @ rel) | Some p \<Rightarrow> Some p)
     else map_of acc (g @ PathSeparator @ rel))"
  using assms(3)
proof (induction ps arbitrary: acc)
  case (Cons np ps)
  obtain n p where np: "np = (n, p)" by fastforce
  from Cons.prems np have "wf_map ps" and n: "map_of ps n = None" by (simp_all add: map_of_eq_None_iff)
  note IH = Cons.IH [OF this(1), of "mput (h @ PathSeparator @ n) p acc"]
  have "map_of (mput (h @ PathSeparator @ n) p acc) (g @ PathSeparator @ rel) =
      (if g = h \<and> rel = n then Some p else map_of acc (g @ PathSeparator @ rel))"
    using slashless_split [OF assms(1,2), of rel n] by (simp add: gomap_simps PathSeparator_def)
  note acc' = this
  have "fold (\<lambda>(n, p). mput (h @ PathSeparator @ n) p) (np # ps) acc =
      fold (\<lambda>(n, p). mput (h @ PathSeparator @ n) p) ps (mput (h @ PathSeparator @ n) p acc)"
    by (simp add: np)
  with IH show ?case unfolding acc' using n
    by (cases "g = h"; cases "rel = n") (simp_all add: np)
qed (simp split: option.splits)

lemma map_of_hoistPolicies:
  assumes "slashless g" and "wf_map ms" and "\<And>n m. (n, m) \<in> set ms \<Longrightarrow> slashless n \<and> wf_map (mgPolicies m)"
    and "map_of ps (g @ PathSeparator @ rel) = None"
  shows "map_of (hoistPolicies ms ps) (g @ PathSeparator @ rel) =
    (case map_of ms g of None \<Rightarrow> None | Some m \<Rightarrow> map_of (mgPolicies m) rel)"
proof -
  have "map_of (hoistPolicies ms ps) (g @ PathSeparator @ rel) =
    (case map_of ms g of None \<Rightarrow> map_of ps (g @ PathSeparator @ rel)
     | Some m \<Rightarrow> (case map_of (mgPolicies m) rel of None \<Rightarrow> map_of ps (g @ PathSeparator @ rel) | Some p \<Rightarrow> Some p))" for ps
    using assms(2,3)
  proof (induction ms arbitrary: ps)
    case (Cons nm ms)
    obtain n m where nm: "nm = (n, m)" by fastforce
    with Cons.prems have n: "slashless n" "wf_map (mgPolicies m)" "map_of ms n = None"
      by (auto simp: map_of_eq_None_iff)
    let ?ps = "fold (\<lambda>(k, p). mput (n @ PathSeparator @ k) p) (mgPolicies m) ps"
    have "hoistPolicies (nm # ms) ps = hoistPolicies ms ?ps" by (simp add: hoistPolicies_def nm)
    moreover have "map_of (hoistPolicies ms ?ps) (g @ PathSeparator @ rel) =
      (case map_of ms g of None \<Rightarrow> map_of ?ps (g @ PathSeparator @ rel)
       | Some m \<Rightarrow> (case map_of (mgPolicies m) rel of None \<Rightarrow> map_of ?ps (g @ PathSeparator @ rel) | Some p \<Rightarrow> Some p))"
      by (rule Cons.IH) (use Cons.prems in auto)
    moreover note map_of_hoist_one [OF assms(1) n(1,2), of ps rel]
    ultimately show ?case
      using n(3) by (cases "g = n") (simp_all add: nm split: option.splits)
  qed (simp add: hoistPolicies_def)
  with assms(4) show ?thesis by (auto split: option.splits)
qed

lemma wf_map_fold_mput: "wf_map acc \<Longrightarrow> wf_map (fold (\<lambda>(n, p). mput (f n) p) ps acc)"
  by (induction ps arbitrary: acc) (auto split: prod.splits)

lemma wf_map_hoistPolicies: "wf_map ps \<Longrightarrow> wf_map (hoistPolicies ms ps)"
  unfolding hoistPolicies_def
  by (induction ms arbitrary: ps) (auto simp: wf_map_fold_mput split: prod.splits)

lemma compileConfigPolicies_keys:
  assumes "foldR (compileConfigPolicy im cs providers managers) policies acc = Inr ps"
  shows "wf_map acc \<Longrightarrow> wf_map ps" and "fst ` set ps \<subseteq> fst ` set acc \<union> fst ` set policies"
proof -
  have step: "\<exists>p. qs' = mput (fst e) p qs" if "compileConfigPolicy im cs providers managers e qs = Inr qs'" for e qs qs'
    using that by (auto simp: compileConfigPolicy_def bindR_Inr_iff split: option.splits)
  show "wf_map ps" if "wf_map acc"
  proof (rule foldR_invariant [OF assms, where I = wf_map, OF that])
    fix e qs qs' assume "wf_map qs" and "compileConfigPolicy im cs providers managers e qs = Inr qs'"
    from step [OF this(2)] this(1) show "wf_map qs'" by auto
  qed
  let ?K = "fst ` set acc \<union> fst ` set policies"
  show "fst ` set ps \<subseteq> ?K"
  proof (rule foldR_invariant [OF assms, where I = "\<lambda>qs. fst ` set qs \<subseteq> ?K"])
    fix e qs qs' assume e: "e \<in> set policies" "fst ` set qs \<subseteq> ?K"
      and "compileConfigPolicy im cs providers managers e qs = Inr qs'"
    from step [OF this(3)] obtain p where "qs' = mput (fst e) p qs" ..
    then show "fst ` set qs' \<subseteq> ?K" using e by (simp add: dom_update)
  qed simp
qed

lemma NewManagers_lookup:
  assumes "NewManagers im cs path providers groups = Inr ms"
  shows "map fst ms = map fst groups"
    and "map_of ms g = Some m \<Longrightarrow>
      \<exists>grp. (g, grp) \<in> set groups \<and> NewManagerImpl im cs (path @ PathSeparator @ g) providers grp = Inr m"
  using assms
proof (induction groups arbitrary: ms)
  case (Cons e groups)
  obtain n grp where e: "e = (n, grp)" by fastforce
  {
    case 1
    with e Cons.IH(1) show ?case by (auto simp: bindR_Inr_iff)
  next
    case 2
    from 2(2) e obtain m' ms' where m': "NewManagerImpl im cs (path @ PathSeparator @ n) providers grp = Inr m'"
      and ms': "NewManagers im cs path providers groups = Inr ms'" and ms: "ms = (n, m') # ms'"
      by (auto simp: bindR_Inr_iff)
    show ?case
    proof (cases "g = n")
      case True
      with 2(1) ms m' e show ?thesis by auto
    next
      case False
      with 2(1) ms have "map_of ms' g = Some m" by simp
      from Cons.IH(2) [OF this ms'] e show ?thesis by auto
    qed
  }
qed simp_all

lemma slash_free_groups_member: "slash_free_groups groups \<Longrightarrow> (g, grp) \<in> set groups \<Longrightarrow> slashless g \<and> slash_free_group grp"
proof (induction groups)
  case (Cons e groups)
  then show ?case by (cases e) auto
qed simp

lemma NewManagerImpl_result:
  assumes "NewManagerImpl im cs path providers grp = Inr m" and "slash_free_group grp"
  shows "mgPath m = path" and "wf_map (mgPolicies m)"
proof -
  obtain v gs vs ps mp where grp: "grp = ConfigGroup v gs vs ps mp" by (cases grp)
  with assms(1) obtain ms qs where qs: "foldR (compileConfigPolicy im cs providers ms) ps [] = Inr qs"
    and m: "m = ManagerImpl path (hoistPolicies ms qs) ms"
    by (auto simp: bindR_Inr_iff split: if_splits)
  show "mgPath m = path" by (simp add: m)
  from compileConfigPolicies_keys(1) [OF qs] show "wf_map (mgPolicies m)" by (simp add: m wf_map_hoistPolicies)
qed

text \<open>The policies of a manager contain those of each manager below it, under the name of the group.\<close>

lemma NewManagerImpl_child:
  assumes new: "NewManagerImpl im cs path providers grp = Inr m" and sf: "slash_free_group grp"
    and child: "map_of (mgManagers m) g = Some m'"
  shows "\<exists>grp'. slash_free_group grp' \<and> NewManagerImpl im cs (path @ PathSeparator @ g) providers grp' = Inr m'"
    and "map_of (mgPolicies m) (g @ PathSeparator @ rel) = map_of (mgPolicies m') rel"
proof -
  obtain v gs vs ps mp where grp: "grp = ConfigGroup v gs vs ps mp" by (cases grp)
  with new obtain ms qs where ms: "NewManagers im cs path providers gs = Inr ms"
    and qs: "foldR (compileConfigPolicy im cs providers ms) ps [] = Inr qs"
    and m: "m = ManagerImpl path (hoistPolicies ms qs) ms"
    by (auto simp: bindR_Inr_iff split: if_splits)
  from sf grp have gs: "wf_map gs" "slash_free_groups gs" and names: "list_all slashless (map fst ps)" by simp_all
  from NewManagers_lookup(1) [OF ms] gs(1) have wf: "wf_map ms" by simp
  have below: "\<exists>grp'. slashless n \<and> slash_free_group grp' \<and>
      NewManagerImpl im cs (path @ PathSeparator @ n) providers grp' = Inr k" if "map_of ms n = Some k" for n k
    using NewManagers_lookup(2) [OF ms that] slash_free_groups_member [OF gs(2)] by blast
  from child m have g: "map_of ms g = Some m'" by simp
  from below [OF g] show "\<exists>grp'. slash_free_group grp' \<and> NewManagerImpl im cs (path @ PathSeparator @ g) providers grp' = Inr m'"
    by blast
  have "map_of qs (g @ PathSeparator @ rel) = None"
    using compileConfigPolicies_keys(2) [OF qs] names
    by (fastforce simp: map_of_eq_None_iff list_all_iff slashless_def PathSeparator_def)
  moreover have "slashless n \<and> wf_map (mgPolicies k)" if "(n, k) \<in> set ms" for n k
    using below [of n k] NewManagerImpl_result(2) that wf by (auto simp: map_of_Some_mem)
  ultimately have "map_of (hoistPolicies ms qs) (g @ PathSeparator @ rel) = map_of (mgPolicies m') rel"
    using below [OF g] g wf by (subst map_of_hoistPolicies) auto
  then show "map_of (mgPolicies m) (g @ PathSeparator @ rel) = map_of (mgPolicies m') rel" by (simp add: m)
qed

definition underPath :: "gostring list \<Rightarrow> gostring" where
  "underPath names = concat (map (\<lambda>n. PathSeparator @ n) names)"

lemma Manager_lookup:
  assumes "NewManagerImpl im cs path providers grp = Inr m" and "slash_free_group grp" and "Manager m names = Some m'"
  shows "mgPath m' = path @ underPath names"
    and "map_of (mgPolicies m) (drop 1 (underPath names @ PathSeparator @ rel)) = map_of (mgPolicies m') rel"
  using assms
proof (induction names arbitrary: path grp m)
  case Nil
  {
    case 1
    with NewManagerImpl_result(1) [OF 1(1,2)] show ?case by (simp add: underPath_def)
  next
    case 2
    then show ?case by (simp add: underPath_def PathSeparator_def)
  }
next
  case (Cons g names)
  have child: "\<exists>k grp'. map_of (mgManagers m) g = Some k \<and> Manager k names = Some m' \<and> slash_free_group grp' \<and>
      NewManagerImpl im cs (path @ PathSeparator @ g) providers grp' = Inr k"
    if "NewManagerImpl im cs path providers grp = Inr m" "slash_free_group grp" "Manager m (g # names) = Some m'"
    for path grp and m :: "'a ManagerImpl"
    using that(3) NewManagerImpl_child(1) [OF that(1,2)] by (auto split: option.splits)
  {
    case 1
    from child [OF 1] obtain k grp' where k: "Manager k names = Some m'"
      "slash_free_group grp'" "NewManagerImpl im cs (path @ PathSeparator @ g) providers grp' = Inr k" by blast
    from Cons.IH(1) [OF k(3,2,1)] show ?case by (simp add: underPath_def)
  next
    case 2
    from child [OF 2] obtain k grp' where k: "map_of (mgManagers m) g = Some k" "Manager k names = Some m'"
      "slash_free_group grp'" "NewManagerImpl im cs (path @ PathSeparator @ g) providers grp' = Inr k" by blast
    have "drop 1 (underPath (g # names) @ PathSeparator @ rel) =
        g @ PathSeparator @ drop 1 (underPath names @ PathSeparator @ rel)"
      by (cases names) (simp_all add: underPath_def PathSeparator_def)
    with NewManagerImpl_child(2) [OF 2(1,2) k(1)] Cons.IH(2) [OF k(4,3,2)] show ?case by simp
  }
qed

lemma GetPolicy_absolute:
  "GetPolicy pm (PathSeparator @ mgPath pm @ PathSeparator @ rel) = Inr (p, True) \<longleftrightarrow>
     (\<exists>q. map_of (mgPolicies pm) rel = Some q \<and> p = PolicyLogger q (PathSeparator @ mgPath pm @ PathSeparator @ rel))"
  by (auto simp: GetPolicy_def PathSeparator_def split: option.splits)

text \<open>
  C37. In the managers built from a configuration, an absolute policy identifier names the same policy from every manager
  on its path: looking \<open>/path/to/group/name\<close> up in the manager at \<open>path\<close> finds a policy exactly when the manager of the group
  finds it, and it is the same policy.\<close>

theorem absolute_ids_resolve:
  assumes "NewManagerImpl im cs path providers grp = Inr m" and "slash_free_group grp" and "Manager m names = Some m'"
  shows "GetPolicy m (PathSeparator @ mgPath m' @ PathSeparator @ rel) = Inr (p, True) \<longleftrightarrow>
         GetPolicy m' (PathSeparator @ mgPath m' @ PathSeparator @ rel) = Inr (p, True)"
proof -
  obtain r where r: "underPath names @ PathSeparator @ rel = PathSeparator @ r"
    by (cases names) (simp_all add: underPath_def PathSeparator_def)
  then have drop: "drop 1 (underPath names @ PathSeparator @ rel) = r" by (simp add: PathSeparator_def)
  have "mgPath m = path" by (rule NewManagerImpl_result(1) [OF assms(1,2)])
  with r have "PathSeparator @ mgPath m' @ PathSeparator @ rel = PathSeparator @ mgPath m @ PathSeparator @ r"
    using Manager_lookup(1) [OF assms] by simp
  then show ?thesis
    using GetPolicy_absolute [of m r p] GetPolicy_absolute [of m' rel p] Manager_lookup(2) [OF assms, of rel]
    unfolding drop by simp
qed

definition sample_channel :: ConfigGroup where
  "sample_channel =
     ConfigGroup 0
       [(''Application'', ConfigGroup 0
          [(''A'', ConfigGroup 0 [] []
              [(''Admins'', \<lparr>cpVersion = 0, cpPolicy = Some \<lparr>plType = Policy_SIGNATURE, plValue = []\<rparr>, cpModPolicy = ''Admins''\<rparr>)] ''Admins'')]
          [] [(''Admins'', \<lparr>cpVersion = 0, cpPolicy = Some \<lparr>plType = Policy_IMPLICIT_META, plValue = []\<rparr>, cpModPolicy = ''Admins''\<rparr>)]
          ''Admins'')]
       [] [] ''Admins''"

theorem absolute_ids_resolve_witness:
  "\<exists>m m' p. NewManagerImpl prefix_identities (constant_codecs both_orgs majority_admins) ''Channel''
       [(Policy_SIGNATURE, Some)] sample_channel = Inr m \<and>
     Manager m [''Application'', ''A''] = Some m' \<and>
     GetPolicy m ''/Channel/Application/A/Admins'' = Inr (p, True) \<and>
     GetPolicy m' ''/Channel/Application/A/Admins'' = Inr (p, True)"
proof -
  let ?new = "NewManagerImpl prefix_identities (constant_codecs both_orgs majority_admins) ''Channel''
       [(Policy_SIGNATURE, Some)] sample_channel"
  have "\<exists>m m'. ?new = Inr m \<and> Manager m [''Application'', ''A''] = Some m' \<and> mgPath m' = ''Channel/Application/A'' \<and>
      (\<exists>p. GetPolicy m' ''/Channel/Application/A/Admins'' = Inr (p, True))"
    by (simp add: sample_channel_def policy_examples compileConfigPolicy_def NewPolicy_def NewImplicitMetaPolicy_def
        hoistPolicies_def GetPolicy_def PathSeparator_def)
  then obtain m m' p where m: "?new = Inr m" "Manager m [''Application'', ''A''] = Some m'"
    "mgPath m' = ''Channel/Application/A''" "GetPolicy m' ''/Channel/Application/A/Admins'' = Inr (p, True)"
    by blast
  have "slash_free_group sample_channel" by (simp add: sample_channel_def slashless_def)
  from absolute_ids_resolve [OF m(1) this m(2), of "''Admins''" p] m show ?thesis
    by (auto simp: PathSeparator_def)
qed

end
