(* ===== verification/Spec2Isabelle.thy ===== *)
theory Spec2Isabelle
  imports Rwset_Builder Batch_Preparer State_Leveldb Block_Cutter Policies
begin

text \<open>
  A verification library for the transaction path of Hyperledger Fabric 2.5.12 (\<open>src/fabric-2.5.12\<close>).

  \<^bold>\<open>The program.\<close> A client's proposal is simulated by endorsing peers. The simulation records what it reads and writes in
  a read-write set; the endorsements and the read-write set become a transaction, ordered into a block. Every peer
  then validates the transactions of the block one after the other against its versioned state and the writes of the
  valid transactions before them in the block, and commits the writes of the valid ones. Paths below are relative to
  \<open>src/fabric-2.5.12\<close>; \<open>TX\<close> is \<open>core/ledger/kvledger/txmgmt\<close>.

  \<^bold>\<open>The theories.\<close>

  \<^item> \<open>Prelude\<close>: byte strings, faults (an error returned or a panic) and the result type, loops with early return
    (\<open>foldR\<close>, \<open>mapR\<close>), Go maps as association lists, \<open>GetSortedKeys\<close> of \<open>core/ledger/util/util.go\<close>.
  \<^item> \<open>Ledger_Util\<close>: the order-preserving number encoding of \<open>common/ledger/util/util.go\<close> with the protobuf varints it
    uses. It is total, decodes back, is prefix-free and keeps the order.
  \<^item> \<open>Version\<close>: heights (\<open>core/ledger/internal/version/version.go\<close>), their serialisation and \<open>Compare\<close>, correct below
    a distance of \<open>2^63\<close> and wrong from there on.
  \<^item> \<open>Statedb\<close>: update batches, their range iterators and the interface \<open>VersionedDB\<close>
    (\<open>TX/statedb/statedb.go\<close>). The locale \<open>versioned_db\<close> is the contract of the interface.
  \<^item> \<open>Leveldb_Helper\<close>, \<open>State_Leveldb\<close>: the shared goleveldb (\<open>common/ledger/util/leveldbhelper\<close>) and the state
    database on it (\<open>TX/statedb/stateleveldb\<close>), which interprets \<open>versioned_db\<close>: commits, reads, range scans with
    pages, full scan and import of a state.
  \<^item> \<open>Combined_Iterator\<close>: the iterator that merges the database and the pending updates
    (\<open>TX/validation/combined_iterator.go\<close>) returns the range scan of the state with the updates applied.
  \<^item> \<open>Rwset\<close>, \<open>Rwset_Builder\<close>: read-write sets, their messages and the builder used by simulation
    (\<open>TX/rwsetutil\<close>). The built set has the last access of every key, and the public part commits to the private part.
  \<^item> \<open>Query_Results_Helper\<close>, \<open>Range_Query_Validator\<close>: Merkle summaries of range queries and the two phantom-read
    checks (\<open>TX/rwsetutil/query_results_helper.go\<close>, \<open>TX/validation/rangequery_validator.go\<close>).
  \<^item> \<open>Privacy_State\<close>: public, private and hashed data in one database, the metadata hint
    (\<open>TX/privacyenabledstate\<close>).
  \<^item> \<open>Tx_Ops\<close>: how the writes of a transaction, metadata included, become updates (\<open>TX/validation/tx_ops.go\<close>,
    \<open>types.go\<close>).
  \<^item> \<open>Mvcc_Validator\<close>: validation of a block (\<open>TX/validation/validator.go\<close>). The valid transactions are serialisable in
    block order, nothing valid is rejected, purges are tracked.
  \<^item> \<open>Batch_Preparer\<close>: from the bytes of a block to the batch of updates, with the validation flags and the private data
    (\<open>TX/validation/batch_preparer.go\<close>, \<open>internal/pkg/txflags\<close>).
  \<^item> \<open>Protoutil\<close>, \<open>Protoutil_Tx\<close>, \<open>Protoutil_Block\<close>: envelopes, proposals, endorsements, transactions and blocks
    (\<open>protoutil\<close>). What a committer extracts is what was endorsed; header bytes determine the header; well-formed
    block data cannot be split differently.

  \<^bold>\<open>Reading the model.\<close> A Go struct is a record, whose fields carry a short prefix. Every error return and every panic the
  code can reach is a value \<open>Inl\<close>, named by its message. A pointer or slice that the code compares with \<open>nil\<close> is an
  option. Mutation is state passing. Loops are structural recursion or have a termination proof; the loop of the
  full database scan is a \<open>partial_function\<close>, and that it ends is a theorem. No fuel is used. Integers are words
  where the code depends on their width.

  \<^bold>\<open>Parameters.\<close> Protobuf marshalling, hash functions, signatures, time, random bytes, the custom transaction processors
  and the bulk loader of a database are arguments of the definitions. What is used of them are named hypotheses
  (\<open>lawful\<close>, \<open>codec_ok\<close>, \<open>codec_total\<close>, \<open>nonempty_encodings\<close>), each with an instance in a witness.

  \<^bold>\<open>Not modelled.\<close> Networking, gossip, consensus, chaincode execution, membership and cryptography, the block files, the
  history and private data stores, CouchDB, command line tools and sample applications: they are driven by input and
  output, timers and goroutines, or by libraries outside the repository. Logging and metrics are left out of every
  modelled function. The goleveldb engine is represented by its contents and by whether it fails.
\<close>

end
